(* ===== verification/Prelude.thy ===== *)
theory Prelude
  imports Main "HOL-Library.Word"
begin

text \<open>
  What the components share: the collections of facts their proofs draw on, and the generic
  lemmas on lists and machine words that none of the component theories owns.

  Unsigned C and C++ integers are modelled in one of two ways. Bit patterns (bitboards,
  hashes, checksums) are words of the width of the C type. Small counters and board squares
  (\<open>uint8_t\<close>) are natural numbers, with the reduction modulo 256 written out wherever an
  operation of the source can leave the range.
\<close>

unbundle bit_operations_syntax

named_theorems bitboard_simps \<open>single-bit reads of bitboard operations\<close>
named_theorems square_simps \<open>coordinates of board squares\<close>
named_theorems wf_intros \<open>preservation of well-formedness\<close>

type_synonym u64 = "64 word"
type_synonym u32 = "32 word"
type_synonym u8 = "8 word"

section \<open>Eight-bit arithmetic on natural numbers\<close>

definition u8_add :: "nat \<Rightarrow> nat \<Rightarrow> nat" where
  "u8_add a b = (a + b) mod 256"

definition u8_sub :: "nat \<Rightarrow> nat \<Rightarrow> nat" where
  "u8_sub a b = (a + 256 - b) mod 256"

lemma u8_add_small [simp]: "a + b < 256 \<Longrightarrow> u8_add a b = a + b"
  by (simp add: u8_add_def)

lemma u8_sub_small [simp]: "b \<le> a \<Longrightarrow> a < 256 \<Longrightarrow> u8_sub a b = a - b"
  by (simp add: u8_sub_def mod_if)

section \<open>Characters\<close>

text \<open>The byte of a character, and the ASCII classes and case mapping of the C library.\<close>

abbreviation byte :: "char \<Rightarrow> nat" where
  "byte c \<equiv> of_char c"

definition isdigit :: "char \<Rightarrow> bool" where
  "isdigit ch \<longleftrightarrow> 48 \<le> byte ch \<and> byte ch \<le> 57"

definition isupper :: "char \<Rightarrow> bool" where
  "isupper ch \<longleftrightarrow> 65 \<le> byte ch \<and> byte ch \<le> 90"

definition islower :: "char \<Rightarrow> bool" where
  "islower ch \<longleftrightarrow> 97 \<le> byte ch \<and> byte ch \<le> 122"

definition isalpha :: "char \<Rightarrow> bool" where
  "isalpha ch \<longleftrightarrow> isupper ch \<or> islower ch"

definition tolower :: "char \<Rightarrow> char" where
  "tolower ch = (if isupper ch then char_of (byte ch + 32) else ch)"

lemmas char_class_defs = isdigit_def isupper_def islower_def isalpha_def tolower_def

section \<open>Decimal text\<close>

text \<open>\<^verbatim>\<open>std::to_string\<close> on unsigned and on signed integers.\<close>

fun to_string :: "nat \<Rightarrow> string" where
  "to_string n = (if n < 10 then [char_of (48 + n)] else to_string (n div 10) @ [char_of (48 + n mod 10)])"

declare to_string.simps [simp del]

definition to_string_int :: "int \<Rightarrow> string" where
  "to_string_int n = (if n < 0 then CHR ''-'' # to_string (nat (- n)) else to_string (nat n))"

lemma to_string_digit: "n < 10 \<Longrightarrow> to_string n = [char_of (48 + n)]"
  by (subst to_string.simps) simp

lemma digit_char: "n < 10 \<Longrightarrow> byte (char_of (48 + n) :: char) = 48 + n"
  by (simp add: of_char_of)

lemma to_string_step: "10 \<le> n \<Longrightarrow> to_string n = to_string (n div 10) @ [char_of (48 + n mod 10)]"
  by (subst to_string.simps) simp

lemma to_string_isdigit: "list_all isdigit (to_string n)"
proof (induction n rule: to_string.induct)
  case (1 n)
  have d: "isdigit (char_of (48 + k))" if "k < 10" for k :: nat
    using that by (simp add: isdigit_def digit_char)
  show ?case
  proof (cases "n < 10")
    case False
    then show ?thesis using "1.IH" d [of "n mod 10"] by (simp add: to_string_step)
  qed (simp add: to_string_digit d)
qed

lemma to_string_not_Nil [simp]: "to_string n \<noteq> []"
  by (subst to_string.simps) simp

lemma length_to_string: "n < 10 ^ k \<Longrightarrow> 0 < k \<Longrightarrow> length (to_string n) \<le> k"
proof (induction k arbitrary: n)
  case (Suc k)
  show ?case
  proof (cases "n < 10")
    case False
    then have "0 < k" using Suc.prems by (cases k) auto
    moreover have "n div 10 < 10 ^ k" using Suc.prems(1) by (simp add: less_mult_imp_div_less mult.commute)
    ultimately show ?thesis using Suc.IH [of "n div 10"] False by (simp add: to_string_step)
  qed (simp add: to_string_digit)
qed simp

section \<open>Bounded quantifiers over sides\<close>

lemma ex_less_2: "(\<exists>s < 2. P s) \<longleftrightarrow> P 0 \<or> P (Suc 0)" for P :: "nat \<Rightarrow> bool"
  by (auto simp: less_2_cases_iff)

lemma all_less_2: "(\<forall>s < 2. P s) \<longleftrightarrow> P 0 \<and> P (Suc 0)" for P :: "nat \<Rightarrow> bool"
  by (auto simp: less_2_cases_iff)

lemma less_8_cases:
  "n < 8 \<longleftrightarrow> n = 0 \<or> n = 1 \<or> n = 2 \<or> n = 3 \<or> n = 4 \<or> n = 5 \<or> n = 6 \<or> n = 7" for n :: nat
  by auto

section \<open>Lists\<close>

lemma fold_invariant_list:
  assumes "P s" and "\<And>x s. x \<in> set xs \<Longrightarrow> P s \<Longrightarrow> P (f x s)"
  shows "P (fold f xs s)"
  using assms by (induction xs arbitrary: s) auto

lemma sorted_list_of_set_filter_upt:
  "sorted_list_of_set {i. i < n \<and> P i} = filter P [0..<n]"
proof -
  have "set (filter P [0..<n]) = {i. i < n \<and> P i}" by auto
  moreover have "sorted (filter P [0..<n])" by (simp add: sorted_wrt_filter)
  moreover have "distinct (filter P [0..<n])" by simp
  ultimately show ?thesis by (metis sorted_list_of_set.idem_if_sorted_distinct)
qed

lemma filter_upt_least:
  assumes "P k" and "\<And>i. i < k \<Longrightarrow> \<not> P i" and "k < n"
  shows "filter P [0..<n] = k # filter (\<lambda>i. P i \<and> i \<noteq> k) [0..<n]"
proof -
  have *: "[0..<n] = [0..<k] @ k # [Suc k..<n]"
    using upt_add_eq_append [of 0 k "n - k"] assms(3) by (simp add: upt_conv_Cons)
  have "filter P [0..<k] = []" using assms(2) by (auto simp: filter_empty_conv)
  moreover have "filter (\<lambda>i. P i \<and> i \<noteq> k) [0..<k] = []"
    using assms(2) by (auto simp: filter_empty_conv)
  moreover have "filter (\<lambda>i. P i \<and> i \<noteq> k) [Suc k..<n] = filter P [Suc k..<n]"
    by (rule filter_cong) auto
  ultimately show ?thesis using assms(1) by (simp only: * filter_append filter.simps) simp
qed

section \<open>Machine words\<close>

lemma bit_word_less: "bit w n \<Longrightarrow> n < LENGTH('a)" for w :: "'a::len word"
  by (rule bit_imp_le_length)

lemma word_neq_0_bit: "w \<noteq> 0 \<longleftrightarrow> (\<exists>n. bit w n)" for w :: "'a::len word"
  by (metis bit_0_eq bit_eqI bot_apply bot_bool_def)

lemma word_eq_0_bits: "w = 0 \<longleftrightarrow> (\<forall>n. \<not> bit w n)" for w :: "'a::len word"
  using word_neq_0_bit by blast

lemma bit_word_0 [simp]: "\<not> bit (0 :: 'a::len word) n"
  by simp

text \<open>
  The least set bit of a word, and the decomposition of the word around it that explains the
  two bit tricks of the engine: \<open>w AND (w - 1)\<close> clears it, \<open>w XOR (w - 1)\<close> is the mask up to it.
\<close>

definition least_bit :: "'a::len word \<Rightarrow> nat" where
  "least_bit w = (LEAST n. bit w n)"

lemma bit_least_bit: "w \<noteq> 0 \<Longrightarrow> bit w (least_bit w)"
  unfolding least_bit_def using word_neq_0_bit by (metis LeastI)

lemma not_bit_below_least: "n < least_bit w \<Longrightarrow> \<not> bit w n"
  unfolding least_bit_def by (rule not_less_Least)

lemma least_bit_le: "bit w n \<Longrightarrow> least_bit w \<le> n"
  unfolding least_bit_def by (rule Least_le)

lemma least_bit_less: "w \<noteq> 0 \<Longrightarrow> least_bit w < LENGTH('a)" for w :: "'a::len word"
  using bit_least_bit bit_word_less by blast

lemma bit_decrement:
  fixes w :: "'a::len word"
  assumes "w \<noteq> 0"
  shows "bit (w - 1) n \<longleftrightarrow> (if n < least_bit w then n < LENGTH('a) else if n = least_bit w then False else bit w n)"
proof -
  let ?k = "least_bit w"
  have k: "?k < LENGTH('a)" using assms by (rule least_bit_less)
  define h where "h = w AND NOT (mask (Suc ?k))"
  have dec: "w = h + 2 ^ ?k"
  proof -
    have "h AND 2 ^ ?k = 0"
      by (rule bit_word_eqI) (auto simp: h_def bit_simps)
    then have "h + 2 ^ ?k = h OR 2 ^ ?k" by (rule disjunctive_add_eq_or)
    also have "\<dots> = w"
      by (rule bit_word_eqI)
        (use bit_least_bit [OF assms] not_bit_below_least [of _ w] in
          \<open>auto simp: h_def bit_simps less_Suc_eq\<close>)
    finally show ?thesis by simp
  qed
  have "w - 1 = h + mask ?k"
    using dec by (simp add: mask_eq_exp_minus_1)
  also have "\<dots> = h OR mask ?k"
    by (rule disjunctive_add_eq_or) (rule bit_word_eqI, auto simp: h_def bit_simps)
  finally have *: "w - 1 = h OR mask ?k" .
  show ?thesis
    using k by (auto simp: * h_def bit_simps less_Suc_eq dest: bit_word_less)
qed

lemma bit_and_decrement:
  fixes w :: "'a::len word"
  assumes "w \<noteq> 0"
  shows "bit (w AND (w - 1)) n \<longleftrightarrow> bit w n \<and> n \<noteq> least_bit w"
  using not_bit_below_least [of n w] by (auto simp: bit_and_iff bit_decrement [OF assms])

lemma xor_decrement_eq_mask:
  fixes w :: "'a::len word"
  assumes "w \<noteq> 0"
  shows "w XOR (w - 1) = mask (Suc (least_bit w))"
  by (rule bit_word_eqI)
    (use bit_least_bit [OF assms] not_bit_below_least [of _ w] in
      \<open>auto simp: bit_xor_iff bit_decrement [OF assms] bit_mask_iff less_Suc_eq\<close>)

end
