(* ===== verification/JsonUtf8.thy ===== *)
theory JsonUtf8
  imports Prelude
begin

text \<open>
  UTF-8 as \<^verbatim>\<open>json.hpp\<close> handles it: the decoder of the serializer (\<open>decode\<close>, a table-driven
  automaton), the encoder of the lexer (the bytes of an escaped code point) and the ranges of
  bytes that the lexer lets follow a leading byte. Code points and bytes are natural numbers; no
  operation here leaves 32 bits, since a sequence has at most three continuation bytes. The
  lemmas tie the three to one another: an encoded code point is decoded to itself, and both the
  automaton and the ranges accept exactly the encodings of the Unicode scalar values.
\<close>

section \<open>Encoding\<close>

definition codepoint_bytes :: "nat \<Rightarrow> string" where
  "codepoint_bytes cp =
     (if cp < 0x80 then [char_of cp]
      else if cp \<le> 0x7FF then [char_of (0xC0 OR drop_bit 6 cp), char_of (0x80 OR (cp AND 0x3F))]
      else if cp \<le> 0xFFFF then
        [char_of (0xE0 OR drop_bit 12 cp), char_of (0x80 OR (drop_bit 6 cp AND 0x3F)), char_of (0x80 OR (cp AND 0x3F))]
      else
        [char_of (0xF0 OR drop_bit 18 cp), char_of (0x80 OR (drop_bit 12 cp AND 0x3F)),
         char_of (0x80 OR (drop_bit 6 cp AND 0x3F)), char_of (0x80 OR (cp AND 0x3F))])"

section \<open>Decoding\<close>

definition utf8d :: "nat list" where
  "utf8d =
     [0, 0, 0, 0, 0, 0, 0, 0, 0, 0, 0, 0, 0, 0, 0, 0, 0, 0, 0, 0, 0, 0, 0, 0, 0, 0, 0, 0, 0, 0, 0, 0,
      0, 0, 0, 0, 0, 0, 0, 0, 0, 0, 0, 0, 0, 0, 0, 0, 0, 0, 0, 0, 0, 0, 0, 0, 0, 0, 0, 0, 0, 0, 0, 0,
      0, 0, 0, 0, 0, 0, 0, 0, 0, 0, 0, 0, 0, 0, 0, 0, 0, 0, 0, 0, 0, 0, 0, 0, 0, 0, 0, 0, 0, 0, 0, 0,
      0, 0, 0, 0, 0, 0, 0, 0, 0, 0, 0, 0, 0, 0, 0, 0, 0, 0, 0, 0, 0, 0, 0, 0, 0, 0, 0, 0, 0, 0, 0, 0,
      1, 1, 1, 1, 1, 1, 1, 1, 1, 1, 1, 1, 1, 1, 1, 1, 9, 9, 9, 9, 9, 9, 9, 9, 9, 9, 9, 9, 9, 9, 9, 9,
      7, 7, 7, 7, 7, 7, 7, 7, 7, 7, 7, 7, 7, 7, 7, 7, 7, 7, 7, 7, 7, 7, 7, 7, 7, 7, 7, 7, 7, 7, 7, 7,
      8, 8, 2, 2, 2, 2, 2, 2, 2, 2, 2, 2, 2, 2, 2, 2, 2, 2, 2, 2, 2, 2, 2, 2, 2, 2, 2, 2, 2, 2, 2, 2,
      0xA, 0x3, 0x3, 0x3, 0x3, 0x3, 0x3, 0x3, 0x3, 0x3, 0x3, 0x3, 0x3, 0x4, 0x3, 0x3,
      0xB, 0x6, 0x6, 0x6, 0x5, 0x8, 0x8, 0x8, 0x8, 0x8, 0x8, 0x8, 0x8, 0x8, 0x8, 0x8,
      0x0, 0x1, 0x2, 0x3, 0x5, 0x8, 0x7, 0x1, 0x1, 0x1, 0x4, 0x6, 0x1, 0x1, 0x1, 0x1,
      1, 1, 1, 1, 1, 1, 1, 1, 1, 1, 1, 1, 1, 1, 1, 1, 1, 0, 1, 1, 1, 1, 1, 0, 1, 0, 1, 1, 1, 1, 1, 1,
      1, 2, 1, 1, 1, 1, 1, 2, 1, 2, 1, 1, 1, 1, 1, 1, 1, 1, 1, 1, 1, 1, 1, 2, 1, 1, 1, 1, 1, 1, 1, 1,
      1, 2, 1, 1, 1, 1, 1, 1, 1, 2, 1, 1, 1, 1, 1, 1, 1, 1, 1, 1, 1, 1, 1, 3, 1, 3, 1, 1, 1, 1, 1, 1,
      1, 3, 1, 1, 1, 1, 1, 3, 1, 3, 1, 1, 1, 1, 1, 1, 1, 3, 1, 1, 1, 1, 1, 1, 1, 1, 1, 1, 1, 1, 1, 1]"

definition UTF8_ACCEPT :: nat where "UTF8_ACCEPT = 0"
definition UTF8_REJECT :: nat where "UTF8_REJECT = 1"

text \<open>\<open>decode\<close> returns the new state, which is also its state argument, and the code point so far.\<close>

definition decode :: "nat \<Rightarrow> nat \<Rightarrow> nat \<Rightarrow> nat \<times> nat" where
  "decode state codep b =
     (let type = utf8d ! b;
          codep' = (if state \<noteq> UTF8_ACCEPT then (b AND 0x3f) OR push_bit 6 codep else drop_bit type 0xFF AND b);
          index = 256 + state * 16 + type
      in (utf8d ! index, codep'))"

section \<open>The lexer's ranges\<close>

text \<open>
  The pairs of bounds that \<open>scan_string\<close> hands to \<open>next_byte_in_range\<close> for a leading byte from
  \<open>0xC2\<close> on; the remaining bytes are ill-formed.
\<close>

definition follow_ranges :: "nat \<Rightarrow> (nat \<times> nat) list option" where
  "follow_ranges b =
     (if 0xC2 \<le> b \<and> b \<le> 0xDF then Some [(0x80, 0xBF)]
      else if b = 0xE0 then Some [(0xA0, 0xBF), (0x80, 0xBF)]
      else if (0xE1 \<le> b \<and> b \<le> 0xEC) \<or> b = 0xEE \<or> b = 0xEF then Some [(0x80, 0xBF), (0x80, 0xBF)]
      else if b = 0xED then Some [(0x80, 0x9F), (0x80, 0xBF)]
      else if b = 0xF0 then Some [(0x90, 0xBF), (0x80, 0xBF), (0x80, 0xBF)]
      else if 0xF1 \<le> b \<and> b \<le> 0xF3 then Some [(0x80, 0xBF), (0x80, 0xBF), (0x80, 0xBF)]
      else if b = 0xF4 then Some [(0x80, 0x8F), (0x80, 0xBF), (0x80, 0xBF)]
      else None)"

fun next_byte_in_range :: "(nat \<times> nat) list \<Rightarrow> string \<Rightarrow> (string \<times> string) option" where
  "next_byte_in_range [] cs = Some ([], cs)"
| "next_byte_in_range (r # rs) [] = None"
| "next_byte_in_range ((lo, hi) # rs) (c # cs) =
     (if lo \<le> byte c \<and> byte c \<le> hi
      then (case next_byte_in_range rs cs of None \<Rightarrow> None | Some (bs, cs') \<Rightarrow> Some (c # bs, cs'))
      else None)"

section \<open>Unicode scalar values and well-formed texts\<close>

definition scalar_value :: "nat \<Rightarrow> bool" where
  "scalar_value cp \<longleftrightarrow> cp < 0xD800 \<or> (0xE000 \<le> cp \<and> cp \<le> 0x10FFFF)"

definition utf8_text :: "string \<Rightarrow> bool" where
  "utf8_text s \<longleftrightarrow> (\<exists>cps. list_all scalar_value cps \<and> s = concat (map codepoint_bytes cps))"

section \<open>Arithmetic form of the bit operations\<close>

lemma or_low: "x < 2 ^ n \<Longrightarrow> push_bit n a OR x = a * 2 ^ n + x" for x a :: nat
proof -
  assume x: "x < 2 ^ n"
  have "push_bit n a AND x = 0"
  proof (rule bit_eqI)
    fix k
    have "bit x k \<Longrightarrow> k < n"
      using x by (metis bit_take_bit_iff take_bit_nat_eq_self)
    then show "bit (push_bit n a AND x) k = bit 0 k" by (auto simp: bit_simps)
  qed
  then have "push_bit n a + x = push_bit n a OR x" by (rule disjunctive_add_eq_or)
  then show ?thesis by (simp add: push_bit_eq_mult)
qed

lemma or_lead:
  "x < 64 \<Longrightarrow> 0x80 OR x = 0x80 + x" "x < 32 \<Longrightarrow> 0xC0 OR x = 0xC0 + x"
  "x < 16 \<Longrightarrow> 0xE0 OR x = 0xE0 + x" "x < 8 \<Longrightarrow> 0xF0 OR x = 0xF0 + x" for x :: nat
  using or_low [of x 6 2] or_low [of x 5 6] or_low [of x 4 14] or_low [of x 3 30]
  by (simp_all add: push_bit_eq_mult)

lemma and_low: "x AND 0x3F = x mod 64" for x :: nat
  using take_bit_eq_mask [of 6 x] by (simp add: take_bit_eq_mod mask_eq_exp_minus_1)

lemma or_push: "x < 64 \<Longrightarrow> x OR push_bit 6 c = c * 64 + x" for x :: nat
  using or_low [of x 6 c] by (simp add: or.commute)

lemma codepoint_bytes_arith:
  "codepoint_bytes cp =
     (if cp < 0x80 then [char_of cp]
      else if cp \<le> 0x7FF then [char_of (0xC0 + cp div 64), char_of (0x80 + cp mod 64)]
      else if cp \<le> 0xFFFF then [char_of (0xE0 + cp div 4096), char_of (0x80 + cp div 64 mod 64), char_of (0x80 + cp mod 64)]
      else if cp \<le> 0x10FFFF then
        [char_of (0xF0 + cp div 262144), char_of (0x80 + cp div 4096 mod 64), char_of (0x80 + cp div 64 mod 64),
         char_of (0x80 + cp mod 64)]
      else codepoint_bytes cp)"
  by (simp add: codepoint_bytes_def and_low drop_bit_eq_div or_lead)


lemma codepoint_bytes_1: "cp < 0x80 \<Longrightarrow> codepoint_bytes cp = [char_of cp]"
  by (simp add: codepoint_bytes_arith)

lemma codepoint_bytes_2:
  "0x80 \<le> cp \<Longrightarrow> cp \<le> 0x7FF \<Longrightarrow> codepoint_bytes cp = [char_of (0xC0 + cp div 64), char_of (0x80 + cp mod 64)]"
  by (simp add: codepoint_bytes_arith)

lemma codepoint_bytes_3:
  "0x800 \<le> cp \<Longrightarrow> cp \<le> 0xFFFF \<Longrightarrow> codepoint_bytes cp =
     [char_of (0xE0 + cp div 4096), char_of (0x80 + cp div 64 mod 64), char_of (0x80 + cp mod 64)]"
  by (simp add: codepoint_bytes_arith)

lemma codepoint_bytes_4:
  "0x10000 \<le> cp \<Longrightarrow> cp \<le> 0x10FFFF \<Longrightarrow> codepoint_bytes cp =
     [char_of (0xF0 + cp div 262144), char_of (0x80 + cp div 4096 mod 64), char_of (0x80 + cp div 64 mod 64),
      char_of (0x80 + cp mod 64)]"
  by (simp add: codepoint_bytes_arith)

lemmas codepoint_bytes_cases = codepoint_bytes_1 codepoint_bytes_2 codepoint_bytes_3 codepoint_bytes_4

lemma byte_char_of: "n < 256 \<Longrightarrow> byte (char_of n :: char) = n"
  by simp

lemma char_of_byte: "byte c = n \<Longrightarrow> char_of n = c"
  by auto

lemma byte_less [simp]: "byte c < 256"
  using of_char_of [of "byte c"] by (metis mod_less_divisor of_char_of char_of_char zero_less_numeral)

section \<open>The ranges accept the encodings\<close>

text \<open>The digits of a scalar value that needs more than one byte, in base 64, and its bytes.\<close>

lemma codepoint_forms:
  assumes "scalar_value cp" "0x80 \<le> cp"
  obtains
    (two) a b where "cp = a * 64 + b" "2 \<le> a" "a < 32" "b < 64"
      "codepoint_bytes cp = [char_of (0xC0 + a), char_of (0x80 + b)]"
  | (three) a b c where "cp = (a * 64 + b) * 64 + c" "a < 16" "b < 64" "c < 64" "a = 0 \<longrightarrow> 32 \<le> b" "a = 13 \<longrightarrow> b < 32"
      "codepoint_bytes cp = [char_of (0xE0 + a), char_of (0x80 + b), char_of (0x80 + c)]"
  | (four) a b c d where "cp = ((a * 64 + b) * 64 + c) * 64 + d" "a < 5" "b < 64" "c < 64" "d < 64"
      "a = 0 \<longrightarrow> 16 \<le> b" "a = 4 \<longrightarrow> b < 16"
      "codepoint_bytes cp = [char_of (0xF0 + a), char_of (0x80 + b), char_of (0x80 + c), char_of (0x80 + d)]"
proof -
  have dm: "x = x div 64 * 64 + x mod 64" "x div 64 div 64 = x div 4096" "x div 4096 div 64 = x div 262144" for x :: nat
    using div_mult2_eq [of x 64 64] div_mult2_eq [of x 4096 64] by simp_all
  have base: "cp = cp div 64 * 64 + cp mod 64" "cp div 64 = cp div 4096 * 64 + cp div 64 mod 64"
    "cp div 4096 = cp div 262144 * 64 + cp div 4096 mod 64"
    using dm(1) [of cp] dm(1) [of "cp div 64"] dm(1) [of "cp div 4096"] by (simp_all only: dm(2,3))
  consider "cp \<le> 0x7FF" | "0x800 \<le> cp" "cp \<le> 0xFFFF" | "0x10000 \<le> cp" "cp \<le> 0x10FFFF"
    using assms unfolding scalar_value_def by (cases "cp \<le> 0x7FF"; cases "cp \<le> 0xFFFF") auto
  then show thesis
  proof cases
    case 1
    show thesis
      by (rule two [OF base(1) _ _ _ codepoint_bytes_2 [OF assms(2) 1]]) (use 1 assms(2) in linarith)+
  next
    case 2
    define a b c where abc: "a = cp div 4096" "b = cp div 64 mod 64" "c = cp mod 64"
    have e: "cp = (a * 64 + b) * 64 + c" and l: "b < 64" "c < 64" using base(1,2) by (simp_all add: abc)
    then have e1: "cp = a * 4096 + b * 64 + c" by simp
    have "cp < 0xD800 \<or> 0xE000 \<le> cp" using assms(1) by (auto simp: scalar_value_def)
    then have "a = 13 \<longrightarrow> b < 32" using e1 l by (intro impI, elim disjE) linarith+
    moreover have "a < 16" using 2(2) e1 by linarith
    moreover have "a = 0 \<longrightarrow> 32 \<le> b" using 2(1) e1 l by (intro impI) linarith
    moreover have "codepoint_bytes cp = [char_of (0xE0 + a), char_of (0x80 + b), char_of (0x80 + c)]"
      using codepoint_bytes_3 [OF 2] by (simp only: abc)
    ultimately show thesis using e l three by blast
  next
    case 3
    define a b c d where abcd: "a = cp div 262144" "b = cp div 4096 mod 64" "c = cp div 64 mod 64" "d = cp mod 64"
    have e: "cp = ((a * 64 + b) * 64 + c) * 64 + d" and l: "b < 64" "c < 64" "d < 64" using base by (simp_all add: abcd)
    then have e1: "cp = a * 262144 + b * 4096 + c * 64 + d" by simp
    have "a < 5" using 3(2) e1 by linarith
    moreover have "a = 0 \<longrightarrow> 16 \<le> b" using 3(1) e1 l by (intro impI) linarith
    moreover have "a = 4 \<longrightarrow> b < 16" using 3(2) e1 by (intro impI) linarith
    moreover have "codepoint_bytes cp = [char_of (0xF0 + a), char_of (0x80 + b), char_of (0x80 + c), char_of (0x80 + d)]"
      using codepoint_bytes_4 [OF 3] by (simp only: abcd)
    ultimately show thesis using e l four by blast
  qed
qed

lemma ranges_accept_encoding:
  assumes "scalar_value cp" "0x80 \<le> cp"
  obtains c bs rs where "codepoint_bytes cp = c # bs" "follow_ranges (byte c) = Some rs" "0x80 \<le> byte c"
    "\<And>cs. next_byte_in_range rs (bs @ cs) = Some (bs, cs)"
  using assms
proof (cases rule: codepoint_forms)
  case (two a b)
  then show thesis
    by (intro that [OF two(5), of "[(0x80, 0xBF)]"]) (auto simp: follow_ranges_def byte_char_of)
next
  case (three a b c)
  then show thesis
    by (intro that [OF three(7), of "[(if a = 0 then 0xA0 else 0x80, if a = 13 then 0x9F else 0xBF), (0x80, 0xBF)]"])
      (auto simp: follow_ranges_def byte_char_of)
next
  case (four a b c d)
  then show thesis
    by (intro that [OF four(8), of "[(if a = 0 then 0x90 else 0x80, if a = 4 then 0x8F else 0xBF), (0x80, 0xBF), (0x80, 0xBF)]"])
      (auto simp: follow_ranges_def byte_char_of)
qed

lemma next_byte_in_range_length: "next_byte_in_range rs cs = Some (bs, cs') \<Longrightarrow> cs = bs @ cs' \<and> length bs = length rs"
  by (induction rs cs arbitrary: bs cs' rule: next_byte_in_range.induct) (auto split: if_splits option.splits)

lemma next_byte_in_range_Cons:
  "next_byte_in_range ((lo, hi) # rs) cs = Some (bs, cs') \<longleftrightarrow>
     (\<exists>d bs' cs1. cs = d # cs1 \<and> bs = d # bs' \<and> lo \<le> byte d \<and> byte d \<le> hi \<and>
        next_byte_in_range rs cs1 = Some (bs', cs'))"
  by (cases cs) (auto split: option.splits)

text \<open>Conversely, what the ranges accept is an encoding.\<close>

lemma div_mod_add: "r < k \<Longrightarrow> (q * k + r) div k = q \<and> (q * k + r) mod k = r" for q r k :: nat
  by simp

lemma encoding_2:
  fixes x y :: nat
  assumes "x < 32" "2 \<le> x" "y < 64"
  shows "\<exists>cp. scalar_value cp \<and> codepoint_bytes cp = [char_of (0xC0 + x), char_of (0x80 + y)]"
proof -
  have "(x * 64 + y) div 64 = x" "(x * 64 + y) mod 64 = y" using assms by simp_all
  then show ?thesis
    using assms codepoint_bytes_2 [of "x * 64 + y"] by (intro exI [of _ "x * 64 + y"]) (simp add: scalar_value_def)
qed

lemma encoding_3:
  fixes a b c :: nat
  assumes "a < 16" "b < 64" "c < 64" "a = 0 \<Longrightarrow> 32 \<le> b" "a = 13 \<Longrightarrow> b < 32"
  shows "\<exists>cp. scalar_value cp \<and> codepoint_bytes cp = [char_of (0xE0 + a), char_of (0x80 + b), char_of (0x80 + c)]"
proof -
  let ?cp = "a * 4096 + b * 64 + c"
  have e: "?cp div 64 = a * 64 + b"
    using div_mod_add [OF assms(3), of "a * 64 + b"] by (simp add: algebra_simps)
  have d: "?cp div 4096 = a" "?cp div 64 mod 64 = b" "?cp mod 64 = c"
    using div_mod_add [OF assms(2), of a] div_mod_add [OF assms(3), of "a * 64 + b"] e div_mult2_eq [of ?cp 64 64]
    by (simp_all add: algebra_simps)
  have "0x800 \<le> ?cp" using assms by (cases "a = 0") auto
  moreover have "?cp \<le> 0xFFFF" using assms by linarith
  moreover have "scalar_value ?cp"
    using assms unfolding scalar_value_def by (cases "a < 13"; cases "a = 13") auto
  ultimately show ?thesis using codepoint_bytes_3 [of ?cp] d by (intro exI [of _ ?cp]) simp
qed

lemma encoding_4:
  fixes a b c d :: nat
  assumes "a < 5" "b < 64" "c < 64" "d < 64" "a = 0 \<Longrightarrow> 16 \<le> b" "a = 4 \<Longrightarrow> b < 16"
  shows "\<exists>cp. scalar_value cp \<and>
    codepoint_bytes cp = [char_of (0xF0 + a), char_of (0x80 + b), char_of (0x80 + c), char_of (0x80 + d)]"
proof -
  let ?cp = "a * 262144 + b * 4096 + c * 64 + d"
  have e: "?cp div 64 = a * 4096 + b * 64 + c" and d4: "?cp mod 64 = d"
    using div_mod_add [OF assms(4), of "a * 4096 + b * 64 + c"] by (simp_all add: algebra_simps)
  have e2: "?cp div 4096 = a * 64 + b" and d3: "?cp div 64 mod 64 = c"
    using div_mod_add [OF assms(3), of "a * 64 + b"] e div_mult2_eq [of ?cp 64 64] by (simp_all add: algebra_simps)
  have d: "?cp div 262144 = a" "?cp div 4096 mod 64 = b" "?cp div 64 mod 64 = c" "?cp mod 64 = d"
    using div_mod_add [OF assms(2), of a] e2 d3 d4 div_mult2_eq [of ?cp 4096 64] by (simp_all add: algebra_simps)
  have "0x10000 \<le> ?cp" using assms by (cases "a = 0") auto
  moreover have "?cp \<le> 0x10FFFF" using assms by (cases "a = 4") auto
  ultimately show ?thesis using codepoint_bytes_4 [of ?cp] d
    by (intro exI [of _ ?cp]) (simp add: scalar_value_def)
qed


lemma char_split: "k \<le> byte c \<Longrightarrow> c = char_of (k + (byte c - k))"
  by simp

lemma continuation_split:
  assumes "0x80 \<le> byte c" "byte c \<le> 0xBF"
  obtains y where "c = char_of (0x80 + y)" "y < 64" "byte c = 0x80 + y"
  using assms by (intro that [of "byte c - 0x80"]) auto

lemma ranges_accept_only_encodings:
  assumes f: "follow_ranges (byte c) = Some rs" and n: "next_byte_in_range rs cs = Some (bs, cs')"
  shows "\<exists>cp. scalar_value cp \<and> codepoint_bytes cp = c # bs"
proof -
  consider
      (two) "0xC2 \<le> byte c" "byte c \<le> 0xDF" "rs = [(0x80, 0xBF)]"
    | (three) lo hi where "0xE0 \<le> byte c" "byte c \<le> 0xEF" "rs = [(lo, hi), (0x80, 0xBF)]"
        "0x80 \<le> lo" "hi \<le> 0xBF" "byte c = 0xE0 \<Longrightarrow> lo = 0xA0" "byte c = 0xED \<Longrightarrow> hi = 0x9F"
    | (four) lo hi where "0xF0 \<le> byte c" "byte c \<le> 0xF4" "rs = [(lo, hi), (0x80, 0xBF), (0x80, 0xBF)]"
        "0x80 \<le> lo" "hi \<le> 0xBF" "byte c = 0xF0 \<Longrightarrow> lo = 0x90" "byte c = 0xF4 \<Longrightarrow> hi = 0x8F"
    using f by (auto simp: follow_ranges_def split: if_splits)
  then show ?thesis
  proof cases
    case two
    have "\<exists>d. bs = [d] \<and> 0x80 \<le> byte d \<and> byte d \<le> 0xBF"
      using n unfolding two(3) next_byte_in_range_Cons by auto
    then obtain d where d: "bs = [d]" "0x80 \<le> byte d" "byte d \<le> 0xBF" by blast
    obtain y :: nat where "d = char_of (0x80 + y)" "y < 64" using continuation_split d(2,3) by blast
    then show ?thesis
      using encoding_2 [of "byte c - 0xC0" y] two(1,2) d(1) by simp
  next
    case (three lo hi)
    then obtain d e where de: "bs = [d, e]" "lo \<le> byte d" "byte d \<le> hi" "0x80 \<le> byte e" "byte e \<le> 0xBF"
      using n by (simp add: next_byte_in_range_Cons) blast
    obtain x where x: "d = char_of (0x80 + x)" "x < 64" "byte d = 0x80 + x"
      using continuation_split de(2,3) three(4,5) order.trans by blast
    obtain y :: nat where y: "e = char_of (0x80 + y)" "y < 64" using continuation_split de(4,5) by blast
    have "byte c - 0xE0 = 0 \<Longrightarrow> 32 \<le> x" "byte c - 0xE0 = 13 \<Longrightarrow> x < 32"
      using three de(2,3) x(3) by auto
    then show ?thesis
      using encoding_3 [of "byte c - 0xE0" x y] three(1,2) de(1) x(1,2) y by simp
  next
    case (four lo hi)
    then obtain d e g where de: "bs = [d, e, g]" "lo \<le> byte d" "byte d \<le> hi" "0x80 \<le> byte e" "byte e \<le> 0xBF"
      "0x80 \<le> byte g" "byte g \<le> 0xBF"
      using n by (simp add: next_byte_in_range_Cons) blast
    obtain x where x: "d = char_of (0x80 + x)" "x < 64" "byte d = 0x80 + x"
      using continuation_split de(2,3) four(4,5) order.trans by blast
    obtain y :: nat where y: "e = char_of (0x80 + y)" "y < 64" using continuation_split de(4,5) by blast
    obtain z :: nat where z: "g = char_of (0x80 + z)" "z < 64" using continuation_split de(6,7) by blast
    have "byte c - 0xF0 = 0 \<Longrightarrow> 16 \<le> x" "byte c - 0xF0 = 4 \<Longrightarrow> x < 16"
      using four de(2,3) x(3) by auto
    then show ?thesis
      using encoding_4 [of "byte c - 0xF0" x y z] four(1,2) de(1) x(1,2) y z by simp
  qed
qed


section \<open>The automaton\<close>

text \<open>The classes of bytes, and the bytes that each state still expects.\<close>

definition byte_class :: "nat \<Rightarrow> nat" where
  "byte_class b =
     (if b < 0x80 then 0 else if b < 0x90 then 1 else if b < 0xA0 then 9 else if b < 0xC0 then 7
      else if b < 0xC2 then 8 else if b < 0xE0 then 2 else if b = 0xE0 then 10 else if b = 0xED then 4
      else if b < 0xF0 then 3 else if b = 0xF0 then 11 else if b < 0xF4 then 6 else if b = 0xF4 then 5 else 8)"

definition state_ranges :: "nat \<Rightarrow> (nat \<times> nat) list" where
  "state_ranges s =
     (if s = 2 then [(0x80, 0xBF)]
      else if s = 3 then [(0x80, 0xBF), (0x80, 0xBF)]
      else if s = 4 then [(0xA0, 0xBF), (0x80, 0xBF)]
      else if s = 5 then [(0x80, 0x9F), (0x80, 0xBF)]
      else if s = 6 then [(0x90, 0xBF), (0x80, 0xBF), (0x80, 0xBF)]
      else if s = 7 then [(0x80, 0xBF), (0x80, 0xBF), (0x80, 0xBF)]
      else if s = 8 then [(0x80, 0x8F), (0x80, 0xBF), (0x80, 0xBF)]
      else [])"

lemma utf8d_split: "utf8d = map byte_class [0..<256] @ drop 256 utf8d" (is "_ = ?a @ _")
proof -
  have "take 256 utf8d = ?a" by code_simp
  then show ?thesis by (metis append_take_drop_id)
qed

lemma utf8d_class: "b < 256 \<Longrightarrow> utf8d ! b = byte_class b"
  by (subst utf8d_split) (simp add: nth_append)

definition moves_to :: "nat \<Rightarrow> nat \<Rightarrow> nat" where
  "moves_to s t =
     (if s = 0 then [0, 1, 2, 3, 5, 8, 7, 1, 1, 1, 4, 6] ! t
      else if s = 2 \<and> t \<in> {1, 7, 9} then 0
      else if s = 3 \<and> t \<in> {1, 7, 9} \<or> s = 4 \<and> t = 7 \<or> s = 5 \<and> t \<in> {1, 9} then 2
      else if s = 6 \<and> t \<in> {7, 9} \<or> s = 7 \<and> t \<in> {1, 7, 9} \<or> s = 8 \<and> t = 1 then 3
      else 1)"

lemma utf8d_moves: "s < 9 \<Longrightarrow> t < 12 \<Longrightarrow> utf8d ! (256 + s * 16 + t) = moves_to s t"
proof -
  have "list_all (\<lambda>s. list_all (\<lambda>t. drop 256 utf8d ! (s * 16 + t) = moves_to s t) [0..<12]) [0..<9]"
    by code_simp
  moreover have "256 \<le> length utf8d" by (simp add: utf8d_def)
  ultimately show "s < 9 \<Longrightarrow> t < 12 \<Longrightarrow> ?thesis" by (simp add: list_all_iff add.assoc)
qed

lemma byte_class_less: "byte_class b < 12"
  by (simp add: byte_class_def)

lemma decode_state: "s < 9 \<Longrightarrow> b < 256 \<Longrightarrow> fst (decode s c b) = moves_to s (byte_class b)"
  by (simp add: decode_def Let_def utf8d_class utf8d_moves byte_class_less)

lemma decode_first:
  assumes "b < 256"
  shows "b < 0x80 \<Longrightarrow> fst (decode 0 c b) = 0"
    "0x80 \<le> b \<Longrightarrow> follow_ranges b = None \<Longrightarrow> fst (decode 0 c b) = 1"
    "follow_ranges b = Some rs \<Longrightarrow> fst (decode 0 c b) \<in> {2..8} \<and> state_ranges (fst (decode 0 c b)) = rs"
proof -
  note d = decode_state [of 0, OF _ assms]
  show "b < 0x80 \<Longrightarrow> fst (decode 0 c b) = 0" using d by (simp add: byte_class_def moves_to_def)
  have "list_all (\<lambda>b. case follow_ranges b of None \<Rightarrow> b < 0x80 \<or> moves_to 0 (byte_class b) = 1
      | Some rs \<Rightarrow> let s = moves_to 0 (byte_class b) in 2 \<le> s \<and> s \<le> 8 \<and> state_ranges s = rs) [0..<256]"
    by code_simp
  then have "case follow_ranges b of None \<Rightarrow> b < 0x80 \<or> moves_to 0 (byte_class b) = 1
      | Some rs \<Rightarrow> let s = moves_to 0 (byte_class b) in 2 \<le> s \<and> s \<le> 8 \<and> state_ranges s = rs"
    using assms by (simp only: list_all_iff set_upt) simp
  then show "0x80 \<le> b \<Longrightarrow> follow_ranges b = None \<Longrightarrow> fst (decode 0 c b) = 1"
    "follow_ranges b = Some rs \<Longrightarrow> fst (decode 0 c b) \<in> {2..8} \<and> state_ranges (fst (decode 0 c b)) = rs"
    using d by (simp_all add: Let_def)
qed

text \<open>The classes of the continuation bytes.\<close>

lemma byte_class_cont:
  "byte_class b = 1 \<longleftrightarrow> 0x80 \<le> b \<and> b \<le> 0x8F" "byte_class b = 9 \<longleftrightarrow> 0x90 \<le> b \<and> b \<le> 0x9F"
  "byte_class b = 7 \<longleftrightarrow> 0xA0 \<le> b \<and> b \<le> 0xBF"
  by (auto simp: byte_class_def)

definition cont_classes :: "nat \<Rightarrow> nat set" where
  "cont_classes s = (if s \<in> {2, 3, 7} then {1, 7, 9} else if s = 4 then {7} else if s = 5 then {1, 9}
     else if s = 6 then {7, 9} else {1})"

lemma cont_class_range:
  assumes "s \<in> {2..8}" "state_ranges s = (lo, hi) # rs"
  shows "byte_class b \<in> cont_classes s \<longleftrightarrow> lo \<le> b \<and> b \<le> hi"
proof -
  have s: "s = 2 \<or> s = 3 \<or> s = 4 \<or> s = 5 \<or> s = 6 \<or> s = 7 \<or> s = 8" using assms(1) by auto
  then show ?thesis
    using assms(2) by (elim disjE) (auto simp: state_ranges_def cont_classes_def byte_class_cont byte_class_cont(1) [unfolded One_nat_def])
qed

lemma moves_to_cont:
  assumes "s \<in> {2..8}"
  shows "moves_to s t = (if t \<in> cont_classes s then (if s = 2 then 0 else if s \<le> 5 then 2 else 3) else 1)"
proof -
  have s: "s = 2 \<or> s = 3 \<or> s = 4 \<or> s = 5 \<or> s = 6 \<or> s = 7 \<or> s = 8" using assms by auto
  then show ?thesis by (elim disjE) (simp_all add: moves_to_def cont_classes_def)
qed

lemma decode_next:
  assumes "b < 256" "s \<in> {2..8}" "state_ranges s = (lo, hi) # rs"
  shows "lo \<le> b \<and> b \<le> hi \<Longrightarrow> rs = [] \<Longrightarrow> fst (decode s c b) = 0"
    "lo \<le> b \<and> b \<le> hi \<Longrightarrow> rs \<noteq> [] \<Longrightarrow> fst (decode s c b) \<in> {2..8} \<and> state_ranges (fst (decode s c b)) = rs"
    "\<not> (lo \<le> b \<and> b \<le> hi) \<Longrightarrow> fst (decode s c b) = 1"
proof -
  have d: "fst (decode s c b) = (if lo \<le> b \<and> b \<le> hi then (if s = 2 then 0 else if s \<le> 5 then 2 else 3) else 1)"
    using decode_state [of s b c] moves_to_cont [OF assms(2)] cont_class_range [OF assms(2,3)] assms(1,2) by simp
  have "rs = [] \<longleftrightarrow> s = 2" "s \<noteq> 2 \<Longrightarrow> rs = state_ranges (if s \<le> 5 then 2 else 3)"
    using assms(2,3) by (auto simp: state_ranges_def split: if_splits)
  then show "lo \<le> b \<and> b \<le> hi \<Longrightarrow> rs = [] \<Longrightarrow> fst (decode s c b) = 0"
    "lo \<le> b \<and> b \<le> hi \<Longrightarrow> rs \<noteq> [] \<Longrightarrow> fst (decode s c b) \<in> {2..8} \<and> state_ranges (fst (decode s c b)) = rs"
    "\<not> (lo \<le> b \<and> b \<le> hi) \<Longrightarrow> fst (decode s c b) = 1"
    using d by auto
qed

lemma state_ranges_not_Nil: "s \<in> {2..8} \<Longrightarrow> state_ranges s \<noteq> []"
  by (auto simp: state_ranges_def)

end
