(* ===== verification/Json.thy ===== *)
theory Json
  imports Prelude "HOL-Library.Char_ord" "HOL-Library.List_Lexorder"
begin

text \<open>
  What the server and the client use of the JSON values of \<^verbatim>\<open>json.hpp\<close>: the value type and
  the accessors \<open>contains\<close>, \<open>operator[]\<close>, \<open>value\<close> and the conversion to \<open>std::string\<close> and \<open>int\<close>.
  An object is a \<^verbatim>\<open>std::map\<close>, here the list of its members in the order of their keys. An
  accessor that throws gives the number of the library's exception (302: wrong type, 305: no
  object where a member is set, 306: \<open>value\<close> on something that is no object). The text form is
  the subject of the theories \<open>JsonUtf8\<close>, \<open>JsonLex\<close>, \<open>JsonParse\<close> and \<open>JsonDump\<close>.
\<close>

datatype json =
    JNull
  | JBool bool
  | JInt int
  | JFloat u64
  | JString string
  | JArray "json list"
  | JObject "(string \<times> json) list"

text \<open>Signed and unsigned integers compare and print alike, so they are one constructor; a double is its bits.\<close>

datatype json_error = TypeError nat | ParseErr nat | OutOfRange nat

type_synonym 'a res = "json_error + 'a"

definition bind_res :: "'a res \<Rightarrow> ('a \<Rightarrow> 'b res) \<Rightarrow> 'b res" where
  "bind_res r f = (case r of Inl e \<Rightarrow> Inl e | Inr x \<Rightarrow> f x)"

lemma bind_res_simps [simp]: "bind_res (Inl e) f = Inl e" "bind_res (Inr x) f = f x"
  by (simp_all add: bind_res_def)

lemma bind_res_Inr: "bind_res r f = Inr y \<longleftrightarrow> (\<exists>x. r = Inr x \<and> f x = Inr y)"
  by (cases r) simp_all

section \<open>Members\<close>

fun put_member :: "string \<Rightarrow> json \<Rightarrow> (string \<times> json) list \<Rightarrow> (string \<times> json) list" where
  "put_member k v [] = [(k, v)]"
| "put_member k v ((k', v') # ms) =
     (if k = k' then (k, v) # ms
      else if k < k' then (k, v) # (k', v') # ms
      else (k', v') # put_member k v ms)"

text \<open>\<open>j[k] = v\<close> on a value that is \<open>null\<close> (it becomes an object) or an object.\<close>

definition json_set :: "string \<Rightarrow> json \<Rightarrow> json \<Rightarrow> json res" where
  "json_set k v j =
     (case j of
        JNull \<Rightarrow> Inr (JObject [(k, v)])
      | JObject ms \<Rightarrow> Inr (JObject (put_member k v ms))
      | _ \<Rightarrow> Inl (TypeError 305))"

text \<open>A sequence of assignments to the members of a fresh value.\<close>

definition json_object :: "(string \<times> json) list \<Rightarrow> json" where
  "json_object ms = JObject (fold (\<lambda>(k, v). put_member k v) ms [])"

definition json_contains :: "json \<Rightarrow> string \<Rightarrow> bool" where
  "json_contains j k = (case j of JObject ms \<Rightarrow> map_of ms k \<noteq> None | _ \<Rightarrow> False)"

definition json_at :: "json \<Rightarrow> string \<Rightarrow> json" where
  "json_at j k = (case j of JObject ms \<Rightarrow> (case map_of ms k of Some v \<Rightarrow> v | None \<Rightarrow> JNull) | _ \<Rightarrow> JNull)"

definition json_string :: "json \<Rightarrow> string res" where
  "json_string j = (case j of JString s \<Rightarrow> Inr s | _ \<Rightarrow> Inl (TypeError 302))"

text \<open>
  \<open>get<int>()\<close>: the numbers and the truth values convert; a double is cut towards zero and a
  64-bit integer to its low 32 bits.
\<close>

definition double_exponent :: "u64 \<Rightarrow> nat" where
  "double_exponent w = unat (drop_bit 52 w AND 0x7FF)"

definition double_finite :: "u64 \<Rightarrow> bool" where
  "double_finite w \<longleftrightarrow> double_exponent w \<noteq> 0x7FF"

definition double_trunc :: "u64 \<Rightarrow> int" where
  "double_trunc w =
     (let e = double_exponent w; m = unat (w AND (2 ^ 52 - 1)) + 2 ^ 52;
          a = (if e < 1023 then 0 else if e < 1075 then m div 2 ^ (1075 - e) else m * 2 ^ (e - 1075))
      in if bit w 63 then - int a else int a)"

definition to_int32 :: "int \<Rightarrow> int" where
  "to_int32 n = signed_take_bit 31 n"

definition json_int :: "json \<Rightarrow> int res" where
  "json_int j =
     (case j of
        JInt n \<Rightarrow> Inr (to_int32 n)
      | JBool b \<Rightarrow> Inr (of_bool b)
      | JFloat w \<Rightarrow> Inr (double_trunc w)
      | _ \<Rightarrow> Inl (TypeError 302))"

definition json_value :: "json \<Rightarrow> string \<Rightarrow> 'a \<Rightarrow> (json \<Rightarrow> 'a res) \<Rightarrow> 'a res" where
  "json_value j k d conv =
     (case j of
        JObject ms \<Rightarrow> (case map_of ms k of Some v \<Rightarrow> conv v | None \<Rightarrow> Inr d)
      | _ \<Rightarrow> Inl (TypeError 306))"

definition value_string :: "json \<Rightarrow> string \<Rightarrow> string \<Rightarrow> string res" where
  "value_string j k d = json_value j k d json_string"

definition value_json :: "json \<Rightarrow> string \<Rightarrow> json \<Rightarrow> json res" where
  "value_json j k d = json_value j k d Inr"

definition value_int :: "json \<Rightarrow> string \<Rightarrow> int \<Rightarrow> int res" where
  "value_int j k d = json_value j k d json_int"

definition json_empty :: "json \<Rightarrow> bool" where
  "json_empty j = (case j of JNull \<Rightarrow> True | JArray xs \<Rightarrow> xs = [] | JObject ms \<Rightarrow> ms = [] | _ \<Rightarrow> False)"

lemmas json_defs = json_contains_def json_at_def json_value_def value_string_def value_json_def value_int_def
  json_string_def json_int_def json_empty_def

section \<open>Laws\<close>

lemma map_of_put_member [simp]: "map_of (put_member k v ms) = (map_of ms)(k \<mapsto> v)"
proof (induction k v ms rule: put_member.induct)
  case (2 k v k' v' ms)
  then show ?case by (cases "k = k'"; cases "k < k'") (auto simp: fun_eq_iff)
qed simp

lemma map_of_json_object: "map_of (fold (\<lambda>(k, v). put_member k v) ms acc) k = map_of (rev ms @ acc) k"
proof (induction ms arbitrary: acc)
  case (Cons m ms)
  obtain k' v where "m = (k', v)" by (cases m)
  then show ?case by (simp add: Cons.IH map_add_def fun_upd_def split: option.splits)
qed simp

text \<open>An object never holds a key twice, and lists its keys in order.\<close>

lemma set_put_member: "fst ` set (put_member k v ms) = insert k (fst ` set ms)"
  by (induction k v ms rule: put_member.induct) auto

lemma sorted_put_member:
  "sorted_wrt (<) (map fst ms) \<Longrightarrow> sorted_wrt (<) (map fst (put_member k v ms))"
proof (induction k v ms rule: put_member.induct)
  case (2 k v k' v' ms)
  have *: "\<forall>x \<in> set (map fst (put_member k v ms)). k' < x" if "k' < k"
    using that 2(2) set_put_member [of k v ms] by auto
  show ?case
    using 2 * by (cases "k = k'"; cases "k < k'") (auto simp: not_less_iff_gr_or_eq intro: order.strict_trans)
qed simp

lemma sorted_json_object:
  "sorted_wrt (<) (map fst acc) \<Longrightarrow> sorted_wrt (<) (map fst (fold (\<lambda>(k, v). put_member k v) ms acc))"
  by (induction ms arbitrary: acc) (auto intro: sorted_put_member)

end
