(* ===== verification/JsonDump.thy ===== *)
theory JsonDump
  imports JsonUtf8 Json
begin

text \<open>
  The serializer of \<^verbatim>\<open>json.hpp\<close> (class \<open>serializer\<close>): \<open>dump\<close> with its two layouts, the escaping of
  strings with its three ways to treat ill-formed UTF-8, and the printing of integers. The
  output adapter collects text; an exception is the number of the library's error. The shortest
  decimal text of a double (\<open>to_chars\<close>) is the parameter \<open>ftoa\<close>. The second half of the theory
  shows what \<open>dump_escaped\<close> writes for a well-formed text.
\<close>

section \<open>Strings\<close>

datatype error_handler = Strict | Ignore | Replace

text \<open>
  The local variables of \<open>dump_escaped\<close>: what was written to the output, the filled part of
  \<open>string_buffer\<close> (its length is \<open>bytes\<close>), \<open>bytes_after_last_accept\<close>, the decoder's state and code
  point, and \<open>undumped_chars\<close>.
\<close>

record esc =
  e_out :: string
  e_buf :: string
  e_last :: nat
  e_state :: nat
  e_codep :: nat
  e_undumped :: nat

definition hex_lower :: "nat \<Rightarrow> char" where
  "hex_lower n = ''0123456789abcdef'' ! n"

text \<open>\<^verbatim>\<open>\u%04x\<close> of a 16-bit number.\<close>

definition hex4 :: "nat \<Rightarrow> string" where
  "hex4 n = [hex_lower (n div 4096 mod 16), hex_lower (n div 256 mod 16), hex_lower (n div 16 mod 16), hex_lower (n mod 16)]"

definition u_escape :: "nat \<Rightarrow> string" where
  "u_escape n = [CHR 0x5C, CHR ''u''] @ hex4 (n mod 65536)"

text \<open>The switch over an accepted code point; \<open>None\<close> copies the byte.\<close>

definition escape_codepoint :: "bool \<Rightarrow> nat \<Rightarrow> string option" where
  "escape_codepoint ensure_ascii cp =
     (if cp = 0x08 then Some [CHR 0x5C, CHR ''b'']
      else if cp = 0x09 then Some [CHR 0x5C, CHR ''t'']
      else if cp = 0x0A then Some [CHR 0x5C, CHR ''n'']
      else if cp = 0x0C then Some [CHR 0x5C, CHR ''f'']
      else if cp = 0x0D then Some [CHR 0x5C, CHR ''r'']
      else if cp = 0x22 then Some [CHR 0x5C, CHR 0x22]
      else if cp = 0x5C then Some [CHR 0x5C, CHR 0x5C]
      else if cp \<le> 0x1F \<or> (ensure_ascii \<and> 0x7F \<le> cp) then
        (if cp \<le> 0xFFFF then Some (u_escape cp)
         else Some (u_escape (0xD7C0 + drop_bit 10 cp) @ u_escape (0xDC00 + (cp AND 0x3FF))))
      else None)"

text \<open>The write that keeps 13 bytes of the 512 free.\<close>

definition flush :: "esc \<Rightarrow> esc" where
  "flush st = (if 512 - length (e_buf st) < 13 then st\<lparr>e_out := e_out st @ e_buf st, e_buf := []\<rparr> else st)"

definition accept_byte :: "bool \<Rightarrow> char \<Rightarrow> nat \<Rightarrow> esc \<Rightarrow> esc" where
  "accept_byte ensure_ascii c codep st =
     (let txt = (case escape_codepoint ensure_ascii codep of Some t \<Rightarrow> t | None \<Rightarrow> [c]);
          st1 = flush (st\<lparr>e_buf := e_buf st @ txt\<rparr>)
      in st1\<lparr>e_last := length (e_buf st1), e_undumped := 0, e_state := UTF8_ACCEPT, e_codep := codep\<rparr>)"

text \<open>A byte in the middle of a sequence.\<close>

definition middle_byte :: "bool \<Rightarrow> char \<Rightarrow> nat \<Rightarrow> nat \<Rightarrow> esc \<Rightarrow> esc" where
  "middle_byte ensure_ascii c state codep st =
     st\<lparr>e_buf := (if ensure_ascii then e_buf st else e_buf st @ [c]), e_undumped := e_undumped st + 1,
        e_state := state, e_codep := codep\<rparr>"

text \<open>A byte that does not fit, when ill-formed text is dropped or replaced.\<close>

definition replacement :: "bool \<Rightarrow> string" where
  "replacement ensure_ascii = (if ensure_ascii then CHR 0x5C # ''ufffd'' else [CHR 0xEF, CHR 0xBF, CHR 0xBD])"

definition reject_byte :: "error_handler \<Rightarrow> bool \<Rightarrow> nat \<Rightarrow> esc \<Rightarrow> esc" where
  "reject_byte eh ensure_ascii codep st =
     (let st1 = st\<lparr>e_buf := take (e_last st) (e_buf st)\<rparr>;
          st2 = (if eh = Replace
                 then let r = flush (st1\<lparr>e_buf := e_buf st1 @ replacement ensure_ascii\<rparr>)
                      in r\<lparr>e_last := length (e_buf r)\<rparr>
                 else st1)
      in st2\<lparr>e_undumped := 0, e_state := UTF8_ACCEPT, e_codep := codep\<rparr>)"

lemma reject_byte_undumped [simp]: "e_undumped (reject_byte eh ensure_ascii codep st) = 0"
  by (simp add: reject_byte_def Let_def)

text \<open>The loop; the byte that was rejected is read again when others of its sequence came before it.\<close>

function dump_loop :: "error_handler \<Rightarrow> bool \<Rightarrow> string \<Rightarrow> esc \<Rightarrow> esc res" where
  "dump_loop eh ensure_ascii [] st = Inr st"
| "dump_loop eh ensure_ascii (c # cs) st =
     (case decode (e_state st) (e_codep st) (byte c) of
        (state, codep) \<Rightarrow>
          if state = UTF8_ACCEPT then dump_loop eh ensure_ascii cs (accept_byte ensure_ascii c codep st)
          else if state = UTF8_REJECT then
            (if eh = Strict then Inl (TypeError 316)
             else if e_undumped st > 0 then dump_loop eh ensure_ascii (c # cs) (reject_byte eh ensure_ascii codep st)
             else dump_loop eh ensure_ascii cs (reject_byte eh ensure_ascii codep st))
          else dump_loop eh ensure_ascii cs (middle_byte ensure_ascii c state codep st))"
  by pat_completeness auto

termination
  by (relation "measures [\<lambda>(_, _, cs, _). length cs, \<lambda>(_, _, _, st). e_undumped st]") auto

declare dump_loop.simps(2) [simp del]

definition esc_start :: esc where
  "esc_start = \<lparr>e_out = [], e_buf = [], e_last = 0, e_state = UTF8_ACCEPT, e_codep = 0, e_undumped = 0\<rparr>"

definition dump_escaped :: "error_handler \<Rightarrow> bool \<Rightarrow> string \<Rightarrow> string res" where
  "dump_escaped eh ensure_ascii s =
     bind_res (dump_loop eh ensure_ascii s esc_start) (\<lambda>st.
       if e_state st = UTF8_ACCEPT then Inr (e_out st @ e_buf st)
       else case eh of
              Strict \<Rightarrow> Inl (TypeError 316)
            | Ignore \<Rightarrow> Inr (e_out st @ take (e_last st) (e_buf st))
            | Replace \<Rightarrow> Inr (e_out st @ take (e_last st) (e_buf st) @ replacement ensure_ascii))"

section \<open>Integers\<close>

function count_digits_loop :: "nat \<Rightarrow> nat \<Rightarrow> nat" where
  "count_digits_loop x n_digits =
     (if x < 10 then n_digits
      else if x < 100 then n_digits + 1
      else if x < 1000 then n_digits + 2
      else if x < 10000 then n_digits + 3
      else count_digits_loop (x div 10000) (n_digits + 4))"
  by pat_completeness auto

termination by (relation "measure fst") auto

declare count_digits_loop.simps [simp del]

definition count_digits :: "nat \<Rightarrow> nat" where
  "count_digits x = count_digits_loop x 1"

definition digits_to_99 :: "nat \<Rightarrow> nat \<Rightarrow> char" where
  "digits_to_99 n i = [char_of (48 + n div 10), char_of (48 + n mod 10)] ! i"

text \<open>The loop that fills \<open>number_buffer\<close> from the end; \<open>p\<close> is the index \<open>buffer_ptr\<close> points to.\<close>

function fill_digits :: "nat \<Rightarrow> nat \<Rightarrow> string \<Rightarrow> string" where
  "fill_digits abs_value p buf =
     (if abs_value \<ge> 100
      then fill_digits (abs_value div 100) (p - 2)
             (buf[p - 1 := digits_to_99 (abs_value mod 100) 1, p - 2 := digits_to_99 (abs_value mod 100) 0])
      else if abs_value \<ge> 10 then buf[p - 1 := digits_to_99 abs_value 1, p - 2 := digits_to_99 abs_value 0]
      else buf[p - 1 := char_of (48 + abs_value)])"
  by pat_completeness auto

termination by (relation "measure fst") auto

declare fill_digits.simps [simp del]

definition remove_sign :: "int \<Rightarrow> nat" where
  "remove_sign x = nat (- (x + 1)) + 1"

definition dump_integer :: "int \<Rightarrow> string" where
  "dump_integer x =
     (if x = 0 then ''0''
      else
        let number_buffer = replicate 64 (CHR 0x00);
            abs_value = (if x < 0 then remove_sign x else nat x);
            n_chars = (if x < 0 then 1 else 0) + count_digits abs_value;
            buf = (if x < 0 then number_buffer[0 := CHR ''-''] else number_buffer)
        in take n_chars (fill_digits abs_value n_chars buf))"

section \<open>Values\<close>

definition dump_float :: "(u64 \<Rightarrow> string) \<Rightarrow> u64 \<Rightarrow> string" where
  "dump_float ftoa w = (if double_finite w then ftoa w else ''null'')"

record layout =
  pretty :: bool
  ascii :: bool
  indent_step :: nat
  indent_char :: char
  handler :: error_handler

text \<open>\<open>indent_string\<close> has 512 indentation characters and grows by blanks.\<close>

definition indent :: "layout \<Rightarrow> nat \<Rightarrow> string" where
  "indent L n = (if pretty L then replicate (min n 512) (indent_char L) @ replicate (n - 512) (CHR '' '') else [])"

definition newline :: "layout \<Rightarrow> string" where
  "newline L = (if pretty L then [CHR 0x0A] else [])"

text \<open>
  \<open>dump\<close>. The two layouts of the source differ in the line breaks, the indentation and the space after
  a colon; \<open>newline\<close> and \<open>indent\<close> are empty in the compact one, whose indentation never grows.
\<close>

definition deeper :: "layout \<Rightarrow> nat \<Rightarrow> nat" where
  "deeper L current = (if pretty L then current + indent_step L else current)"

fun json_dump :: "(u64 \<Rightarrow> string) \<Rightarrow> layout \<Rightarrow> nat \<Rightarrow> json \<Rightarrow> string res"
  and dump_members :: "(u64 \<Rightarrow> string) \<Rightarrow> layout \<Rightarrow> nat \<Rightarrow> (string \<times> json) list \<Rightarrow> string res"
  and dump_elements :: "(u64 \<Rightarrow> string) \<Rightarrow> layout \<Rightarrow> nat \<Rightarrow> json list \<Rightarrow> string res" where
  "json_dump ftoa L current JNull = Inr ''null''"
| "json_dump ftoa L current (JBool b) = Inr (if b then ''true'' else ''false'')"
| "json_dump ftoa L current (JInt n) = Inr (dump_integer n)"
| "json_dump ftoa L current (JFloat w) = Inr (dump_float ftoa w)"
| "json_dump ftoa L current (JString s) =
     bind_res (dump_escaped (handler L) (ascii L) s) (\<lambda>t. Inr ([CHR 0x22] @ t @ [CHR 0x22]))"
| "json_dump ftoa L current (JArray vs) =
     (if vs = [] then Inr ''[]''
      else bind_res (dump_elements ftoa L (deeper L current) vs) (\<lambda>t.
             Inr (''['' @ newline L @ t @ newline L @ indent L current @ '']'')))"
| "json_dump ftoa L current (JObject ms) =
     (if ms = [] then Inr ''{}''
      else bind_res (dump_members ftoa L (deeper L current) ms) (\<lambda>t.
             Inr (''{'' @ newline L @ t @ newline L @ indent L current @ ''}'')))"
| "dump_members ftoa L current [] = Inr []"
| "dump_members ftoa L current ((k, v) # ms) =
     bind_res (dump_escaped (handler L) (ascii L) k) (\<lambda>key.
     bind_res (json_dump ftoa L current v) (\<lambda>t.
     let member = indent L current @ [CHR 0x22] @ key @ [CHR 0x22] @ '':'' @ (if pretty L then '' '' else []) @ t
     in if ms = [] then Inr member
        else bind_res (dump_members ftoa L current ms) (\<lambda>rest. Inr (member @ '','' @ newline L @ rest))))"
| "dump_elements ftoa L current [] = Inr []"
| "dump_elements ftoa L current (v # vs) =
     bind_res (json_dump ftoa L current v) (\<lambda>t.
     if vs = [] then Inr (indent L current @ t)
     else bind_res (dump_elements ftoa L current vs) (\<lambda>rest. Inr (indent L current @ t @ '','' @ newline L @ rest)))"

text \<open>\<open>basic_json::dump\<close> with its default arguments, as the program calls it.\<close>

definition compact_layout :: layout where
  "compact_layout = \<lparr>pretty = False, ascii = False, indent_step = 0, indent_char = CHR '' '', handler = Strict\<rparr>"


section \<open>What is written for a well-formed text\<close>

definition escaped :: "bool \<Rightarrow> nat \<Rightarrow> string" where
  "escaped ensure_ascii cp = (case escape_codepoint ensure_ascii cp of Some t \<Rightarrow> t | None \<Rightarrow> codepoint_bytes cp)"

abbreviation written :: "esc \<Rightarrow> string" where
  "written st \<equiv> e_out st @ e_buf st"

lemma written_flush [simp]: "written (flush st) = written st"
  by (simp add: flush_def)

lemma accept_byte_fields [simp]:
  "written (accept_byte ea c cp st) =
     written st @ (case escape_codepoint ea cp of Some t \<Rightarrow> t | None \<Rightarrow> [c])"
  "e_state (accept_byte ea c cp st) = UTF8_ACCEPT"
proof -
  define st' where "st' = st\<lparr>e_buf := e_buf st @ (case escape_codepoint ea cp of Some t \<Rightarrow> t | None \<Rightarrow> [c])\<rparr>"
  have "written (accept_byte ea c cp st) = written (flush st')" by (simp add: accept_byte_def Let_def st'_def)
  also have "\<dots> = written st'" by simp
  finally show "written (accept_byte ea c cp st) = written st @ (case escape_codepoint ea cp of Some t \<Rightarrow> t | None \<Rightarrow> [c])"
    by (simp add: st'_def)
  show "e_state (accept_byte ea c cp st) = UTF8_ACCEPT" by (simp add: accept_byte_def Let_def)
qed

lemma escape_multi: "0x80 \<le> cp \<Longrightarrow> escape_codepoint ea cp = None \<longleftrightarrow> \<not> ea"
  by (simp add: escape_codepoint_def)

text \<open>The code point that the continuation bytes add up to.\<close>

fun cont_codepoint :: "nat \<Rightarrow> string \<Rightarrow> nat" where
  "cont_codepoint cp [] = cp"
| "cont_codepoint cp (c # cs) = cont_codepoint ((byte c AND 0x3F) OR push_bit 6 cp) cs"

lemma decode_snd:
  "snd (decode s cp b) = (if s \<noteq> 0 then (b AND 0x3F) OR push_bit 6 cp else drop_bit (utf8d ! b) 0xFF AND b)"
  by (simp add: decode_def Let_def UTF8_ACCEPT_def)

text \<open>Running over the continuation bytes of a sequence.\<close>

lemma dump_loop_continuation:
  assumes "next_byte_in_range (state_ranges s) (bs @ cs) = Some (bs, cs)" "s \<in> {2..8}"
    "e_state st = s" "0x80 \<le> cont_codepoint (e_codep st) bs"
  obtains st' where "dump_loop Strict ea (bs @ cs) st = dump_loop Strict ea cs st'" "e_state st' = 0"
    "written st' = (if ea then written st @ escaped True (cont_codepoint (e_codep st) bs) else written st @ bs)"
  using assms
proof (induction bs arbitrary: s st thesis)
  case Nil
  then have "length (state_ranges s) = 0" using next_byte_in_range_length by fastforce
  then show ?case using state_ranges_not_Nil Nil.prems(3) by simp
next
  case (Cons b bs)
  obtain lo hi rs where r: "state_ranges s = (lo, hi) # rs"
    using state_ranges_not_Nil [OF Cons.prems(3)] by (metis list.exhaust surj_pair)
  have n: "lo \<le> byte b \<and> byte b \<le> hi" "next_byte_in_range rs (bs @ cs) = Some (bs, cs)"
    using Cons.prems(2) unfolding r by (auto split: if_splits option.splits)
  let ?cp = "(byte b AND 0x3F) OR push_bit 6 (e_codep st)"
  have s0: "s \<noteq> 0" using Cons.prems(3) by auto
  have cp: "snd (decode s (e_codep st) (byte b)) = ?cp" using s0 by (simp add: decode_snd)
  note nx = decode_next [OF byte_less Cons.prems(3) r, of b "e_codep st"]
  show ?case
  proof (cases "rs = []")
    case True
    then have bs: "bs = []" using next_byte_in_range_length [OF n(2)] by simp
    have d: "decode s (e_codep st) (byte b) = (0, ?cp)"
      using nx(1) [OF n(1) True] cp by (metis prod.collapse)
    show ?thesis
    proof (rule Cons.prems(1))
      show "dump_loop Strict ea ((b # bs) @ cs) st = dump_loop Strict ea cs (accept_byte ea b ?cp st)"
        using d Cons.prems(4) bs by (simp add: dump_loop.simps(2) UTF8_ACCEPT_def)
      show "e_state (accept_byte ea b ?cp st) = 0" by (simp add: UTF8_ACCEPT_def)
      show "written (accept_byte ea b ?cp st) =
          (if ea then written st @ escaped True (cont_codepoint (e_codep st) (b # bs)) else written st @ b # bs)"
        using Cons.prems(5) bs escape_multi [of ?cp ea]
        by (cases ea) (auto simp: escaped_def split: option.splits)
    qed
  next
    case False
    define s' where "s' = fst (decode s (e_codep st) (byte b))"
    have s': "s' \<in> {2..8}" "state_ranges s' = rs" using nx(2) [OF n(1) False] by (simp_all add: s'_def)
    have d: "decode s (e_codep st) (byte b) = (s', ?cp)" using cp by (simp add: s'_def prod_eq_iff)
    let ?st = "middle_byte ea b s' ?cp st"
    have st: "e_state ?st = s'" "e_codep ?st = ?cp" "e_out ?st = e_out st"
      "e_buf ?st = (if ea then e_buf st else e_buf st @ [b])"
      by (simp_all add: middle_byte_def)
    have pr: "next_byte_in_range (state_ranges s') (bs @ cs) = Some (bs, cs)"
      "0x80 \<le> cont_codepoint (e_codep ?st) bs"
      using n(2) s'(2) Cons.prems(5) st(2) by simp_all
    obtain st' where h: "dump_loop Strict ea (bs @ cs) ?st = dump_loop Strict ea cs st'" "e_state st' = 0"
      "written st' = (if ea then written ?st @ escaped True (cont_codepoint (e_codep ?st) bs) else written ?st @ bs)"
      using Cons.IH [OF _ pr(1) s'(1) st(1) pr(2)] by blast
    show ?thesis
    proof (rule Cons.prems(1))
      show "dump_loop Strict ea ((b # bs) @ cs) st = dump_loop Strict ea cs st'"
        using d Cons.prems(4) s'(1) h(1) by (simp add: dump_loop.simps(2) UTF8_ACCEPT_def UTF8_REJECT_def)
      show "e_state st' = 0" by (rule h(2))
      show "written st' =
          (if ea then written st @ escaped True (cont_codepoint (e_codep st) (b # bs)) else written st @ b # bs)"
        using h(3) by (cases ea) (simp_all add: middle_byte_def)
    qed
  qed
qed


lemma lead_codepoint:
  assumes "scalar_value cp" "0x80 \<le> cp" "codepoint_bytes cp = c # bs"
  shows "cont_codepoint (drop_bit (utf8d ! byte c) 0xFF AND byte c) bs = cp"
proof -
  have join: "(0x80 + x AND 0x3F) OR push_bit 6 y = y * 64 + x" if "x < 64" for x y :: nat
  proof -
    have "(0x80 + x) mod 64 = x" using div_mod_add [OF that, of 2] by simp
    then show ?thesis using that or_push [of x y] and_low [of "0x80 + x"] by simp
  qed
  have m: "63 AND x = x mod 64" "31 AND x = x mod 32" "15 AND x = x mod 16" "7 AND x = x mod 8" "3 AND x = x mod 4"
    for x :: nat
    using and_low [of x] take_bit_eq_mask [of 5 x] take_bit_eq_mask [of 4 x] take_bit_eq_mask [of 3 x] take_bit_eq_mask [of 2 x]
    by (simp_all add: and.commute take_bit_eq_mod mask_eq_exp_minus_1)
  from assms(1,2) show ?thesis
  proof (cases rule: codepoint_forms)
    case (two a b)
    then have cb: "c = char_of (0xC0 + a)" "bs = [char_of (0x80 + b)]" using assms(3) by simp_all
    from two have "utf8d ! (0xC0 + a) = 2" "(0xC0 + a) mod 64 = a" using div_mod_add [of a 64 3] by (simp_all add: utf8d_class byte_class_def)
    then show ?thesis using two(1-4) cb by (simp add: byte_char_of join m drop_bit_eq_div)
  next
    case (three a b d)
    then have cb: "c = char_of (0xE0 + a)" "bs = [char_of (0x80 + b), char_of (0x80 + d)]" using assms(3) by simp_all
    from three have "utf8d ! (0xE0 + a) = (if a = 0 then 10 else if a = 13 then 4 else 3)" "(0xE0 + a) mod 32 = a" "(0xE0 + a) mod 16 = a"
      using div_mod_add [of a 32 7] div_mod_add [of a 16 14] by (simp_all add: utf8d_class byte_class_def)
    then have "drop_bit (utf8d ! (0xE0 + a)) 0xFF AND (0xE0 + a) = a" by (simp add: drop_bit_eq_div m)
    then show ?thesis using three(1-6) cb by (simp add: byte_char_of join)
  next
    case (four a b d e)
    then have cb: "c = char_of (0xF0 + a)" "bs = [char_of (0x80 + b), char_of (0x80 + d), char_of (0x80 + e)]" using assms(3) by simp_all
    from four have "utf8d ! (0xF0 + a) = (if a = 0 then 11 else if a < 4 then 6 else 5)" "(0xF0 + a) mod 8 = a" "a < 4 \<Longrightarrow> (0xF0 + a) mod 4 = a"
      using div_mod_add [of a 8 30] div_mod_add [of a 4 60] by (simp_all add: utf8d_class byte_class_def)
    then have "drop_bit (utf8d ! (0xF0 + a)) 0xFF AND (0xF0 + a) = a" by (simp add: drop_bit_eq_div m)
    then show ?thesis using four(1-7) cb by (simp add: byte_char_of join)
  qed
qed

text \<open>One code point.\<close>

lemma dump_loop_codepoint:
  assumes "scalar_value cp" "e_state st = 0"
  obtains st' where "dump_loop Strict ea (codepoint_bytes cp @ cs) st = dump_loop Strict ea cs st'" "e_state st' = 0"
    "written st' = written st @ escaped ea cp"
proof (cases "cp < 0x80")
  case True
  have cb: "codepoint_bytes cp = [char_of cp]" using True by (rule codepoint_bytes_1)
  have "drop_bit (utf8d ! cp) 0xFF AND cp = cp"
  proof -
    have "255 AND cp = cp" using True take_bit_eq_mask [of 8 cp] by (simp add: and.commute take_bit_eq_mod mask_eq_exp_minus_1)
    then show ?thesis using True by (simp add: utf8d_class byte_class_def)
  qed
  then have d: "decode 0 (e_codep st) cp = (0, cp)"
    using decode_first(1) [of cp "e_codep st"] decode_snd [of 0 "e_codep st" cp] True by (simp add: prod_eq_iff)
  show ?thesis
  proof (rule that)
    show "dump_loop Strict ea (codepoint_bytes cp @ cs) st = dump_loop Strict ea cs (accept_byte ea (char_of cp) cp st)"
      using d True assms(2) by (simp add: cb dump_loop.simps(2) UTF8_ACCEPT_def)
    show "e_state (accept_byte ea (char_of cp) cp st) = 0" by (simp add: UTF8_ACCEPT_def)
    show "written (accept_byte ea (char_of cp) cp st) = written st @ escaped ea cp"
      by (simp add: escaped_def cb split: option.splits)
  qed
next
  case False
  then have cp: "0x80 \<le> cp" by simp
  obtain c bs rs where e: "codepoint_bytes cp = c # bs" "follow_ranges (byte c) = Some rs" "0x80 \<le> byte c"
    "\<And>cs. next_byte_in_range rs (bs @ cs) = Some (bs, cs)"
    using ranges_accept_encoding [OF assms(1) cp] by blast
  define s where "s = fst (decode 0 (e_codep st) (byte c))"
  let ?cp = "drop_bit (utf8d ! byte c) 0xFF AND byte c"
  have s: "s \<in> {2..8}" "state_ranges s = rs" using decode_first(3) [OF byte_less e(2)] by (simp_all add: s_def)
  have d: "decode 0 (e_codep st) (byte c) = (s, ?cp)"
    using decode_snd [of 0 "e_codep st" "byte c"] by (simp add: s_def prod_eq_iff)
  let ?st = "middle_byte ea c s ?cp st"
  have st: "e_state ?st = s" "e_codep ?st = ?cp" by (simp_all add: middle_byte_def)
  have fin: "cont_codepoint (e_codep ?st) bs = cp" using lead_codepoint [OF assms(1) cp e(1)] st by simp
  obtain st' where h: "dump_loop Strict ea (bs @ cs) ?st = dump_loop Strict ea cs st'" "e_state st' = 0"
    "written st' = (if ea then written ?st @ escaped True (cont_codepoint (e_codep ?st) bs) else written ?st @ bs)"
    using dump_loop_continuation [of s bs cs ?st] e(4) s fin cp st(1) by metis
  show ?thesis
  proof (rule that)
    show "dump_loop Strict ea (codepoint_bytes cp @ cs) st = dump_loop Strict ea cs st'"
      using d assms(2) s(1) h(1) by (simp add: e(1) dump_loop.simps(2) UTF8_ACCEPT_def UTF8_REJECT_def)
    show "e_state st' = 0" by (rule h(2))
    have "\<not> ea \<Longrightarrow> escaped ea cp = c # bs" using escape_multi [OF cp, of ea] e(1) by (simp add: escaped_def)
    then show "written st' = written st @ escaped ea cp"
      using h(3) fin by (cases ea) (simp_all add: middle_byte_def)
  qed
qed

lemma dump_loop_text:
  assumes "list_all scalar_value cps" "e_state st = 0"
  shows "\<exists>st'. dump_loop Strict ea (concat (map codepoint_bytes cps)) st = Inr st' \<and> e_state st' = 0 \<and>
    written st' = written st @ concat (map (escaped ea) cps)"
  using assms
proof (induction cps arbitrary: st)
  case (Cons cp cps)
  obtain st1 where 1: "dump_loop Strict ea (codepoint_bytes cp @ concat (map codepoint_bytes cps)) st =
      dump_loop Strict ea (concat (map codepoint_bytes cps)) st1" "e_state st1 = 0"
    "written st1 = written st @ escaped ea cp"
    using dump_loop_codepoint [of cp st ea "concat (map codepoint_bytes cps)"] Cons.prems by auto
  then show ?case using Cons.IH [of st1] Cons.prems by simp
qed simp

lemma dump_escaped_text:
  assumes "list_all scalar_value cps"
  shows "dump_escaped Strict ea (concat (map codepoint_bytes cps)) = Inr (concat (map (escaped ea) cps))"
proof -
  have e: "e_state esc_start = 0" by (simp add: esc_start_def UTF8_ACCEPT_def)
  have w: "written esc_start = []" by (simp add: esc_start_def)
  from dump_loop_text [OF assms e, of ea] obtain st where
    "dump_loop Strict ea (concat (map codepoint_bytes cps)) esc_start = Inr st" "e_state st = 0"
    "written st = concat (map (escaped ea) cps)"
    unfolding w by auto
  then show ?thesis by (simp add: dump_escaped_def UTF8_ACCEPT_def)
qed


text \<open>Ill-formed text is refused: the strict loop accepts encodings only.\<close>

lemma dump_loop_stuck:
  assumes "dump_loop Strict ea cs st = Inr st'" "e_state st = s" "s \<in> {2..8}" "e_state st' = 0"
  obtains bs cs' st1 where "next_byte_in_range (state_ranges s) cs = Some (bs, cs')"
    "dump_loop Strict ea cs' st1 = Inr st'" "e_state st1 = 0"
  using assms
proof (induction cs arbitrary: s st thesis)
  case Nil
  then show ?case by auto
next
  case (Cons c cs)
  obtain lo hi rs where r: "state_ranges s = (lo, hi) # rs"
    using state_ranges_not_Nil [OF Cons.prems(4)] by (metis list.exhaust surj_pair)
  define s' where "s' = fst (decode s (e_codep st) (byte c))"
  obtain cp where d: "decode s (e_codep st) (byte c) = (s', cp)" by (metis prod.collapse s'_def)
  note nx = decode_next [OF byte_less Cons.prems(4) r, of c "e_codep st", folded s'_def]
  have b: "lo \<le> byte c \<and> byte c \<le> hi"
  proof (rule ccontr)
    assume "\<not> ?thesis"
    then have "s' = 1" using nx(3) by simp
    then show False
      using Cons.prems(2,3) d by (simp add: dump_loop.simps(2) UTF8_ACCEPT_def UTF8_REJECT_def)
  qed
  show ?case
  proof (cases "rs = []")
    case True
    then have "s' = 0" using nx(1) b by simp
    then have "dump_loop Strict ea cs (accept_byte ea c cp st) = Inr st'"
      using Cons.prems(2,3) d by (simp add: dump_loop.simps(2) UTF8_ACCEPT_def)
    moreover have "e_state (accept_byte ea c cp st) = 0" by (simp add: UTF8_ACCEPT_def)
    moreover have "next_byte_in_range (state_ranges s) (c # cs) = Some ([c], cs)" using True b r by simp
    ultimately show ?thesis using Cons.prems(1) by blast
  next
    case False
    then have s': "s' \<in> {2..8}" "state_ranges s' = rs" using nx(2) b by simp_all
    have h: "dump_loop Strict ea cs (middle_byte ea c s' cp st) = Inr st'"
      using Cons.prems(2,3) d s'(1) by (simp add: dump_loop.simps(2) UTF8_ACCEPT_def UTF8_REJECT_def)
    have m: "e_state (middle_byte ea c s' cp st) = s'" by (simp add: middle_byte_def)
    obtain bs cs' st1 where g: "next_byte_in_range (state_ranges s') cs = Some (bs, cs')"
      "dump_loop Strict ea cs' st1 = Inr st'" "e_state st1 = 0"
      using Cons.IH [OF _ h m s'(1) Cons.prems(5)] by blast
    then have "next_byte_in_range (state_ranges s) (c # cs) = Some (c # bs, cs')" using r b s'(2) by simp
    then show ?thesis using Cons.prems(1) g by blast
  qed
qed

lemma codepoint_text_Cons:
  "scalar_value cp \<Longrightarrow> utf8_text s \<Longrightarrow> utf8_text (codepoint_bytes cp @ s)"
proof -
  assume cp: "scalar_value cp" and "utf8_text s"
  then obtain cps where "list_all scalar_value cps" "s = concat (map codepoint_bytes cps)" by (auto simp: utf8_text_def)
  then show ?thesis using cp unfolding utf8_text_def by (intro exI [of _ "cp # cps"]) simp
qed

lemma dump_loop_only_text:
  "dump_loop Strict ea cs st = Inr st' \<Longrightarrow> e_state st = 0 \<Longrightarrow> e_state st' = 0 \<Longrightarrow> utf8_text cs"
proof (induction "length cs" arbitrary: cs st rule: less_induct)
  case less
  show ?case
  proof (cases cs)
    case Nil
    then show ?thesis by (auto simp: utf8_text_def intro!: exI [of _ "[]"])
  next
    case (Cons c cs1)
    define s' where "s' = fst (decode 0 (e_codep st) (byte c))"
    obtain cp where d: "decode 0 (e_codep st) (byte c) = (s', cp)" by (metis prod.collapse s'_def)
    note fs = decode_first(1,2) [OF byte_less, of c "e_codep st", folded s'_def]
    show ?thesis
    proof (cases "byte c < 0x80")
      case True
      then have "s' = 0" using fs(1) by simp
      then have "dump_loop Strict ea cs1 (accept_byte ea c cp st) = Inr st'"
        using less.prems Cons d by (simp add: dump_loop.simps(2) UTF8_ACCEPT_def)
      then have t: "utf8_text cs1"
        using less.hyps [of cs1] less.prems(3) Cons by (simp add: UTF8_ACCEPT_def)
      have "scalar_value (byte c)" using True by (simp add: scalar_value_def)
      from codepoint_text_Cons [OF this t] show ?thesis using Cons True by (simp add: codepoint_bytes_1)
    next
      case False
      show ?thesis
      proof (cases "follow_ranges (byte c)")
        case None
        then have "s' = 1" using fs(2) False by simp
        then show ?thesis using less.prems Cons d by (simp add: dump_loop.simps(2) UTF8_ACCEPT_def UTF8_REJECT_def)
      next
        case (Some rs)
        then have s': "s' \<in> {2..8}" "state_ranges s' = rs"
          using decode_first(3) [OF byte_less Some, of "e_codep st"] by (simp_all add: s'_def)
        have h: "dump_loop Strict ea cs1 (middle_byte ea c s' cp st) = Inr st'"
          using less.prems Cons d s'(1) by (simp add: dump_loop.simps(2) UTF8_ACCEPT_def UTF8_REJECT_def)
        have m: "e_state (middle_byte ea c s' cp st) = s'" by (simp add: middle_byte_def)
        obtain bs cs' st1 where g: "next_byte_in_range rs cs1 = Some (bs, cs')"
          "dump_loop Strict ea cs' st1 = Inr st'" "e_state st1 = 0"
          using dump_loop_stuck [OF h m s'(1) less.prems(3)] s'(2) by metis
        have l: "cs1 = bs @ cs'" using next_byte_in_range_length [OF g(1)] by simp
        have t: "utf8_text cs'" using less.hyps [of cs'] g(2,3) less.prems(3) Cons l by simp
        obtain cp' where "scalar_value cp'" "codepoint_bytes cp' = c # bs"
          using ranges_accept_only_encodings [OF Some g(1)] by blast
        then show ?thesis using codepoint_text_Cons [OF _ t, of cp'] Cons l by simp
      qed
    qed
  qed
qed

lemma dump_escaped_only_text: "dump_escaped Strict ea s = Inr t \<Longrightarrow> utf8_text s"
  using dump_loop_only_text [of ea s esc_start]
  by (auto simp: dump_escaped_def bind_res_Inr esc_start_def UTF8_ACCEPT_def split: if_splits)

end
