(* ===== verification/JsonLex.thy ===== *)
theory JsonLex
  imports JsonUtf8
begin

text \<open>
  The lexer of \<^verbatim>\<open>json.hpp\<close> (class \<open>lexer\<close>): strings with their escapes, numbers, literals,
  comments and \<open>scan\<close>. The input adapter is the list of the characters still to be read; a
  character that \<open>unget\<close> gives back is simply not taken off it, and reading at the end of the
  input gives the end-of-file value, here the empty list. A scanner returns the error message or
  the scanned value with the rest of the input. \<open>std::strtod\<close> is the parameter \<open>strtod\<close>: the bits
  of the double that a number's text denotes.
\<close>

datatype token =
    BeginArray
  | EndArray
  | BeginObject
  | EndObject
  | NameSeparator
  | ValueSeparator
  | LiteralTrue
  | LiteralFalse
  | LiteralNull
  | ValueString string
  | ValueUnsigned nat
  | ValueInteger int
  | ValueFloat u64
  | EndOfInput
  | ParseError string

section \<open>Strings\<close>

text \<open>\<open>get_codepoint\<close>: four hexadecimal digits after \<^verbatim>\<open>\u\<close>; \<open>None\<close> is the result -1.\<close>

definition hex_digit :: "char \<Rightarrow> nat option" where
  "hex_digit c =
     (if 48 \<le> byte c \<and> byte c \<le> 57 then Some (byte c - 0x30)
      else if 65 \<le> byte c \<and> byte c \<le> 70 then Some (byte c - 0x37)
      else if 97 \<le> byte c \<and> byte c \<le> 102 then Some (byte c - 0x57)
      else None)"

fun codepoint_loop :: "nat list \<Rightarrow> nat \<Rightarrow> string \<Rightarrow> (nat \<times> string) option" where
  "codepoint_loop [] codepoint cs = Some (codepoint, cs)"
| "codepoint_loop (factor # factors) codepoint [] = None"
| "codepoint_loop (factor # factors) codepoint (c # cs) =
     (case hex_digit c of
        None \<Rightarrow> None
      | Some d \<Rightarrow> codepoint_loop factors (codepoint + push_bit factor d) cs)"

definition get_codepoint :: "string \<Rightarrow> (nat \<times> string) option" where
  "get_codepoint cs = codepoint_loop [12, 8, 4, 0] 0 cs"

abbreviation bad_hex :: string where
  "bad_hex \<equiv> ''invalid string: '' @ [CHR 0x27, CHR 0x5C, CHR ''u'', CHR 0x27] @ '' must be followed by 4 hex digits''"

abbreviation bad_high :: string where
  "bad_high \<equiv> ''invalid string: surrogate U+D800..U+DBFF must be followed by U+DC00..U+DFFF''"

abbreviation bad_low :: string where
  "bad_low \<equiv> ''invalid string: surrogate U+DC00..U+DFFF must follow U+D800..U+DBFF''"

abbreviation bad_exponent :: string where
  "bad_exponent \<equiv> ''invalid number; expected '' @ [CHR 0x27, CHR ''+'', CHR 0x27] @ '', '' @
     [CHR 0x27, CHR ''-'', CHR 0x27] @ '', or digit after exponent''"

abbreviation bad_decimal :: string where
  "bad_decimal \<equiv> ''invalid number; expected digit after '' @ [CHR 0x27, CHR ''.'', CHR 0x27]"

abbreviation bad_minus :: string where
  "bad_minus \<equiv> ''invalid number; expected digit after '' @ [CHR 0x27, CHR ''-'', CHR 0x27]"

abbreviation unclosed_comment :: string where
  "unclosed_comment \<equiv> ''invalid comment; missing closing '' @ [CHR 0x27, CHR ''*'', CHR ''/'', CHR 0x27]"

abbreviation slash_expected :: string where
  "slash_expected \<equiv> ''invalid comment; expecting '' @ [CHR 0x27, CHR ''/'', CHR 0x27] @ '' or '' @
     [CHR 0x27, CHR ''*'', CHR 0x27] @ '' after '' @ [CHR 0x27, CHR ''/'', CHR 0x27]"

text \<open>The escape \<^verbatim>\<open>\u\<close> with the surrogate pairs; the sums are of unsigned 32-bit numbers and do not wrap.\<close>

definition low_surrogate :: "nat \<Rightarrow> string \<Rightarrow> string + (string \<times> string)" where
  "low_surrogate codepoint1 cs =
     (case cs of
        c # d # cs2 \<Rightarrow>
          if c = CHR 0x5C \<and> d = CHR ''u'' then
            (case get_codepoint cs2 of
               None \<Rightarrow> Inl bad_hex
             | Some (codepoint2, cs3) \<Rightarrow>
                 if 0xDC00 \<le> codepoint2 \<and> codepoint2 \<le> 0xDFFF
                 then Inr (codepoint_bytes (push_bit 10 codepoint1 + codepoint2 - 0x35FDC00), cs3)
                 else Inl bad_high)
          else Inl bad_high
      | _ \<Rightarrow> Inl bad_high)"

definition unicode_escape :: "string \<Rightarrow> string + (string \<times> string)" where
  "unicode_escape cs =
     (case get_codepoint cs of
        None \<Rightarrow> Inl bad_hex
      | Some (codepoint1, cs1) \<Rightarrow>
          if 0xD800 \<le> codepoint1 \<and> codepoint1 \<le> 0xDBFF then low_surrogate codepoint1 cs1
          else if 0xDC00 \<le> codepoint1 \<and> codepoint1 \<le> 0xDFFF then Inl bad_low
          else Inr (codepoint_bytes codepoint1, cs1))"

definition scan_escape :: "string \<Rightarrow> string + (string \<times> string)" where
  "scan_escape cs =
     (case cs of
        [] \<Rightarrow> Inl ''invalid string: forbidden character after backslash''
      | c # cs' \<Rightarrow>
          if c = CHR 0x22 then Inr ([CHR 0x22], cs')
          else if c = CHR 0x5C then Inr ([CHR 0x5C], cs')
          else if c = CHR ''/'' then Inr (''/'', cs')
          else if c = CHR ''b'' then Inr ([CHR 0x08], cs')
          else if c = CHR ''f'' then Inr ([CHR 0x0C], cs')
          else if c = CHR ''n'' then Inr ([CHR 0x0A], cs')
          else if c = CHR ''r'' then Inr ([CHR 0x0D], cs')
          else if c = CHR ''t'' then Inr ([CHR 0x09], cs')
          else if c = CHR ''u'' then unicode_escape cs'
          else Inl ''invalid string: forbidden character after backslash'')"

text \<open>The message of each of the 32 cases for a control character: its code, its name, its escapes.\<close>

definition control_names :: "string list" where
  "control_names =
     [''NUL'', ''SOH'', ''STX'', ''ETX'', ''EOT'', ''ENQ'', ''ACK'', ''BEL'', ''BS'', ''HT'', ''LF'', ''VT'', ''FF'', ''CR'',
      ''SO'', ''SI'', ''DLE'', ''DC1'', ''DC2'', ''DC3'', ''DC4'', ''NAK'', ''SYN'', ''ETB'', ''CAN'', ''EM'', ''SUB'', ''ESC'',
      ''FS'', ''GS'', ''RS'', ''US'']"

definition hex_char :: "nat \<Rightarrow> char" where
  "hex_char n = ''0123456789ABCDEF'' ! n"

definition control_message :: "nat \<Rightarrow> string" where
  "control_message b =
     (let code = [CHR ''0'', CHR ''0'', hex_char (b div 16), hex_char (b mod 16)];
          or_escape = (\<lambda>c. '' or '' @ [CHR 0x5C, c]);
          short = (if b = 8 then or_escape (CHR ''b'') else if b = 9 then or_escape (CHR ''t'')
                   else if b = 10 then or_escape (CHR ''n'') else if b = 12 then or_escape (CHR ''f'')
                   else if b = 13 then or_escape (CHR ''r'') else [])
      in ''invalid string: control character U+'' @ code @ '' ('' @ control_names ! b @ '') must be escaped to '' @ [CHR 0x5C, CHR ''u''] @
         code @ short)"

lemma codepoint_loop_length: "codepoint_loop fs cp cs = Some (cp', cs') \<Longrightarrow> length cs' \<le> length cs"
  by (induction fs cp cs rule: codepoint_loop.induct) (auto split: option.splits)

lemma scan_escape_length: "scan_escape cs = Inr (bs, cs') \<Longrightarrow> length cs' < length cs"
  by (auto simp: scan_escape_def unicode_escape_def low_surrogate_def get_codepoint_def
      split: list.splits if_splits option.splits dest!: codepoint_loop_length)

text \<open>The cases from \<^verbatim>\<open>0x20\<close> to \<^verbatim>\<open>0x7F\<close>, listed one by one in the source, that are left after the quote and the backslash.\<close>

definition plain_byte :: "nat \<Rightarrow> bool" where
  [simp]: "plain_byte b \<longleftrightarrow> 0x20 \<le> b \<and> b \<le> 0x7F"

text \<open>
  \<open>scan_string\<close> after the opening quote; \<open>buf\<close> is the token buffer. The lengths in the tests of the
  recursive calls hold always (the lemmas above) and only let the termination proof see them.
\<close>

function scan_string :: "string \<Rightarrow> string \<Rightarrow> string + (string \<times> string)" where
  "scan_string [] buf = Inl ''invalid string: missing closing quote''"
| "scan_string (c # cs) buf =
     (if c = CHR 0x22 then Inr (buf, cs)
      else if c = CHR 0x5C then
        (case scan_escape cs of
           Inl e \<Rightarrow> Inl e
         | Inr (bs, cs') \<Rightarrow> scan_string cs' (buf @ bs))
      else if byte c \<le> 0x1F then Inl (control_message (byte c))
      else if plain_byte (byte c) then scan_string cs (buf @ [c])
      else
        (case follow_ranges (byte c) of
           None \<Rightarrow> Inl ''invalid string: ill-formed UTF-8 byte''
         | Some ranges \<Rightarrow>
             (case next_byte_in_range ranges cs of
                None \<Rightarrow> Inl ''invalid string: ill-formed UTF-8 byte''
              | Some (bs, cs') \<Rightarrow> scan_string cs' (buf @ c # bs))))"
  by pat_completeness auto

termination
  by (relation "measure (\<lambda>(cs, buf). length cs)")
    (auto dest!: scan_escape_length next_byte_in_range_length)

declare scan_string.simps(2) [simp del]

section \<open>Numbers\<close>

text \<open>
  The states of \<open>scan_number\<close>, one function per label. A number is integral (unsigned or, after a
  minus sign, signed) until a point or an exponent is read; \<open>Inr\<close> gives whether it stayed so, the
  buffer and the rest.
\<close>

type_synonym num_result = "string + (bool \<times> string \<times> string)"

fun num_any2 :: "string \<Rightarrow> string \<Rightarrow> num_result" where
  "num_any2 buf [] = Inr (False, buf, [])"
| "num_any2 buf (c # cs) = (if isdigit c then num_any2 (buf @ [c]) cs else Inr (False, buf, c # cs))"

definition num_sign :: "string \<Rightarrow> string \<Rightarrow> num_result" where
  "num_sign buf cs =
     (case cs of
        c # cs' \<Rightarrow> if isdigit c then num_any2 (buf @ [c]) cs' else Inl ''invalid number; expected digit after exponent sign''
      | [] \<Rightarrow> Inl ''invalid number; expected digit after exponent sign'')"

definition num_exponent :: "string \<Rightarrow> string \<Rightarrow> num_result" where
  "num_exponent buf cs =
     (case cs of
        c # cs' \<Rightarrow>
          if c = CHR ''+'' \<or> c = CHR ''-'' then num_sign (buf @ [c]) cs'
          else if isdigit c then num_any2 (buf @ [c]) cs'
          else Inl bad_exponent
      | [] \<Rightarrow> Inl bad_exponent)"

fun num_decimal2 :: "string \<Rightarrow> string \<Rightarrow> num_result" where
  "num_decimal2 buf [] = Inr (False, buf, [])"
| "num_decimal2 buf (c # cs) =
     (if isdigit c then num_decimal2 (buf @ [c]) cs
      else if c = CHR ''e'' \<or> c = CHR ''E'' then num_exponent (buf @ [c]) cs
      else Inr (False, buf, c # cs))"

definition num_decimal1 :: "string \<Rightarrow> string \<Rightarrow> num_result" where
  "num_decimal1 buf cs =
     (case cs of
        c # cs' \<Rightarrow> if isdigit c then num_decimal2 (buf @ [c]) cs' else Inl bad_decimal
      | [] \<Rightarrow> Inl bad_decimal)"

fun num_any1 :: "string \<Rightarrow> string \<Rightarrow> num_result" where
  "num_any1 buf [] = Inr (True, buf, [])"
| "num_any1 buf (c # cs) =
     (if isdigit c then num_any1 (buf @ [c]) cs
      else if c = CHR ''.'' then num_decimal1 (buf @ [c]) cs
      else if c = CHR ''e'' \<or> c = CHR ''E'' then num_exponent (buf @ [c]) cs
      else Inr (True, buf, c # cs))"

definition num_zero :: "string \<Rightarrow> string \<Rightarrow> num_result" where
  "num_zero buf cs =
     (case cs of
        c # cs' \<Rightarrow>
          if c = CHR ''.'' then num_decimal1 (buf @ [c]) cs'
          else if c = CHR ''e'' \<or> c = CHR ''E'' then num_exponent (buf @ [c]) cs'
          else Inr (True, buf, cs)
      | [] \<Rightarrow> Inr (True, buf, []))"

definition num_minus :: "string \<Rightarrow> string \<Rightarrow> num_result" where
  "num_minus buf cs =
     (case cs of
        c # cs' \<Rightarrow>
          if c = CHR ''0'' then num_zero (buf @ [c]) cs'
          else if isdigit c then num_any1 (buf @ [c]) cs'
          else Inl bad_minus
      | [] \<Rightarrow> Inl bad_minus)"

text \<open>\<open>strtoull\<close> and \<open>strtoll\<close> on a text of digits.\<close>

definition digits_value :: "string \<Rightarrow> nat" where
  "digits_value s = foldl (\<lambda>n c. n * 10 + (byte c - 48)) 0 s"

text \<open>
  The conversion: an integer that does not fit (\<open>ERANGE\<close>) becomes a floating-point number. \<open>c\<close> is the
  current character, the first of the number.
\<close>

definition convert_number :: "(string \<Rightarrow> u64) \<Rightarrow> bool \<Rightarrow> bool \<Rightarrow> string \<Rightarrow> token" where
  "convert_number strtod negative integral buf =
     (if integral \<and> \<not> negative \<and> digits_value buf < 2 ^ 64 then ValueUnsigned (digits_value buf)
      else if integral \<and> negative \<and> digits_value (tl buf) \<le> 2 ^ 63 then ValueInteger (- int (digits_value (tl buf)))
      else ValueFloat (strtod buf))"

definition scan_number :: "(string \<Rightarrow> u64) \<Rightarrow> char \<Rightarrow> string \<Rightarrow> token \<times> string" where
  "scan_number strtod c cs =
     (let r = (if c = CHR ''-'' then num_minus [c] cs else if c = CHR ''0'' then num_zero [c] cs else num_any1 [c] cs)
      in case r of
           Inl e \<Rightarrow> (ParseError e, cs)
         | Inr (integral, buf, cs') \<Rightarrow> (convert_number strtod (c = CHR ''-'') integral buf, cs'))"

section \<open>Literals, comments, tokens\<close>

fun scan_literal :: "string \<Rightarrow> token \<Rightarrow> string \<Rightarrow> token \<times> string" where
  "scan_literal [] t cs = (t, cs)"
| "scan_literal (l # ls) t [] = (ParseError ''invalid literal'', [])"
| "scan_literal (l # ls) t (c # cs) = (if c = l then scan_literal ls t cs else (ParseError ''invalid literal'', cs))"

fun line_comment :: "string \<Rightarrow> string" where
  "line_comment [] = []"
| "line_comment (c # cs) = (if byte c = 10 \<or> byte c = 13 \<or> byte c = 0 then cs else line_comment cs)"

fun block_comment :: "string \<Rightarrow> string option" where
  "block_comment [] = None"
| "block_comment (c # cs) =
     (if byte c = 0 then None
      else if c = CHR ''*'' then (case cs of d # cs' \<Rightarrow> if d = CHR ''/'' then Some cs' else block_comment cs | [] \<Rightarrow> None)
      else block_comment cs)"

definition scan_comment :: "string \<Rightarrow> string + string" where
  "scan_comment cs =
     (case cs of
        c # cs' \<Rightarrow>
          if c = CHR ''/'' then Inr (line_comment cs')
          else if c = CHR ''*'' then
            (case block_comment cs' of Some cs'' \<Rightarrow> Inr cs'' | None \<Rightarrow> Inl unclosed_comment)
          else Inl slash_expected
      | [] \<Rightarrow> Inl slash_expected)"

definition is_ws :: "char \<Rightarrow> bool" where
  "is_ws c \<longleftrightarrow> byte c = 32 \<or> byte c = 9 \<or> byte c = 10 \<or> byte c = 13"

definition skip_whitespace :: "string \<Rightarrow> string" where
  "skip_whitespace cs = dropWhile is_ws cs"

text \<open>\<open>scan\<close> after the white space, from the current character on.\<close>

definition scan_token :: "(string \<Rightarrow> u64) \<Rightarrow> string \<Rightarrow> token \<times> string" where
  "scan_token strtod cs =
     (case cs of
        [] \<Rightarrow> (EndOfInput, [])
      | c # cs' \<Rightarrow>
          if c = CHR ''['' then (BeginArray, cs')
          else if c = CHR '']'' then (EndArray, cs')
          else if c = CHR ''{'' then (BeginObject, cs')
          else if c = CHR ''}'' then (EndObject, cs')
          else if c = CHR '':'' then (NameSeparator, cs')
          else if c = CHR '','' then (ValueSeparator, cs')
          else if c = CHR ''t'' then scan_literal ''rue'' LiteralTrue cs'
          else if c = CHR ''f'' then scan_literal ''alse'' LiteralFalse cs'
          else if c = CHR ''n'' then scan_literal ''ull'' LiteralNull cs'
          else if c = CHR 0x22 then
            (case scan_string cs' [] of Inl e \<Rightarrow> (ParseError e, cs') | Inr (s, cs'') \<Rightarrow> (ValueString s, cs''))
          else if c = CHR ''-'' \<or> isdigit c then scan_number strtod c cs'
          else if byte c = 0 then (EndOfInput, cs')
          else (ParseError ''invalid literal'', cs'))"

text \<open>\<open>scan\<close>, with the loop over the comments when they are to be ignored.\<close>

lemma line_comment_length: "length (line_comment cs) \<le> length cs"
  by (induction cs rule: line_comment.induct) auto

lemma block_comment_length: "block_comment cs = Some cs' \<Longrightarrow> length cs' \<le> length cs"
  by (induction cs rule: block_comment.induct) (auto split: if_splits list.splits)

lemma scan_comment_length: "scan_comment cs = Inr cs' \<Longrightarrow> length cs' \<le> length cs"
  using line_comment_length [of "tl cs"] block_comment_length [of "tl cs" cs']
  by (auto simp: scan_comment_def split: list.splits if_splits option.splits)

lemma skip_whitespace_length: "length (skip_whitespace cs) \<le> length cs"
  by (simp add: skip_whitespace_def length_dropWhile_le)

function scan :: "(string \<Rightarrow> u64) \<Rightarrow> bool \<Rightarrow> string \<Rightarrow> token \<times> string" where
  "scan strtod ignore_comments cs =
     (case skip_whitespace cs of
        [] \<Rightarrow> scan_token strtod []
      | c # cs' \<Rightarrow>
          if ignore_comments \<and> c = CHR ''/'' then
            (case scan_comment cs' of
               Inl e \<Rightarrow> (ParseError e, cs')
             | Inr cs'' \<Rightarrow> scan strtod ignore_comments cs'')
          else scan_token strtod (c # cs'))"
  by pat_completeness auto

termination
proof (relation "measure (\<lambda>(_, _, cs). length cs)", goal_cases)
  case (2 strtod ignore_comments cs c cs' cs'')
  then show ?case
    using skip_whitespace_length [of cs] scan_comment_length [of cs' cs''] by simp
qed simp

declare scan.simps [simp del]

text \<open>\<open>skip_bom\<close>, which the first call of \<open>scan\<close> makes; \<open>None\<close> is an incomplete mark.\<close>

definition skip_bom :: "string \<Rightarrow> string option" where
  "skip_bom cs =
     (case cs of
        c # cs' \<Rightarrow>
          if byte c = 0xEF then
            (case cs' of
               d # e # cs'' \<Rightarrow> if byte d = 0xBB \<and> byte e = 0xBF then Some cs'' else None
             | _ \<Rightarrow> None)
          else Some cs
      | [] \<Rightarrow> Some [])"

end
