(* ===== verification/JsonParse.thy ===== *)
theory JsonParse
  imports JsonLex Json
begin

text \<open>
  The parser of \<^verbatim>\<open>json.hpp\<close> (\<open>parser::sax_parse_internal\<close> and \<open>json_sax_dom_parser\<close>): one loop over
  the tokens with an explicit stack of the open containers, no recursion. The source keeps a
  stack of flags and a stack of references into the value being built; here the open containers
  are frames that hold what they contain so far, and a container is put into its parent when it
  is closed, which gives the same value. All errors are exceptions; the numbers are those of the
  library (101: unexpected token, 406: a number that overflows a double).
\<close>

section \<open>Building the value\<close>

datatype frame =
    FArray "json list"
  | FObject "(string \<times> json) list" string

record dom =
  d_root :: json
  d_stack :: "frame list"

text \<open>\<open>handle_value\<close>, the frame on top being \<open>ref_stack.back()\<close>.\<close>

definition handle_value :: "json \<Rightarrow> dom \<Rightarrow> dom" where
  "handle_value v d =
     (case d_stack d of
        [] \<Rightarrow> d\<lparr>d_root := v\<rparr>
      | FArray vs # fs \<Rightarrow> d\<lparr>d_stack := FArray (vs @ [v]) # fs\<rparr>
      | FObject ms k # fs \<Rightarrow> d\<lparr>d_stack := FObject (put_member k v ms) k # fs\<rparr>)"

definition start_object :: "dom \<Rightarrow> dom" where
  "start_object d = d\<lparr>d_stack := FObject [] [] # d_stack d\<rparr>"

definition start_array :: "dom \<Rightarrow> dom" where
  "start_array d = d\<lparr>d_stack := FArray [] # d_stack d\<rparr>"

definition set_key :: "string \<Rightarrow> dom \<Rightarrow> dom" where
  "set_key k d = (case d_stack d of FObject ms _ # fs \<Rightarrow> d\<lparr>d_stack := FObject ms k # fs\<rparr> | _ \<Rightarrow> d)"

text \<open>\<open>end_object\<close> and \<open>end_array\<close>.\<close>

definition end_container :: "dom \<Rightarrow> dom" where
  "end_container d =
     (case d_stack d of
        [] \<Rightarrow> d
      | FArray vs # fs \<Rightarrow> handle_value (JArray vs) (d\<lparr>d_stack := fs\<rparr>)
      | FObject ms _ # fs \<Rightarrow> handle_value (JObject ms) (d\<lparr>d_stack := fs\<rparr>))"

section \<open>The loop\<close>

text \<open>The value of a token that is a whole value.\<close>

fun scalar_token :: "token \<Rightarrow> json res option" where
  "scalar_token (ValueFloat w) = Some (if double_finite w then Inr (JFloat w) else Inl (OutOfRange 406))"
| "scalar_token LiteralFalse = Some (Inr (JBool False))"
| "scalar_token LiteralNull = Some (Inr JNull)"
| "scalar_token LiteralTrue = Some (Inr (JBool True))"
| "scalar_token (ValueInteger n) = Some (Inr (JInt n))"
| "scalar_token (ValueString s) = Some (Inr (JString s))"
| "scalar_token (ValueUnsigned n) = Some (Inr (JInt (int n)))"
| "scalar_token _ = None"

text \<open>
  A key, its separator and the first token of its value: the token and the rest, or the
  exception. Both places of the loop that read a key do this.
\<close>

definition parse_key :: "(string \<Rightarrow> u64) \<Rightarrow> bool \<Rightarrow> token \<Rightarrow> string \<Rightarrow> (string \<times> token \<times> string) res" where
  "parse_key strtod ic tok cs =
     (case tok of
        ValueString k \<Rightarrow>
          (case scan strtod ic cs of
             (NameSeparator, cs1) \<Rightarrow> (case scan strtod ic cs1 of (tok2, cs2) \<Rightarrow> Inr (k, tok2, cs2))
           | _ \<Rightarrow> Inl (ParseErr 101))
      | _ \<Rightarrow> Inl (ParseErr 101))"

text \<open>
  \<open>start_value\<close> is the first half of an iteration, the switch over the last token; \<open>after_value\<close> the
  second, the evaluation of the state. Each says how the loop goes on: with the first half and a
  token, with the second half, or by returning.
\<close>

datatype next_step =
    Again token string "bool list" dom
  | Evaluate string "bool list" dom
  | Done string dom
  | Fail json_error

definition start_value :: "(string \<Rightarrow> u64) \<Rightarrow> bool \<Rightarrow> token \<Rightarrow> string \<Rightarrow> bool list \<Rightarrow> dom \<Rightarrow> next_step" where
  "start_value strtod ic tok cs states d =
     (case tok of
        BeginObject \<Rightarrow>
          (case scan strtod ic cs of
             (EndObject, cs1) \<Rightarrow> Evaluate cs1 states (end_container (start_object d))
           | (tok1, cs1) \<Rightarrow>
               (case parse_key strtod ic tok1 cs1 of
                  Inl e \<Rightarrow> Fail e
                | Inr (k, tok2, cs2) \<Rightarrow> Again tok2 cs2 (False # states) (set_key k (start_object d))))
      | BeginArray \<Rightarrow>
          (case scan strtod ic cs of
             (EndArray, cs1) \<Rightarrow> Evaluate cs1 states (end_container (start_array d))
           | (tok1, cs1) \<Rightarrow> Again tok1 cs1 (True # states) (start_array d))
      | _ \<Rightarrow>
          (case scalar_token tok of
             Some (Inr v) \<Rightarrow> Evaluate cs states (handle_value v d)
           | Some (Inl e) \<Rightarrow> Fail e
           | None \<Rightarrow> Fail (ParseErr 101)))"

definition after_value :: "(string \<Rightarrow> u64) \<Rightarrow> bool \<Rightarrow> string \<Rightarrow> bool list \<Rightarrow> dom \<Rightarrow> next_step" where
  "after_value strtod ic cs states d =
     (case states of
        [] \<Rightarrow> Done cs d
      | True # states' \<Rightarrow>
          (case scan strtod ic cs of
             (ValueSeparator, cs1) \<Rightarrow> (case scan strtod ic cs1 of (tok2, cs2) \<Rightarrow> Again tok2 cs2 states d)
           | (EndArray, cs1) \<Rightarrow> Evaluate cs1 states' (end_container d)
           | _ \<Rightarrow> Fail (ParseErr 101))
      | False # states' \<Rightarrow>
          (case scan strtod ic cs of
             (ValueSeparator, cs1) \<Rightarrow>
               (case scan strtod ic cs1 of
                  (tok2, cs2) \<Rightarrow>
                    (case parse_key strtod ic tok2 cs2 of
                       Inl e \<Rightarrow> Fail e
                     | Inr (k, tok3, cs3) \<Rightarrow> Again tok3 cs3 states (set_key k d)))
           | (EndObject, cs1) \<Rightarrow> Evaluate cs1 states' (end_container d)
           | _ \<Rightarrow> Fail (ParseErr 101)))"


subsection \<open>Every token shortens the input\<close>

lemma scan_literal_length: "scan_literal ls t cs = (t', cs') \<Longrightarrow> length cs' \<le> length cs"
  by (induction ls t cs rule: scan_literal.induct) (auto split: if_splits)

lemma scan_string_length: "scan_string cs buf = Inr (s, cs') \<Longrightarrow> length cs' < length cs"
proof (induction cs buf rule: scan_string.induct)
  case (2 c cs buf)
  note p = "2.prems" [unfolded scan_string.simps(2)]
  consider "c = CHR 0x22" | (esc) "c \<noteq> CHR 0x22" "c = CHR 0x5C"
    | (plain) "c \<noteq> CHR 0x22" "c \<noteq> CHR 0x5C" "\<not> byte c \<le> 0x1F" "plain_byte (byte c)"
    | (multi) "c \<noteq> CHR 0x22" "c \<noteq> CHR 0x5C" "\<not> byte c \<le> 0x1F" "\<not> plain_byte (byte c)"
    using p by (auto split: if_splits)
  then show ?case
  proof cases
    case esc
    then obtain bs cs1 where "scan_escape cs = Inr (bs, cs1)" "scan_string cs1 (buf @ bs) = Inr (s, cs')"
      using p by (auto split: sum.splits)
    then show ?thesis using "2.IH"(1) [OF esc _ refl] scan_escape_length by fastforce
  next
    case plain
    then show ?thesis using p "2.IH"(2) [OF plain] by simp
  next
    case multi
    then obtain rs bs cs1 where "follow_ranges (byte c) = Some rs" "next_byte_in_range rs cs = Some (bs, cs1)"
      "scan_string cs1 (buf @ c # bs) = Inr (s, cs')"
      using p by (auto split: option.splits)
    then show ?thesis using "2.IH"(3) [OF multi _ _ refl] next_byte_in_range_length by fastforce
  qed (use p in simp)
qed simp

lemma num_any2_length: "num_any2 buf cs = Inr (i, b, cs') \<Longrightarrow> length cs' \<le> length cs"
  by (induction buf cs rule: num_any2.induct) (auto split: if_splits)

lemma num_exponent_length: "num_exponent buf cs = Inr (i, b, cs') \<Longrightarrow> length cs' \<le> length cs"
  by (auto simp: num_exponent_def num_sign_def split: list.splits if_splits dest!: num_any2_length)

lemma num_decimal2_length: "num_decimal2 buf cs = Inr (i, b, cs') \<Longrightarrow> length cs' \<le> length cs"
  by (induction buf cs rule: num_decimal2.induct) (auto split: if_splits dest!: num_exponent_length)

lemma num_decimal1_length: "num_decimal1 buf cs = Inr (i, b, cs') \<Longrightarrow> length cs' \<le> length cs"
  by (auto simp: num_decimal1_def split: list.splits if_splits dest!: num_decimal2_length)

lemma num_any1_length: "num_any1 buf cs = Inr (i, b, cs') \<Longrightarrow> length cs' \<le> length cs"
  by (induction buf cs rule: num_any1.induct) (auto split: if_splits dest!: num_exponent_length num_decimal1_length)

lemma num_zero_length: "num_zero buf cs = Inr (i, b, cs') \<Longrightarrow> length cs' \<le> length cs"
  by (auto simp: num_zero_def split: list.splits if_splits dest!: num_exponent_length num_decimal1_length)

lemma num_minus_length: "num_minus buf cs = Inr (i, b, cs') \<Longrightarrow> length cs' \<le> length cs"
  by (auto simp: num_minus_def split: list.splits if_splits dest!: num_zero_length num_any1_length)

lemma scan_number_length: "scan_number strtod c cs = (t, cs') \<Longrightarrow> length cs' \<le> length cs"
  by (auto simp: scan_number_def Let_def split: sum.splits if_splits
      dest!: num_minus_length num_zero_length num_any1_length)

lemma scan_token_length: "scan_token strtod (c # cs) = (t, cs') \<Longrightarrow> length cs' \<le> length cs"
  by (auto simp: scan_token_def split: if_splits sum.splits
      dest!: scan_literal_length scan_string_length scan_number_length)

fun terminal :: "token \<Rightarrow> bool" where
  "terminal EndOfInput \<longleftrightarrow> True"
| "terminal (ParseError e) \<longleftrightarrow> True"
| "terminal _ \<longleftrightarrow> False"

lemma scan_length: "scan strtod ic cs = (t, cs') \<Longrightarrow> length cs' \<le> length cs \<and> (\<not> terminal t \<longrightarrow> length cs' < length cs)"
proof (induction strtod ic cs rule: scan.induct)
  case (1 strtod ic cs)
  have w: "length (skip_whitespace cs) \<le> length cs" by (rule skip_whitespace_length)
  show ?case
  proof (cases "skip_whitespace cs")
    case Nil
    then show ?thesis using "1.prems" by (auto simp: scan.simps [of _ _ cs] scan_token_def)
  next
    case (Cons c cs1)
    show ?thesis
    proof (cases "ic \<and> c = CHR ''/''")
      case True
      then show ?thesis
        using "1.prems" "1.IH" [OF Cons True] w Cons scan_comment_length [of cs1]
        by (fastforce simp: scan.simps [of _ _ cs] split: sum.splits)
    next
      case False
      then show ?thesis
        using "1.prems" w Cons scan_token_length [of strtod c cs1 t cs'] by (auto simp: scan.simps [of _ _ cs])
    qed
  qed
qed

lemma parse_key_length:
  "parse_key strtod ic tok cs = Inr (k, tok2, cs2) \<Longrightarrow> length cs2 < length cs"
  by (auto simp: parse_key_def split: token.splits prod.splits dest!: scan_length)

fun step_size :: "next_step \<Rightarrow> nat" where
  "step_size (Again tok cs states d) = (if terminal tok then 1 else 2 * length cs + 3)"
| "step_size (Evaluate cs states d) = 2 * length cs + 2"
| "step_size (Done cs d) = 0"
| "step_size (Fail e) = 0"

lemma start_value_size: "step_size (start_value strtod ic tok cs states d) < step_size (Again tok cs states d)"
proof -
  obtain t1 cs1 where s: "scan strtod ic cs = (t1, cs1)" by (cases "scan strtod ic cs")
  note l = scan_length [OF s]
  show ?thesis
  proof (cases tok)
    case BeginObject
    then show ?thesis
      using l parse_key_length [of strtod ic t1 cs1]
      by (cases t1) (auto simp: start_value_def s split: sum.splits)
  next
    case BeginArray
    then show ?thesis using l by (cases t1) (auto simp: start_value_def s)
  qed (simp_all add: start_value_def)
qed

lemma after_value_size: "step_size (after_value strtod ic cs states d) < step_size (Evaluate cs states d)"
proof (cases states)
  case (Cons st sts)
  obtain t1 cs1 where s: "scan strtod ic cs = (t1, cs1)" by (cases "scan strtod ic cs")
  obtain t2 cs2 where s2: "scan strtod ic cs1 = (t2, cs2)" by (cases "scan strtod ic cs1")
  note l = scan_length [OF s] scan_length [OF s2] parse_key_length [of strtod ic t2 cs2]
  show ?thesis
    using l Cons by (cases st; cases t1) (auto simp: after_value_def s s2 split: sum.splits)
qed (simp add: after_value_def)

subsection \<open>Running it\<close>

function sax_loop :: "(string \<Rightarrow> u64) \<Rightarrow> bool \<Rightarrow> next_step \<Rightarrow> (string \<times> dom) res" where
  "sax_loop strtod ic (Again tok cs states d) = sax_loop strtod ic (start_value strtod ic tok cs states d)"
| "sax_loop strtod ic (Evaluate cs states d) = sax_loop strtod ic (after_value strtod ic cs states d)"
| "sax_loop strtod ic (Done cs d) = Inr (cs, d)"
| "sax_loop strtod ic (Fail e) = Inl e"
  by pat_completeness auto

termination
  by (relation "measure (\<lambda>(_, _, s). step_size s)")
    (simp_all add: start_value_size after_value_size del: step_size.simps)

text \<open>\<open>parser::parse\<close> in strict mode; its constructor reads the first token.\<close>

definition empty_dom :: dom where
  "empty_dom = \<lparr>d_root = JNull, d_stack = []\<rparr>"

definition json_parse :: "(string \<Rightarrow> u64) \<Rightarrow> bool \<Rightarrow> string \<Rightarrow> json res" where
  "json_parse strtod ic s =
     (case skip_bom s of
        None \<Rightarrow> Inl (ParseErr 101)
      | Some cs \<Rightarrow>
          (case scan strtod ic cs of
             (tok, cs1) \<Rightarrow>
               (case sax_loop strtod ic (Again tok cs1 [] empty_dom) of
                  Inl e \<Rightarrow> Inl e
                | Inr (cs2, d) \<Rightarrow>
                    (case scan strtod ic cs2 of
                       (EndOfInput, _) \<Rightarrow> Inr (d_root d)
                     | _ \<Rightarrow> Inl (ParseErr 101)))))"

end
