(* ===== verification/JsonRound.thy ===== *)
theory JsonRound
  imports JsonDump JsonParse
begin

text \<open>
  The parser reads back what the serializer writes: strings, integers, and then values in both
  layouts, with and without the escaping of everything that is not ASCII.
\<close>

lemma char_of_literals:
  "char_of (8 :: nat) = CHR 0x08" "char_of (9 :: nat) = CHR 0x09" "char_of (10 :: nat) = CHR 0x0A"
  "char_of (12 :: nat) = CHR 0x0C" "char_of (13 :: nat) = CHR 0x0D" "char_of (34 :: nat) = CHR 0x22"
  "char_of (48 :: nat) = CHR ''0''" "char_of (92 :: nat) = CHR 0x5C"
  by code_simp+

section \<open>Strings\<close>

text \<open>The four hexadecimal digits.\<close>

lemma hex_lower_digit: "n < 16 \<Longrightarrow> hex_digit (hex_lower n) = Some n"
proof -
  have "list_all (\<lambda>n. hex_digit (hex_lower n) = Some n) [0..<16]" by code_simp
  then show "n < 16 \<Longrightarrow> ?thesis" by (simp add: list_all_iff)
qed

lemma get_codepoint_hex4: "n < 65536 \<Longrightarrow> get_codepoint (hex4 n @ cs) = Some (n, cs)"
proof -
  assume n: "n < 65536"
  define a b c d where abcd: "a = n div 4096" "b = n div 256 mod 16" "c = n div 16 mod 16" "d = n mod 16"
  have "n div 16 = (a * 16 + b) * 16 + c"
    using div_mult_mod_eq [of "n div 16" 16] div_mult_mod_eq [of "n div 256" 16]
      div_mult2_eq [of n 16 16] div_mult2_eq [of n 256 16] by (simp add: abcd)
  then have "n = ((a * 16 + b) * 16 + c) * 16 + d" using div_mult_mod_eq [of n 16] by (simp add: abcd)
  then have e: "n = a * 4096 + b * 256 + c * 16 + d" by simp
  have l: "a < 16" "b < 16" "c < 16" "d < 16" using n by (simp_all add: abcd)
  have "hex4 n = [hex_lower a, hex_lower b, hex_lower c, hex_lower d]"
    using l(1) by (simp add: hex4_def abcd)
  then show ?thesis using l e
    by (simp add: get_codepoint_def hex_lower_digit push_bit_eq_mult)
qed

lemma scan_u_escape:
  "n < 65536 \<Longrightarrow> scan_string (u_escape n @ cs) buf =
     (case unicode_escape (hex4 n @ cs) of Inl e \<Rightarrow> Inl e | Inr (bs, cs') \<Rightarrow> scan_string cs' (buf @ bs))"
  by (simp add: u_escape_def scan_string.simps(2) scan_escape_def)

lemma scan_u_escape_bmp:
  assumes "n < 0xD800 \<or> 0xE000 \<le> n" "n < 65536"
  shows "scan_string (u_escape n @ cs) buf = scan_string cs (buf @ codepoint_bytes n)"
  using assms by (auto simp: scan_u_escape unicode_escape_def get_codepoint_hex4)

lemma low10: "x AND 0x3FF = x mod 1024" for x :: nat
  using take_bit_eq_mask [of 10 x] by (simp add: take_bit_eq_mod mask_eq_exp_minus_1)

lemma scan_u_escape_pair:
  assumes "0x10000 \<le> cp" "cp \<le> 0x10FFFF"
  shows "scan_string ((u_escape (0xD7C0 + drop_bit 10 cp) @ u_escape (0xDC00 + (cp AND 0x3FF))) @ cs) buf =
    scan_string cs (buf @ codepoint_bytes cp)"
proof -
  define h l where hl: "h = 0xD7C0 + cp div 1024" "l = 0xDC00 + cp mod 1024"
  have h: "0xD800 \<le> h" "h \<le> 0xDBFF" "h < 65536" and l: "0xDC00 \<le> l" "l \<le> 0xDFFF" "l < 65536"
    using assms unfolding hl by linarith+
  have sum: "push_bit 10 h + l - 0x35FDC00 = cp"
    using div_mult_mod_eq [of cp 1024] by (simp add: hl push_bit_eq_mult)
  have "u_escape l = [CHR 0x5C, CHR ''u''] @ hex4 l" using l(3) by (simp add: u_escape_def)
  then have "unicode_escape (hex4 h @ u_escape l @ cs) = Inr (codepoint_bytes cp, cs)"
    using h l sum by (simp add: unicode_escape_def low_surrogate_def get_codepoint_hex4)
  then show ?thesis
    using scan_u_escape [OF h(3), of "u_escape l @ cs" buf] by (simp add: hl drop_bit_eq_div low10)
qed

lemma scan_plain_codepoint:
  assumes "scalar_value cp" "0x20 \<le> cp" "cp \<noteq> 0x22" "cp \<noteq> 0x5C"
  shows "scan_string (codepoint_bytes cp @ cs) buf = scan_string cs (buf @ codepoint_bytes cp)"
proof (cases "cp < 0x80")
  case True
  have "char_of cp \<noteq> CHR 0x22 \<and> char_of cp \<noteq> CHR 0x5C"
    using assms(3,4) True by (auto dest: arg_cong [of _ _ "of_char :: char \<Rightarrow> nat"])
  then show ?thesis using assms(2) True by (simp add: codepoint_bytes_1 scan_string.simps(2))
next
  case False
  then have "0x80 \<le> cp" by simp
  from ranges_accept_encoding [OF assms(1) this] obtain c bs rs where e: "codepoint_bytes cp = c # bs"
    "follow_ranges (byte c) = Some rs" "0x80 \<le> byte c"
    "\<And>cs. next_byte_in_range rs (bs @ cs) = Some (bs, cs)" by blast
  then have "c \<noteq> CHR 0x22 \<and> c \<noteq> CHR 0x5C" by auto
  then show ?thesis using e by (simp add: scan_string.simps(2))
qed

lemma escape_codepoint_None: "escape_codepoint ea cp = None \<Longrightarrow> 0x20 \<le> cp \<and> cp \<noteq> 0x22 \<and> cp \<noteq> 0x5C"
  by (auto simp: escape_codepoint_def split: if_splits)

lemma scan_escaped:
  assumes "scalar_value cp"
  shows "scan_string (escaped ea cp @ cs) buf = scan_string cs (buf @ codepoint_bytes cp)"
proof (cases "escape_codepoint ea cp")
  case None
  then show ?thesis using scan_plain_codepoint [OF assms] escape_codepoint_None by (simp add: escaped_def)
next
  case (Some t)
  note sh = scan_string.simps(2) scan_escape_def codepoint_bytes_1
  consider "cp = 0x08" | "cp = 0x09" | "cp = 0x0A" | "cp = 0x0C" | "cp = 0x0D" | "cp = 0x22" | "cp = 0x5C"
    | (bmp) "t = u_escape cp" "cp \<le> 0xFFFF"
    | (pair) "t = u_escape (0xD7C0 + drop_bit 10 cp) @ u_escape (0xDC00 + (cp AND 0x3FF))" "0x10000 \<le> cp"
    using Some by (auto simp: escape_codepoint_def split: if_splits)
  then show ?thesis
  proof cases
    case bmp
    then show ?thesis using Some assms scan_u_escape_bmp [of cp] by (auto simp: escaped_def scalar_value_def)
  next
    case pair
    then show ?thesis using Some assms scan_u_escape_pair [of cp cs buf] by (simp add: escaped_def scalar_value_def)
  qed (simp_all add: escaped_def escape_codepoint_def sh char_of_literals)
qed

lemma scan_escaped_text:
  "list_all scalar_value cps \<Longrightarrow>
     scan_string (concat (map (escaped ea) cps) @ CHR 0x22 # cs) buf = Inr (buf @ concat (map codepoint_bytes cps), cs)"
proof (induction cps arbitrary: buf)
  case (Cons cp cps)
  then show ?case using scan_escaped [of cp ea "concat (map (escaped ea) cps) @ CHR 0x22 # cs" buf] by simp
qed (simp add: scan_string.simps(2))

lemma string_round_trip:
  assumes "utf8_text s"
  obtains t where "dump_escaped Strict ea s = Inr t" "\<And>cs. scan_string (t @ CHR 0x22 # cs) [] = Inr (s, cs)"
proof -
  obtain cps where "list_all scalar_value cps" "s = concat (map codepoint_bytes cps)"
    using assms by (auto simp: utf8_text_def)
  then show ?thesis using that dump_escaped_text scan_escaped_text by simp
qed


section \<open>Integers\<close>

lemma count_digits_loop: "count_digits_loop x n + 1 = n + length (to_string x)"
proof (induction x n rule: count_digits_loop.induct)
  case (1 x n)
  consider "x < 10" | "10 \<le> x" "x < 100" | "100 \<le> x" "x < 1000" | "1000 \<le> x" "x < 10000" | "10000 \<le> x" by linarith
  then show ?case
  proof cases
    case 5
    have "x div 10 div 10 div 10 div 10 = x div 10000" by (simp add: div_mult2_eq [symmetric])
    moreover have "10 \<le> x div 10" "10 \<le> x div 10 div 10" "10 \<le> x div 10 div 10 div 10" using 5 by linarith+
    ultimately have "length (to_string x) = length (to_string (x div 10000)) + 4"
      using 5 by (simp add: to_string_step)
    then show ?thesis using 1 5 by (simp add: count_digits_loop.simps [of x])
  qed (simp_all add: count_digits_loop.simps [of x] to_string_step to_string_digit)
qed

lemma count_digits: "count_digits x = length (to_string x)"
  using count_digits_loop [of x 1] by (simp add: count_digits_def)

lemma update_two:
  "2 \<le> p \<Longrightarrow> p \<le> length buf \<Longrightarrow> buf[p - 1 := x, p - 2 := y] = take (p - 2) buf @ [y, x] @ drop p buf"
  by (rule nth_equalityI) (auto simp: nth_append nth_list_update nth_Cons split: nat.splits intro!: arg_cong [where f = "(!) buf"])

lemma update_one: "1 \<le> p \<Longrightarrow> p \<le> length buf \<Longrightarrow> buf[p - 1 := x] = take (p - 1) buf @ [x] @ drop p buf"
  by (rule nth_equalityI) (auto simp: nth_append nth_list_update nth_Cons split: nat.splits intro!: arg_cong [where f = "(!) buf"])

lemma to_string_100: "100 \<le> n \<Longrightarrow> to_string n = to_string (n div 100) @ [digits_to_99 (n mod 100) 0, digits_to_99 (n mod 100) 1]"
proof -
  assume n: "100 \<le> n"
  then have "10 \<le> n div 10" by linarith
  moreover have "n mod 100 div 10 = n div 10 mod 10" "n mod 100 mod 10 = n mod 10" "n div 10 div 10 = n div 100"
    using mod_mult2_eq [of n 10 10] by (simp_all add: div_mult2_eq [symmetric])
  ultimately show ?thesis using n by (simp add: to_string_step digits_to_99_def)
qed

lemma fill_digits:
  "length (to_string n) \<le> p \<Longrightarrow> p \<le> length buf \<Longrightarrow>
     fill_digits n p buf = take (p - length (to_string n)) buf @ to_string n @ drop p buf"
proof (induction n p buf rule: fill_digits.induct)
  case (1 n p buf)
  consider "100 \<le> n" | "10 \<le> n" "n < 100" | "n < 10" by linarith
  then show ?case
  proof cases
    case 1
    let ?b = "buf[p - 1 := digits_to_99 (n mod 100) 1, p - 2 := digits_to_99 (n mod 100) 0]"
    have l: "length (to_string n) = length (to_string (n div 100)) + 2" using to_string_100 [OF 1] by simp
    then have p: "2 \<le> p" "length (to_string (n div 100)) \<le> p - 2" "p - 2 \<le> length ?b" using "1.prems" by auto
    have "fill_digits n p buf = fill_digits (n div 100) (p - 2) ?b" using 1 by (simp add: fill_digits.simps [of n])
    also have "\<dots> = take (p - 2 - length (to_string (n div 100))) ?b @ to_string (n div 100) @ drop (p - 2) ?b"
      using "1.IH" [OF _ p(2,3)] 1 by simp
    also have "\<dots> = take (p - length (to_string n)) buf @ to_string n @ drop p buf"
      using update_two [OF p(1) "1.prems"(2)] p "1.prems"(2) l to_string_100 [OF 1] by simp
    finally show ?thesis .
  next
    case 2
    then have s: "to_string n = [digits_to_99 n 0, digits_to_99 n 1]"
      by (simp add: to_string_step to_string_digit digits_to_99_def)
    then have "2 \<le> p" using "1.prems" by simp
    from update_two [OF this "1.prems"(2)] show ?thesis using 2 s by (simp add: fill_digits.simps [of n] numeral_2_eq_2)
  next
    case 3
    then have s: "to_string n = [char_of (48 + n)]" by (simp add: to_string_digit)
    then have "1 \<le> p" using "1.prems" by simp
    from update_one [OF this "1.prems"(2)] show ?thesis using 3 s by (simp add: fill_digits.simps [of n])
  qed
qed

lemma dump_integer:
  assumes "- (2 ^ 63) \<le> x" "x < 2 ^ 64"
  shows "dump_integer x = (if x < 0 then ''-'' else []) @ to_string (nat \<bar>x\<bar>)"
proof (cases "x = 0")
  case True
  then show ?thesis by (simp add: dump_integer_def to_string_digit char_of_literals)
next
  case False
  have a: "(if x < 0 then remove_sign x else nat x) = nat \<bar>x\<bar>" using False by (simp add: remove_sign_def) arith
  have "nat \<bar>x\<bar> < 10 ^ 20" using assms by simp
  then have l: "length (to_string (nat \<bar>x\<bar>)) \<le> 20" by (rule length_to_string) simp
  let ?b = "replicate 64 (CHR 0x00)"
  have b: "?b[0 := CHR ''-''] = CHR ''-'' # replicate 63 (CHR 0x00)" by (simp add: numeral_eq_Suc)
  show ?thesis
    using False a l fill_digits [of "nat \<bar>x\<bar>" "Suc (length (to_string (nat \<bar>x\<bar>)))" "?b[0 := CHR ''-'']"]
      fill_digits [of "nat \<bar>x\<bar>" "length (to_string (nat \<bar>x\<bar>))" ?b]
    by (cases "x < 0") (simp_all add: dump_integer_def Let_def count_digits b)
qed

text \<open>Reading them.\<close>

lemma foldl_digits: "foldl (\<lambda>n c. n * 10 + (byte c - 48)) a (xs @ ys) = foldl (\<lambda>n c. n * 10 + (byte c - 48)) (foldl (\<lambda>n c. n * 10 + (byte c - 48)) a xs) ys"
  by (rule foldl_append)

lemma digits_value_to_string: "digits_value (to_string n) = n"
proof (induction n rule: to_string.induct)
  case (1 n)
  show ?case
  proof (cases "n < 10")
    case True
    then show ?thesis by (simp add: digits_value_def to_string_digit)
  next
    case False
    have "digits_value (to_string n) = digits_value (to_string (n div 10)) * 10 + n mod 10"
      using False by (simp add: digits_value_def to_string_step digit_char)
    then show ?thesis using "1.IH" False by simp
  qed
qed

definition delimited :: "string \<Rightarrow> bool" where
  "delimited cs \<longleftrightarrow> (case cs of [] \<Rightarrow> True | c # _ \<Rightarrow> c = CHR '','' \<or> c = CHR ''}'' \<or> c = CHR '']'' \<or> c = CHR 0x0A)"

lemma num_any1_digits:
  "list_all isdigit ds \<Longrightarrow> delimited cs \<Longrightarrow> num_any1 buf (ds @ cs) = Inr (True, buf @ ds, cs)"
proof (induction ds arbitrary: buf)
  case Nil
  then show ?case by (cases cs) (auto simp: delimited_def isdigit_def)
qed simp

lemma to_string_first: "0 < n \<Longrightarrow> hd (to_string n) \<noteq> CHR ''0''"
proof (induction n rule: to_string.induct)
  case (1 n)
  show ?case
  proof (cases "n < 10")
    case True
    have "byte (char_of (48 + n) :: char) = 48 + n" using True by simp
    then have "char_of (48 + n) \<noteq> CHR ''0''" using 1 by (auto dest: arg_cong [of _ _ "of_char :: char \<Rightarrow> nat"])
    then show ?thesis using True by (simp add: to_string_digit)
  next
    case False
    then show ?thesis using "1.IH" by (simp add: to_string_step)
  qed
qed

lemma scan_digits:
  assumes "delimited cs"
  shows "(if hd (to_string n) = CHR ''0'' then num_zero (b @ [hd (to_string n)]) (tl (to_string n) @ cs)
     else num_any1 (b @ [hd (to_string n)]) (tl (to_string n) @ cs)) = Inr (True, b @ to_string n, cs)"
proof (cases "n = 0")
  case True
  then show ?thesis using assms by (cases cs) (auto simp: to_string_digit num_zero_def delimited_def char_of_literals)
next
  case False
  have "to_string n = hd (to_string n) # tl (to_string n)" by simp
  moreover have "list_all isdigit (tl (to_string n))" using to_string_isdigit [of n] by (cases "to_string n") auto
  ultimately show ?thesis using num_any1_digits [OF _ assms, of "tl (to_string n)"] to_string_first [of n] False by simp
qed


lemma digit_not_special:
  assumes "isdigit h"
  shows "h \<noteq> CHR ''[''" "h \<noteq> CHR '']''" "h \<noteq> CHR ''{''" "h \<noteq> CHR ''}''" "h \<noteq> CHR '':''" "h \<noteq> CHR '',''"
    "h \<noteq> CHR ''t''" "h \<noteq> CHR ''f''" "h \<noteq> CHR ''n''" "h \<noteq> CHR 0x22" "h \<noteq> CHR ''/''" "\<not> is_ws h"
  using assms by (auto simp: isdigit_def is_ws_def)

lemma scan_integer_token:
  assumes "- (2 ^ 63) \<le> x" "x < 2 ^ 64" "delimited cs"
  shows "\<exists>tok. scan_token strtod (dump_integer x @ cs) = (tok, cs) \<and> scalar_token tok = Some (Inr (JInt x)) \<and>
    tok \<noteq> BeginObject \<and> tok \<noteq> BeginArray"
proof (cases "x < 0")
  case True
  let ?n = "nat \<bar>x\<bar>"
  obtain h ds where s: "to_string ?n = h # ds" by (cases "to_string ?n") auto
  have d: "isdigit h" using to_string_isdigit [of ?n] s by simp
  have "num_minus [CHR ''-''] (to_string ?n @ cs) = Inr (True, CHR ''-'' # to_string ?n, cs)"
    using scan_digits [OF assms(3), of ?n "[CHR ''-'']"] d
    by (simp add: num_minus_def s split: if_splits)
  moreover have "digits_value (to_string ?n) \<le> 2 ^ 63" using assms(1) True by (simp add: digits_value_to_string)
  ultimately have "scan_token strtod (dump_integer x @ cs) = (ValueInteger x, cs)"
    using True assms(1,2)
    by (simp add: dump_integer scan_token_def scan_number_def Let_def convert_number_def digits_value_to_string)
  then show ?thesis by simp
next
  case False
  let ?n = "nat x"
  obtain h ds where s: "to_string ?n = h # ds" by (cases "to_string ?n") auto
  have d: "isdigit h" using to_string_isdigit [of ?n] s by simp
  have r: "scan_number strtod h (ds @ cs) = (ValueUnsigned ?n, cs)"
  proof -
    have h: "h \<noteq> CHR ''-''" using d by (auto simp: isdigit_def)
    have n: "?n < 2 ^ 64" using False assms(2) by (simp add: nat_less_iff)
    have v: "digits_value (h # ds) = ?n" using digits_value_to_string [of ?n] s by simp
    show ?thesis
      using scan_digits [OF assms(3), of ?n "[]"] h n v
      by (simp add: scan_number_def Let_def s convert_number_def split: if_splits)
  qed
  have "scan_token strtod (h # ds @ cs) = scan_number strtod h (ds @ cs)"
    using digit_not_special [OF d] d by (simp add: scan_token_def)
  then have "scan_token strtod (dump_integer x @ cs) = (ValueUnsigned ?n, cs)"
    using False assms(1,2) r s by (simp add: dump_integer)
  then show ?thesis using False by simp
qed

section \<open>Tokens after white space\<close>

lemma scan_first:
  assumes "\<not> is_ws c" "c \<noteq> CHR ''/''"
  shows "scan strtod ic (c # cs) = scan_token strtod (c # cs)"
  using assms by (simp add: scan.simps [of _ _ "c # cs"] skip_whitespace_def)

lemma scan_ws: "list_all is_ws ws \<Longrightarrow> scan strtod ic (ws @ cs) = scan strtod ic cs"
proof -
  assume "list_all is_ws ws"
  then have "skip_whitespace (ws @ cs) = skip_whitespace cs" by (induction ws) (simp_all add: skip_whitespace_def)
  then show ?thesis by (simp add: scan.simps [of _ _ "ws @ cs"] scan.simps [of _ _ cs])
qed

lemma scan_punctuation:
  "scan strtod ic (CHR '','' # cs) = (ValueSeparator, cs)" "scan strtod ic (CHR '':'' # cs) = (NameSeparator, cs)"
  "scan strtod ic (CHR ''['' # cs) = (BeginArray, cs)" "scan strtod ic (CHR '']'' # cs) = (EndArray, cs)"
  "scan strtod ic (CHR ''{'' # cs) = (BeginObject, cs)" "scan strtod ic (CHR ''}'' # cs) = (EndObject, cs)"
  by (simp_all add: scan_first is_ws_def scan_token_def)

lemma scan_literals:
  "scan strtod ic (''null'' @ cs) = (LiteralNull, cs)" "scan strtod ic (''true'' @ cs) = (LiteralTrue, cs)"
  "scan strtod ic (''false'' @ cs) = (LiteralFalse, cs)"
  by (simp_all add: scan_first is_ws_def scan_token_def)

lemma scan_quoted:
  "scan_string (t @ CHR 0x22 # cs) [] = Inr (s, cs) \<Longrightarrow> scan strtod ic (CHR 0x22 # t @ CHR 0x22 # cs) = (ValueString s, cs)"
  by (simp add: scan_first is_ws_def scan_token_def)

section \<open>Values\<close>

text \<open>
  What can be read back: text in UTF-8, integers of 64 bits, objects whose members are in the order of their
  keys (as the library keeps them), no floating-point numbers.
\<close>

fun printable :: "json \<Rightarrow> bool" where
  "printable JNull \<longleftrightarrow> True"
| "printable (JBool b) \<longleftrightarrow> True"
| "printable (JInt n) \<longleftrightarrow> - (2 ^ 63) \<le> n \<and> n < 2 ^ 64"
| "printable (JFloat w) \<longleftrightarrow> False"
| "printable (JString s) \<longleftrightarrow> utf8_text s"
| "printable (JArray vs) \<longleftrightarrow> (\<forall>v \<in> set vs. printable v)"
| "printable (JObject ms) \<longleftrightarrow> sorted_wrt (<) (map fst ms) \<and> (\<forall>m \<in> set ms. utf8_text (fst m) \<and> printable (snd m))"

definition good_layout :: "layout \<Rightarrow> bool" where
  "good_layout L \<longleftrightarrow> handler L = Strict \<and> (pretty L \<longrightarrow> is_ws (indent_char L))"

lemma indent_ws: "good_layout L \<Longrightarrow> list_all is_ws (indent L n)"
  by (auto simp: good_layout_def indent_def list_all_iff is_ws_def)

lemma newline_ws: "list_all is_ws (newline L)"
  by (simp add: newline_def is_ws_def)

lemma delimited_newline: "delimited (newline L @ indent L n @ c # cs)" if "c = CHR ''}'' \<or> c = CHR '']''"
  using that by (auto simp: delimited_def newline_def indent_def)

text \<open>
  A text \<open>t\<close> is read as the value \<open>v\<close>: from wherever the loop stands, it reads \<open>t\<close>, hands \<open>v\<close> to the handler and
  goes on with the evaluation of the state.
\<close>

definition reads_value :: "(string \<Rightarrow> u64) \<Rightarrow> bool \<Rightarrow> string \<Rightarrow> json \<Rightarrow> bool" where
  "reads_value strtod ic t v \<longleftrightarrow>
     (\<forall>cs states d. delimited cs \<longrightarrow>
       (\<exists>tok cs1. scan strtod ic (t @ cs) = (tok, cs1) \<and> tok \<noteq> EndArray \<and>
          sax_loop strtod ic (Again tok cs1 states d) = sax_loop strtod ic (Evaluate cs states (handle_value v d))))"


lemma reads_valueI:
  assumes "\<And>cs. delimited cs \<Longrightarrow> \<exists>tok. scan strtod ic (t @ cs) = (tok, cs) \<and> scalar_token tok = Some (Inr v)"
  shows "reads_value strtod ic t v"
  unfolding reads_value_def
proof (intro allI impI)
  fix cs states d
  assume "delimited cs"
  then obtain tok where t: "scan strtod ic (t @ cs) = (tok, cs)" "scalar_token tok = Some (Inr v)" using assms by blast
  then have "start_value strtod ic tok cs states d = Evaluate cs states (handle_value v d)" "tok \<noteq> EndArray"
    by (auto simp: start_value_def split: token.splits)
  then show "\<exists>tok cs1. scan strtod ic (t @ cs) = (tok, cs1) \<and> tok \<noteq> EndArray \<and>
      sax_loop strtod ic (Again tok cs1 states d) = sax_loop strtod ic (Evaluate cs states (handle_value v d))"
    using t(1) by (intro exI [of _ tok] exI [of _ cs]) (simp only: sax_loop.simps simp_thms)
qed

lemma reads_valueE:
  assumes "reads_value strtod ic t v" "delimited cs"
  obtains tok cs1 where "scan strtod ic (t @ cs) = (tok, cs1)" "tok \<noteq> EndArray"
    "sax_loop strtod ic (Again tok cs1 states d) = sax_loop strtod ic (Evaluate cs states (handle_value v d))"
  using assms unfolding reads_value_def by blast

lemma reads_int:
  assumes "- (2 ^ 63) \<le> x" "x < 2 ^ 64"
  shows "reads_value strtod ic (dump_integer x) (JInt x)"
proof (rule reads_valueI)
  fix cs
  assume d: "delimited cs"
  obtain c t where c: "dump_integer x = c # t" "\<not> is_ws c" "c \<noteq> CHR ''/''"
  proof -
    obtain h ds where s: "to_string (nat \<bar>x\<bar>) = h # ds" by (cases "to_string (nat \<bar>x\<bar>)") auto
    then have "isdigit h" using to_string_isdigit [of "nat \<bar>x\<bar>"] by simp
    then show ?thesis
      using that dump_integer [OF assms] s digit_not_special [of h] by (cases "x < 0") (auto simp: is_ws_def)
  qed
  then have "scan strtod ic (dump_integer x @ cs) = scan_token strtod (dump_integer x @ cs)" by (simp add: scan_first)
  then show "\<exists>tok. scan strtod ic (dump_integer x @ cs) = (tok, cs) \<and> scalar_token tok = Some (Inr (JInt x))"
    using scan_integer_token [OF assms d, of strtod] by auto
qed

lemma reads_scalars:
  "reads_value strtod ic ''null'' JNull"
  "reads_value strtod ic (if b then ''true'' else ''false'') (JBool b)"
  by (rule reads_valueI, use scan_literals in \<open>auto split: if_splits\<close>)+

lemma reads_string:
  assumes "utf8_text s"
  shows "\<exists>t. dump_escaped Strict ea s = Inr t \<and> reads_value strtod ic (CHR 0x22 # t @ [CHR 0x22]) (JString s)"
proof -
  obtain t where t: "dump_escaped Strict ea s = Inr t" "\<And>cs. scan_string (t @ CHR 0x22 # cs) [] = Inr (s, cs)"
    using string_round_trip [OF assms] by blast
  have "reads_value strtod ic (CHR 0x22 # t @ [CHR 0x22]) (JString s)"
    by (rule reads_valueI) (use scan_quoted [OF t(2)] in auto)
  with t(1) show ?thesis by blast
qed

text \<open>The members of an object, from the scan of the first key to the closing brace.\<close>

abbreviation put_members :: "(string \<times> json) list \<Rightarrow> (string \<times> json) list \<Rightarrow> (string \<times> json) list" where
  "put_members ms acc \<equiv> fold (\<lambda>(k, v). put_member k v) ms acc"

definition readable :: "(string \<Rightarrow> u64) \<Rightarrow> bool \<Rightarrow> (u64 \<Rightarrow> string) \<Rightarrow> layout \<Rightarrow> json \<Rightarrow> bool" where
  "readable strtod ic ftoa L v \<longleftrightarrow> (\<forall>cur. \<exists>t. json_dump ftoa L cur v = Inr t \<and> reads_value strtod ic t v)"

definition members_at :: "(string \<Rightarrow> u64) \<Rightarrow> bool \<Rightarrow> string \<Rightarrow> string \<Rightarrow> (string \<times> json) list \<Rightarrow> bool" where
  "members_at strtod ic X cs ms \<longleftrightarrow>
     (\<forall>states root acc k0 fs. \<exists>tok1 cs1 k tok2 cs2.
        scan strtod ic X = (tok1, cs1) \<and> tok1 \<noteq> EndObject \<and> parse_key strtod ic tok1 cs1 = Inr (k, tok2, cs2) \<and>
        sax_loop strtod ic (Again tok2 cs2 (False # states) (set_key k \<lparr>d_root = root, d_stack = FObject acc k0 # fs\<rparr>)) =
        sax_loop strtod ic (Evaluate cs states (handle_value (JObject (put_members ms acc)) \<lparr>d_root = root, d_stack = fs\<rparr>)))"

text \<open>After the value of a member: the closing brace, or a comma and more members.\<close>

definition rest_at :: "(string \<Rightarrow> u64) \<Rightarrow> bool \<Rightarrow> string \<Rightarrow> string \<Rightarrow> (string \<times> json) list \<Rightarrow> bool" where
  "rest_at strtod ic X cs ms \<longleftrightarrow>
     (\<forall>states root acc k fs.
        sax_loop strtod ic (Evaluate X (False # states) \<lparr>d_root = root, d_stack = FObject acc k # fs\<rparr>) =
        sax_loop strtod ic (Evaluate cs states (handle_value (JObject (put_members ms acc)) \<lparr>d_root = root, d_stack = fs\<rparr>)))"

lemma rest_at_close:
  assumes "good_layout L"
  shows "rest_at strtod ic (newline L @ indent L n @ CHR ''}'' # cs) cs []"
proof -
  have "scan strtod ic (newline L @ indent L n @ CHR ''}'' # cs) = (EndObject, cs)"
    using scan_ws [OF newline_ws] scan_ws [OF indent_ws [OF assms]] scan_punctuation by metis
  then show ?thesis by (simp add: rest_at_def after_value_def end_container_def)
qed

lemma rest_at_comma:
  assumes "members_at strtod ic Y cs ms"
  shows "rest_at strtod ic (CHR '','' # newline L @ Y) cs ms"
  unfolding rest_at_def
proof (intro allI)
  fix states root acc k fs
  let ?d = "\<lparr>d_root = root, d_stack = FObject acc k # fs\<rparr>"
  obtain tok1 cs1 k2 tok3 cs3 where i: "scan strtod ic Y = (tok1, cs1)" "parse_key strtod ic tok1 cs1 = Inr (k2, tok3, cs3)"
    "sax_loop strtod ic (Again tok3 cs3 (False # states) (set_key k2 ?d)) =
     sax_loop strtod ic (Evaluate cs states (handle_value (JObject (put_members ms acc)) \<lparr>d_root = root, d_stack = fs\<rparr>))"
    using assms unfolding members_at_def by blast
  have "after_value strtod ic (CHR '','' # newline L @ Y) (False # states) ?d = Again tok3 cs3 (False # states) (set_key k2 ?d)"
    using i(1,2) scan_ws [OF newline_ws, of strtod ic L Y] by (simp add: after_value_def scan_punctuation)
  with i(3) show "sax_loop strtod ic (Evaluate (CHR '','' # newline L @ Y) (False # states) ?d) =
      sax_loop strtod ic (Evaluate cs states (handle_value (JObject (put_members ms acc)) \<lparr>d_root = root, d_stack = fs\<rparr>))"
    by simp
qed

definition member_text :: "layout \<Rightarrow> nat \<Rightarrow> string \<Rightarrow> string \<Rightarrow> string" where
  "member_text L cur key t =
     indent L cur @ [CHR 0x22] @ key @ [CHR 0x22] @ '':'' @ (if pretty L then '' '' else []) @ t"

lemma members_at_member:
  assumes L: "good_layout L" and key: "\<And>cs. scan_string (key @ CHR 0x22 # cs) [] = Inr (k, cs)"
    and tv: "reads_value strtod ic tv v" and X: "delimited X" "rest_at strtod ic X cs ms"
  shows "members_at strtod ic (member_text L cur key tv @ X) cs ((k, v) # ms)"
  unfolding members_at_def
proof (intro allI)
  fix states root acc k0 fs
  let ?sp = "if pretty L then '' '' else []"
  let ?d = "set_key k \<lparr>d_root = root, d_stack = FObject acc k0 # fs\<rparr>"
  have first: "scan strtod ic (member_text L cur key tv @ X) = (ValueString k, CHR '':'' # ?sp @ tv @ X)"
    using scan_ws [OF indent_ws [OF L], of strtod ic cur "CHR 0x22 # key @ CHR 0x22 # CHR '':'' # ?sp @ tv @ X"]
      scan_quoted [OF key, of strtod ic "CHR '':'' # ?sp @ tv @ X"]
    by (simp add: member_text_def)
  obtain tok2 cs2 where s: "scan strtod ic (tv @ X) = (tok2, cs2)"
    "sax_loop strtod ic (Again tok2 cs2 (False # states) ?d) =
     sax_loop strtod ic (Evaluate X (False # states) (handle_value v ?d))"
    using reads_valueE [OF tv X(1)] by metis
  have sp: "list_all is_ws ?sp" by (simp add: is_ws_def)
  have pk: "parse_key strtod ic (ValueString k) (CHR '':'' # ?sp @ tv @ X) = Inr (k, tok2, cs2)"
    using s(1) scan_ws [OF sp, of strtod ic "tv @ X"] by (simp add: parse_key_def scan_punctuation)
  have "handle_value v ?d = \<lparr>d_root = root, d_stack = FObject (put_member k v acc) k # fs\<rparr>"
    by (simp add: handle_value_def set_key_def)
  then have e: "sax_loop strtod ic (Again tok2 cs2 (False # states) ?d) =
      sax_loop strtod ic (Evaluate cs states (handle_value (JObject (put_members ((k, v) # ms) acc)) \<lparr>d_root = root, d_stack = fs\<rparr>))"
    using s(2) X(2) unfolding rest_at_def by simp
  show "\<exists>tok1 cs1 k' tok2 cs2. scan strtod ic (member_text L cur key tv @ X) = (tok1, cs1) \<and> tok1 \<noteq> EndObject \<and>
      parse_key strtod ic tok1 cs1 = Inr (k', tok2, cs2) \<and>
      sax_loop strtod ic (Again tok2 cs2 (False # states) (set_key k' \<lparr>d_root = root, d_stack = FObject acc k0 # fs\<rparr>)) =
      sax_loop strtod ic (Evaluate cs states (handle_value (JObject (put_members ((k, v) # ms) acc)) \<lparr>d_root = root, d_stack = fs\<rparr>))"
    by (intro exI conjI, rule first, simp, rule pk, rule e)
qed

lemma reads_members:
  assumes L: "good_layout L"
  shows "ms \<noteq> [] \<Longrightarrow> (\<And>m. m \<in> set ms \<Longrightarrow> utf8_text (fst m) \<and> readable strtod ic ftoa L (snd m)) \<Longrightarrow>
    \<exists>t. dump_members ftoa L cur ms = Inr t \<and>
      (\<forall>cs n. members_at strtod ic (t @ newline L @ indent L n @ CHR ''}'' # cs) cs ms)"
proof (induction ms)
  case (Cons m ms)
  obtain k v where m: "m = (k, v)" by (cases m)
  have h: "handler L = Strict" using L by (simp add: good_layout_def)
  obtain key where key: "dump_escaped Strict (ascii L) k = Inr key"
    "\<And>cs. scan_string (key @ CHR 0x22 # cs) [] = Inr (k, cs)"
    using string_round_trip Cons.prems(2) [of m] m by (metis fst_conv list.set_intros(1))
  obtain tv where tv: "json_dump ftoa L cur v = Inr tv" "reads_value strtod ic tv v"
    using Cons.prems(2) [of m] m by (auto simp: readable_def)
  note at = members_at_member [OF L key(2) tv(2)]
  show ?case
  proof (cases "ms = []")
    case True
    have "members_at strtod ic (member_text L cur key tv @ newline L @ indent L n @ CHR ''}'' # cs) cs (m # ms)" for cs n
      unfolding m True by (rule at) (simp_all add: delimited_newline rest_at_close [OF L])
    moreover have "dump_members ftoa L cur (m # ms) = Inr (member_text L cur key tv)"
      using key(1) tv(1) h m True by (simp add: member_text_def Let_def)
    ultimately show ?thesis by blast
  next
    case False
    have "\<exists>t. dump_members ftoa L cur ms = Inr t \<and>
        (\<forall>cs n. members_at strtod ic (t @ newline L @ indent L n @ CHR ''}'' # cs) cs ms)"
      by (rule Cons.IH) (use Cons.prems(2) False in auto)
    then obtain rest where rest: "dump_members ftoa L cur ms = Inr rest"
      "\<And>cs n. members_at strtod ic (rest @ newline L @ indent L n @ CHR ''}'' # cs) cs ms" by blast
    let ?t = "member_text L cur key tv @ '','' @ newline L @ rest"
    have "members_at strtod ic (member_text L cur key tv @ CHR '','' # newline L @ rest @ newline L @ indent L n @ CHR ''}'' # cs)
        cs ((k, v) # ms)" for cs n
      by (rule at) (use rest_at_comma [OF rest(2)] in \<open>simp_all add: delimited_def\<close>)
    then have "members_at strtod ic (?t @ newline L @ indent L n @ CHR ''}'' # cs) cs (m # ms)" for cs n by (simp add: m)
    moreover have "dump_members ftoa L cur (m # ms) = Inr ?t"
      using key(1) tv(1) h m False rest(1) by (simp add: member_text_def Let_def)
    ultimately show ?thesis by blast
  qed
qed simp

text \<open>The elements of an array likewise.\<close>

definition elements_at :: "(string \<Rightarrow> u64) \<Rightarrow> bool \<Rightarrow> string \<Rightarrow> string \<Rightarrow> json list \<Rightarrow> bool" where
  "elements_at strtod ic X cs vs \<longleftrightarrow>
     (\<forall>states root acc fs. \<exists>tok cs1. scan strtod ic X = (tok, cs1) \<and> tok \<noteq> EndArray \<and>
        sax_loop strtod ic (Again tok cs1 (True # states) \<lparr>d_root = root, d_stack = FArray acc # fs\<rparr>) =
        sax_loop strtod ic (Evaluate cs states (handle_value (JArray (acc @ vs)) \<lparr>d_root = root, d_stack = fs\<rparr>)))"

lemma reads_elements:
  assumes L: "good_layout L"
  shows "vs \<noteq> [] \<Longrightarrow> (\<And>v. v \<in> set vs \<Longrightarrow> readable strtod ic ftoa L v) \<Longrightarrow>
    \<exists>t. dump_elements ftoa L cur vs = Inr t \<and>
      (\<forall>cs n. elements_at strtod ic (t @ newline L @ indent L n @ CHR '']'' # cs) cs vs)"
proof (induction vs)
  case (Cons v vs)
  obtain tv where tv: "json_dump ftoa L cur v = Inr tv" "reads_value strtod ic tv v"
    using Cons.prems(2) [of v] by (auto simp: readable_def)
  have head: "elements_at strtod ic (indent L cur @ tv @ X) cs (v # vs)"
    if X: "delimited X" "\<And>states root acc fs.
        sax_loop strtod ic (Evaluate X (True # states) \<lparr>d_root = root, d_stack = FArray acc # fs\<rparr>) =
        sax_loop strtod ic (Evaluate cs states (handle_value (JArray (acc @ vs)) \<lparr>d_root = root, d_stack = fs\<rparr>))" for X cs
    unfolding elements_at_def
  proof (intro allI)
    fix states root acc fs
    let ?d = "\<lparr>d_root = root, d_stack = FArray acc # fs\<rparr>"
    obtain tok cs1 where s: "scan strtod ic (tv @ X) = (tok, cs1)" "tok \<noteq> EndArray"
      "sax_loop strtod ic (Again tok cs1 (True # states) ?d) =
       sax_loop strtod ic (Evaluate X (True # states) (handle_value v ?d))"
      using reads_valueE [OF tv(2) X(1)] by metis
    have "handle_value v ?d = \<lparr>d_root = root, d_stack = FArray (acc @ [v]) # fs\<rparr>" by (simp add: handle_value_def)
    then have "sax_loop strtod ic (Again tok cs1 (True # states) ?d) =
        sax_loop strtod ic (Evaluate cs states (handle_value (JArray (acc @ v # vs)) \<lparr>d_root = root, d_stack = fs\<rparr>))"
      using s(3) X(2) by simp
    then show "\<exists>tok cs1. scan strtod ic (indent L cur @ tv @ X) = (tok, cs1) \<and> tok \<noteq> EndArray \<and>
        sax_loop strtod ic (Again tok cs1 (True # states) ?d) =
        sax_loop strtod ic (Evaluate cs states (handle_value (JArray (acc @ v # vs)) \<lparr>d_root = root, d_stack = fs\<rparr>))"
      using s(1,2) scan_ws [OF indent_ws [OF L]] by metis
  qed
  show ?case
  proof (cases "vs = []")
    case True
    have "scan strtod ic (newline L @ indent L n @ CHR '']'' # cs) = (EndArray, cs)" for n cs
      using scan_ws [OF newline_ws] scan_ws [OF indent_ws [OF L]] scan_punctuation by metis
    then have "elements_at strtod ic (indent L cur @ tv @ newline L @ indent L n @ CHR '']'' # cs) cs (v # vs)" for cs n
      by (intro head) (simp_all add: delimited_newline after_value_def end_container_def True)
    then show ?thesis using tv(1) True by simp
  next
    case False
    then obtain rest where rest: "dump_elements ftoa L cur vs = Inr rest"
      "\<And>cs n. elements_at strtod ic (rest @ newline L @ indent L n @ CHR '']'' # cs) cs vs"
      using Cons.IH Cons.prems(2) by auto
    have "sax_loop strtod ic (Evaluate (CHR '','' # newline L @ Y) (True # states) \<lparr>d_root = root, d_stack = FArray acc # fs\<rparr>) =
        sax_loop strtod ic (Evaluate cs states (handle_value (JArray (acc @ vs)) \<lparr>d_root = root, d_stack = fs\<rparr>))"
      if el: "elements_at strtod ic Y cs vs" for Y cs states root acc fs
    proof -
      let ?d = "\<lparr>d_root = root, d_stack = FArray acc # fs\<rparr>"
      obtain tok cs1 where i: "scan strtod ic Y = (tok, cs1)"
        "sax_loop strtod ic (Again tok cs1 (True # states) ?d) =
         sax_loop strtod ic (Evaluate cs states (handle_value (JArray (acc @ vs)) \<lparr>d_root = root, d_stack = fs\<rparr>))"
        using el unfolding elements_at_def by blast
      have "after_value strtod ic (CHR '','' # newline L @ Y) (True # states) ?d = Again tok cs1 (True # states) ?d"
        using i(1) scan_ws [OF newline_ws, of strtod ic L Y] by (simp add: after_value_def scan_punctuation)
      with i(2) show ?thesis by simp
    qed
    then have "elements_at strtod ic (indent L cur @ tv @ CHR '','' # newline L @ rest @ newline L @ indent L n @ CHR '']'' # cs)
        cs (v # vs)" for cs n
      by (intro head) (use rest(2) in \<open>simp_all add: delimited_def\<close>)
    then show ?thesis using tv(1) False rest(1) by simp
  qed
qed simp

lemma put_members_sorted:
  "sorted_wrt (<) (map fst (acc @ ms)) \<Longrightarrow> put_members ms acc = acc @ ms"
proof (induction ms arbitrary: acc)
  case (Cons m ms)
  obtain k v where m: "m = (k, v)" by (cases m)
  have "\<forall>k' \<in> fst ` set acc. k' < k" using Cons.prems m by (auto simp: sorted_wrt_append)
  then have "put_member k v acc = acc @ [(k, v)]"
    by (induction acc) (auto dest: less_asym)
  then show ?case using Cons m by simp
qed simp

lemma dom_eta [simp]: "\<lparr>d_root = d_root d, d_stack = d_stack d\<rparr> = d" for d :: dom
  by simp

lemma reads_array:
  assumes "\<And>cs. elements_at strtod ic (t @ newline L @ indent L n @ CHR '']'' # cs) cs vs"
  shows "reads_value strtod ic (''['' @ newline L @ t @ newline L @ indent L n @ '']'') (JArray vs)"
  unfolding reads_value_def
proof (intro allI impI)
  fix cs states d
  let ?Y = "t @ newline L @ indent L n @ CHR '']'' # cs"
  have sd: "start_array d = \<lparr>d_root = d_root d, d_stack = FArray [] # d_stack d\<rparr>" by (simp add: start_array_def)
  obtain tok cs1 where i: "scan strtod ic ?Y = (tok, cs1)" "tok \<noteq> EndArray"
    "sax_loop strtod ic (Again tok cs1 (True # states) (start_array d)) =
     sax_loop strtod ic (Evaluate cs states (handle_value (JArray ([] @ vs)) \<lparr>d_root = d_root d, d_stack = d_stack d\<rparr>))"
    using assms [of cs] unfolding elements_at_def sd by blast
  have "start_value strtod ic BeginArray (newline L @ ?Y) states d = Again tok cs1 (True # states) (start_array d)"
    using i(1,2) scan_ws [OF newline_ws, of strtod ic L ?Y] by (cases tok) (simp_all add: start_value_def)
  then show "\<exists>tok cs1. scan strtod ic ((''['' @ newline L @ t @ newline L @ indent L n @ '']'') @ cs) = (tok, cs1) \<and>
      tok \<noteq> EndArray \<and>
      sax_loop strtod ic (Again tok cs1 states d) = sax_loop strtod ic (Evaluate cs states (handle_value (JArray vs) d))"
    using i(3) unfolding dom_eta
    by (intro exI [of _ BeginArray] exI [of _ "newline L @ ?Y"]) (simp add: scan_punctuation)
qed

lemma reads_object:
  assumes "\<And>cs. members_at strtod ic (t @ newline L @ indent L n @ CHR ''}'' # cs) cs ms" "put_members ms [] = ms"
  shows "reads_value strtod ic (''{'' @ newline L @ t @ newline L @ indent L n @ ''}'') (JObject ms)"
  unfolding reads_value_def
proof (intro allI impI)
  fix cs states d
  let ?Y = "t @ newline L @ indent L n @ CHR ''}'' # cs"
  have sd: "start_object d = \<lparr>d_root = d_root d, d_stack = FObject [] [] # d_stack d\<rparr>" by (simp add: start_object_def)
  obtain tok1 cs1 k tok2 cs2 where i: "scan strtod ic ?Y = (tok1, cs1)" "tok1 \<noteq> EndObject"
    "parse_key strtod ic tok1 cs1 = Inr (k, tok2, cs2)"
    "sax_loop strtod ic (Again tok2 cs2 (False # states) (set_key k (start_object d))) =
     sax_loop strtod ic (Evaluate cs states (handle_value (JObject (put_members ms [])) \<lparr>d_root = d_root d, d_stack = d_stack d\<rparr>))"
    using assms(1) [of cs] unfolding members_at_def sd by blast
  have "start_value strtod ic BeginObject (newline L @ ?Y) states d =
      Again tok2 cs2 (False # states) (set_key k (start_object d))"
    using i(1,2,3) scan_ws [OF newline_ws, of strtod ic L ?Y] by (cases tok1) (simp_all add: start_value_def)
  then show "\<exists>tok cs1. scan strtod ic ((''{'' @ newline L @ t @ newline L @ indent L n @ ''}'') @ cs) = (tok, cs1) \<and>
      tok \<noteq> EndArray \<and>
      sax_loop strtod ic (Again tok cs1 states d) = sax_loop strtod ic (Evaluate cs states (handle_value (JObject ms) d))"
    using i(4) assms(2) unfolding dom_eta
    by (intro exI [of _ BeginObject] exI [of _ "newline L @ ?Y"]) (simp add: scan_punctuation)
qed

lemma reads_empty:
  "reads_value strtod ic ''[]'' (JArray [])" "reads_value strtod ic ''{}'' (JObject [])"
  by (auto simp: reads_value_def scan_punctuation start_value_def end_container_def start_array_def start_object_def
      intro!: exI [of _ BeginArray] exI [of _ BeginObject])

lemma printable_readable:
  assumes L: "good_layout L"
  shows "printable j \<Longrightarrow> readable strtod ic ftoa L j"
proof (induction j)
  case (JString s)
  then show ?case
    using reads_string [of s "ascii L" strtod ic] L by (auto simp: readable_def good_layout_def)
next
  case (JArray vs)
  show ?case
  proof (cases "vs = []")
    case False
    have "\<And>v. v \<in> set vs \<Longrightarrow> readable strtod ic ftoa L v" using JArray by simp
    note el = reads_elements [OF L False this]
    show ?thesis
      unfolding readable_def
    proof
      fix cur
      obtain t where t: "dump_elements ftoa L (deeper L cur) vs = Inr t"
        "\<And>cs n. elements_at strtod ic (t @ newline L @ indent L n @ CHR '']'' # cs) cs vs"
        using el [of "deeper L cur"] by blast
      show "\<exists>t. json_dump ftoa L cur (JArray vs) = Inr t \<and> reads_value strtod ic t (JArray vs)"
        using t(1) False reads_array [OF t(2)] by simp
    qed
  qed (simp add: readable_def reads_empty)
next
  case (JObject ms)
  show ?case
  proof (cases "ms = []")
    case False
    have rd: "\<And>m. m \<in> set ms \<Longrightarrow> utf8_text (fst m) \<and> readable strtod ic ftoa L (snd m)"
      using JObject by (auto simp: snds.simps)
    have "put_members ms [] = ms" using JObject.prems put_members_sorted [of "[]" ms] by simp
    note srt = this
    show ?thesis
      unfolding readable_def
    proof
      fix cur
      obtain t where t: "dump_members ftoa L (deeper L cur) ms = Inr t"
        "\<And>cs n. members_at strtod ic (t @ newline L @ indent L n @ CHR ''}'' # cs) cs ms"
        using reads_members [OF L False rd, of "deeper L cur"] by blast
      show "\<exists>t. json_dump ftoa L cur (JObject ms) = Inr t \<and> reads_value strtod ic t (JObject ms)"
        using t(1) False reads_object [OF t(2) srt] by simp
    qed
  qed (simp add: readable_def reads_empty)
qed (use reads_int reads_scalars in \<open>auto simp: readable_def\<close>)

lemma scan_bom_byte:
  assumes "byte c = 0xEF"
  shows "scan strtod ic (c # cs) = (ParseError ''invalid literal'', cs)"
proof -
  have "c \<noteq> CHR ''[''" "c \<noteq> CHR '']''" "c \<noteq> CHR ''{''" "c \<noteq> CHR ''}''" "c \<noteq> CHR '':''" "c \<noteq> CHR '',''"
    "c \<noteq> CHR ''t''" "c \<noteq> CHR ''f''" "c \<noteq> CHR ''n''" "c \<noteq> CHR 0x22" "c \<noteq> CHR ''/''" "c \<noteq> CHR ''-''"
    "\<not> is_ws c" "\<not> isdigit c" "byte c \<noteq> 0"
    using assms by (auto simp: isdigit_def is_ws_def)
  then show ?thesis by (simp add: scan_first scan_token_def)
qed

lemma json_round:
  assumes "good_layout L" "printable j"
  obtains t where "json_dump ftoa L n j = Inr t" "json_parse strtod ic t = Inr j"
proof -
  obtain t where t: "json_dump ftoa L n j = Inr t" "reads_value strtod ic t j"
    using printable_readable [OF assms] unfolding readable_def by blast
  have d0: "delimited []" by (simp add: delimited_def)
  obtain tok cs1 where s: "scan strtod ic (t @ []) = (tok, cs1)"
    "sax_loop strtod ic (Again tok cs1 [] empty_dom) = sax_loop strtod ic (Evaluate [] [] (handle_value j empty_dom))"
    using t(2) d0 unfolding reads_value_def by blast
  have e: "sax_loop strtod ic (Again tok cs1 [] empty_dom) = Inr ([], handle_value j empty_dom)"
    using s(2) by (simp add: after_value_def)
  have "byte c \<noteq> 0xEF" if t': "t = c # ts" for c ts
  proof
    assume "byte c = 0xEF"
    then have "scan strtod ic (t @ []) = (ParseError ''invalid literal'', ts)"
      unfolding t' by (simp add: scan_bom_byte)
    then have "tok = ParseError ''invalid literal''" using s(1) by simp
    then show False using e by (simp add: start_value_def)
  qed
  then have "skip_bom t = Some t" by (cases t) (simp_all add: skip_bom_def)
  then have "json_parse strtod ic t = Inr j"
    using s(1) e by (simp add: json_parse_def handle_value_def empty_dom_def scan.simps [of _ _ "[]"] skip_whitespace_def scan_token_def)
  with t(1) show ?thesis by (rule that)
qed

end
