(* ===== verification/JsonOk.thy ===== *)
theory JsonOk
  imports JsonRound
begin

text \<open>
  What a parsed value is like: every text in it is well-formed UTF-8, integers fit 64 bits, doubles
  are finite, and the members of an object are in the order of their keys, none twice. Such a value can
  always be written again.
\<close>

fun json_ok :: "json \<Rightarrow> bool" where
  "json_ok JNull \<longleftrightarrow> True"
| "json_ok (JBool b) \<longleftrightarrow> True"
| "json_ok (JInt n) \<longleftrightarrow> - (2 ^ 63) \<le> n \<and> n < 2 ^ 64"
| "json_ok (JFloat w) \<longleftrightarrow> double_finite w"
| "json_ok (JString s) \<longleftrightarrow> utf8_text s"
| "json_ok (JArray vs) \<longleftrightarrow> (\<forall>v \<in> set vs. json_ok v)"
| "json_ok (JObject ms) \<longleftrightarrow> sorted_wrt (<) (map fst ms) \<and> (\<forall>m \<in> set ms. utf8_text (fst m) \<and> json_ok (snd m))"

section \<open>Texts\<close>

lemma utf8_text_Nil [simp]: "utf8_text []"
  by (auto simp: utf8_text_def intro: exI [of _ "[]"])

lemma utf8_text_append: "utf8_text s \<Longrightarrow> utf8_text t \<Longrightarrow> utf8_text (s @ t)"
  unfolding utf8_text_def by (metis concat_append list_all_append map_append)

lemma utf8_text_codepoint: "scalar_value cp \<Longrightarrow> utf8_text (codepoint_bytes cp)"
  using codepoint_text_Cons [of cp "[]"] by simp

lemma hex_digit_less: "hex_digit c = Some d \<Longrightarrow> d < 16"
  by (auto simp: hex_digit_def split: if_splits)

lemma get_codepoint_less: "get_codepoint cs = Some (cp, cs') \<Longrightarrow> cp < 65536"
  unfolding get_codepoint_def
  by (cases cs; cases "tl cs"; cases "tl (tl cs)"; cases "tl (tl (tl cs))")
    (auto split: option.splits dest!: hex_digit_less simp: push_bit_eq_mult)

lemma unicode_escape_text: "unicode_escape cs = Inr (bs, cs') \<Longrightarrow> utf8_text bs"
proof -
  assume u: "unicode_escape cs = Inr (bs, cs')"
  then obtain cp1 cs1 where c: "get_codepoint cs = Some (cp1, cs1)" by (auto simp: unicode_escape_def split: option.splits)
  note l = get_codepoint_less [OF c]
  show ?thesis
  proof (cases "0xD800 \<le> cp1 \<and> cp1 \<le> 0xDBFF")
    case False
    then have "bs = codepoint_bytes cp1" "\<not> (0xDC00 \<le> cp1 \<and> cp1 \<le> 0xDFFF)"
      using u c by (auto simp: unicode_escape_def split: if_splits)
    moreover from this False l have "scalar_value cp1" by (auto simp: scalar_value_def)
    ultimately show ?thesis using utf8_text_codepoint by simp
  next
    case True
    then have ls: "low_surrogate cp1 cs1 = Inr (bs, cs')" using u c by (simp add: unicode_escape_def)
    then obtain cp2 where cp2: "0xDC00 \<le> cp2" "cp2 \<le> 0xDFFF"
      "bs = codepoint_bytes (push_bit 10 cp1 + cp2 - 0x35FDC00)"
      unfolding low_surrogate_def by (auto split: list.splits if_splits option.splits)
    have "0xE000 \<le> cp1 * 1024 + cp2 - 0x35FDC00 \<and> cp1 * 1024 + cp2 - 0x35FDC00 \<le> 0x10FFFF"
      using True cp2(1,2) by auto
    then have "scalar_value (push_bit 10 cp1 + cp2 - 0x35FDC00)"
      by (simp add: scalar_value_def push_bit_eq_mult)
    then show ?thesis using cp2(3) utf8_text_codepoint by simp
  qed
qed

lemma ascii_text: "byte c < 0x80 \<Longrightarrow> utf8_text [c]"
  using utf8_text_codepoint [of "byte c"] by (simp add: scalar_value_def codepoint_bytes_1)

lemma scan_escape_text: "scan_escape cs = Inr (bs, cs') \<Longrightarrow> utf8_text bs"
  by (auto simp: scan_escape_def ascii_text split: list.splits if_splits dest: unicode_escape_text)

lemma scan_string_text: "scan_string cs buf = Inr (s, cs') \<Longrightarrow> utf8_text buf \<Longrightarrow> utf8_text s"
proof (induction cs buf rule: scan_string.induct)
  case (2 c cs buf)
  note p = "2.prems"(1) [unfolded scan_string.simps(2)]
  consider "c = CHR 0x22" | (esc) "c \<noteq> CHR 0x22" "c = CHR 0x5C"
    | (plain) "c \<noteq> CHR 0x22" "c \<noteq> CHR 0x5C" "\<not> byte c \<le> 0x1F" "plain_byte (byte c)"
    | (multi) "c \<noteq> CHR 0x22" "c \<noteq> CHR 0x5C" "\<not> byte c \<le> 0x1F" "\<not> plain_byte (byte c)"
    using p by (auto split: if_splits)
  then show ?case
  proof cases
    case esc
    then obtain bs cs1 where e: "scan_escape cs = Inr (bs, cs1)" "scan_string cs1 (buf @ bs) = Inr (s, cs')"
      using p by (auto split: sum.splits)
    show ?thesis
      using "2.IH"(1) [OF esc e(1) refl e(2)] utf8_text_append [OF "2.prems"(2) scan_escape_text [OF e(1)]] by simp
  next
    case plain
    have "utf8_text [c]" using plain(4) by (intro ascii_text) simp
    then show ?thesis using p plain "2.IH"(2) [OF plain] utf8_text_append [OF "2.prems"(2)] by simp
  next
    case multi
    then obtain rs bs cs1 where e: "follow_ranges (byte c) = Some rs" "next_byte_in_range rs cs = Some (bs, cs1)"
      "scan_string cs1 (buf @ c # bs) = Inr (s, cs')"
      using p by (auto split: option.splits)
    obtain cp where "scalar_value cp" "codepoint_bytes cp = c # bs" using ranges_accept_only_encodings [OF e(1,2)] by blast
    then have "utf8_text (c # bs)" using utf8_text_codepoint by metis
    then show ?thesis using "2.IH"(3) [OF multi e(1,2) refl e(3)] utf8_text_append [OF "2.prems"(2)] by simp
  qed (use p "2.prems"(2) in simp)
qed simp

section \<open>Tokens\<close>

fun token_ok :: "token \<Rightarrow> bool" where
  "token_ok (ValueString s) \<longleftrightarrow> utf8_text s"
| "token_ok (ValueUnsigned n) \<longleftrightarrow> n < 2 ^ 64"
| "token_ok (ValueInteger n) \<longleftrightarrow> - (2 ^ 63) \<le> n \<and> n \<le> 0"
| "token_ok _ \<longleftrightarrow> True"

lemma scan_literal_ok: "scan_literal ls t cs = (t', cs') \<Longrightarrow> token_ok t \<Longrightarrow> token_ok t'"
  by (induction ls t cs rule: scan_literal.induct) (auto split: if_splits)

lemma convert_number_ok: "token_ok (convert_number strtod neg integral buf)"
  by (auto simp: convert_number_def)

lemma scan_token_ok: "scan_token strtod cs = (t, cs') \<Longrightarrow> token_ok t"
  by (auto simp: scan_token_def scan_number_def Let_def convert_number_ok
      split: list.splits if_splits sum.splits dest: scan_literal_ok scan_string_text)

lemma scan_ok: "scan strtod ic cs = (t, cs') \<Longrightarrow> token_ok t"
proof (induction strtod ic cs rule: scan.induct)
  case (1 strtod ic cs)
  show ?case
  proof (cases "skip_whitespace cs")
    case Nil
    then show ?thesis using "1.prems" by (auto simp: scan.simps [of _ _ cs] dest: scan_token_ok)
  next
    case (Cons c cs1)
    show ?thesis
    proof (cases "ic \<and> c = CHR ''/''")
      case True
      then show ?thesis
        using "1.prems" "1.IH" [OF Cons True] Cons by (auto simp: scan.simps [of _ _ cs] split: sum.splits)
    next
      case False
      then show ?thesis using "1.prems" Cons by (auto simp: scan.simps [of _ _ cs] dest: scan_token_ok)
    qed
  qed
qed

lemma scalar_token_ok: "scalar_token t = Some (Inr v) \<Longrightarrow> token_ok t \<Longrightarrow> json_ok v"
  by (cases t) (auto split: if_splits)

section \<open>The value being built\<close>

fun frame_ok :: "frame \<Rightarrow> bool" where
  "frame_ok (FArray vs) \<longleftrightarrow> json_ok (JArray vs)"
| "frame_ok (FObject ms k) \<longleftrightarrow> json_ok (JObject ms) \<and> utf8_text k"

definition dom_ok :: "dom \<Rightarrow> bool" where
  "dom_ok d \<longleftrightarrow> json_ok (d_root d) \<and> list_all frame_ok (d_stack d)"

lemma set_put_member_le: "set (put_member k v ms) \<subseteq> insert (k, v) (set ms)"
  by (induction k v ms rule: put_member.induct) auto

lemma put_member_ok: "json_ok (JObject ms) \<Longrightarrow> utf8_text k \<Longrightarrow> json_ok v \<Longrightarrow> json_ok (JObject (put_member k v ms))"
  using sorted_put_member [of ms k v] set_put_member_le [of k v ms] by auto

lemma handle_value_ok: "dom_ok d \<Longrightarrow> json_ok v \<Longrightarrow> dom_ok (handle_value v d)"
  using put_member_ok by (auto simp: handle_value_def dom_ok_def split: list.splits frame.splits simp del: json_ok.simps(7))

lemma start_ok: "dom_ok d \<Longrightarrow> dom_ok (start_object d)" "dom_ok d \<Longrightarrow> dom_ok (start_array d)"
  by (simp_all add: start_object_def start_array_def dom_ok_def)

lemma set_key_ok: "dom_ok d \<Longrightarrow> utf8_text k \<Longrightarrow> dom_ok (set_key k d)"
  by (fastforce simp: set_key_def dom_ok_def split: list.splits frame.splits)

lemma end_container_ok: "dom_ok d \<Longrightarrow> dom_ok (end_container d)"
  by (auto simp: end_container_def split: list.splits frame.splits intro!: handle_value_ok)
    (auto simp: dom_ok_def)

lemma parse_key_ok: "parse_key strtod ic t cs = Inr (k, t2, cs2) \<Longrightarrow> token_ok t \<Longrightarrow> utf8_text k \<and> token_ok t2"
  by (auto simp: parse_key_def split: token.splits prod.splits dest: scan_ok)

fun step_ok :: "next_step \<Rightarrow> bool" where
  "step_ok (Again t cs states d) \<longleftrightarrow> token_ok t \<and> dom_ok d"
| "step_ok (Evaluate cs states d) \<longleftrightarrow> dom_ok d"
| "step_ok (Done cs d) \<longleftrightarrow> dom_ok d"
| "step_ok (Fail e) \<longleftrightarrow> True"

lemma start_value_ok:
  assumes "token_ok tok" "dom_ok d"
  shows "step_ok (start_value strtod ic tok cs states d)"
proof -
  obtain t1 cs1 where s: "scan strtod ic cs = (t1, cs1)" by (cases "scan strtod ic cs")
  note l = scan_ok [OF s]
  show ?thesis
  proof (cases tok)
    case BeginObject
    then show ?thesis
      using l parse_key_ok [of strtod ic t1 cs1] assms
      by (cases t1) (auto simp: start_value_def s split: sum.splits intro!: set_key_ok start_ok end_container_ok)
  next
    case BeginArray
    then show ?thesis using l assms
      by (cases t1) (auto simp: start_value_def s intro!: start_ok end_container_ok)
  qed (use assms scalar_token_ok [of tok] in \<open>auto simp: start_value_def intro!: handle_value_ok\<close>)
qed

lemma after_value_ok:
  assumes "dom_ok d"
  shows "step_ok (after_value strtod ic cs states d)"
proof (cases states)
  case (Cons st sts)
  obtain t1 cs1 where s: "scan strtod ic cs = (t1, cs1)" by (cases "scan strtod ic cs")
  obtain t2 cs2 where s2: "scan strtod ic cs1 = (t2, cs2)" by (cases "scan strtod ic cs1")
  note l = scan_ok [OF s2] parse_key_ok [of strtod ic t2 cs2]
  show ?thesis
    using l Cons assms
    by (cases st; cases t1) (auto simp: after_value_def s s2 split: sum.splits intro!: set_key_ok end_container_ok)
qed (simp add: after_value_def assms)

lemma sax_loop_ok: "sax_loop strtod ic st = Inr (cs, d) \<Longrightarrow> step_ok st \<Longrightarrow> dom_ok d"
proof (induction strtod ic st rule: sax_loop.induct)
  case (1 strtod ic tok cs' states d')
  then show ?case using start_value_ok by simp
next
  case (2 strtod ic cs' states d')
  then show ?case using after_value_ok by simp
qed auto

lemma json_parse_ok: "json_parse strtod ic s = Inr j \<Longrightarrow> json_ok j"
proof -
  assume p: "json_parse strtod ic s = Inr j"
  then obtain cs tok cs1 cs2 d where h: "scan strtod ic cs = (tok, cs1)"
    "sax_loop strtod ic (Again tok cs1 [] empty_dom) = Inr (cs2, d)" "j = d_root d"
    by (auto simp: json_parse_def split: option.splits prod.splits sum.splits token.splits)
  have "step_ok (Again tok cs1 [] empty_dom)" using scan_ok [OF h(1)] by (simp add: dom_ok_def empty_dom_def)
  from sax_loop_ok [OF h(2) this] show ?thesis using h(3) by (simp add: dom_ok_def)
qed

text \<open>Writing never fails on such a value.\<close>

lemma dump_text: "utf8_text s \<Longrightarrow> \<exists>t. dump_escaped Strict ea s = Inr t"
  using string_round_trip by blast

text \<open>Writing fails only for a text that is not UTF-8, so it is enough that all texts of a value are.\<close>

fun writable :: "json \<Rightarrow> bool" where
  "writable (JString s) \<longleftrightarrow> utf8_text s"
| "writable (JArray vs) \<longleftrightarrow> (\<forall>v \<in> set vs. writable v)"
| "writable (JObject ms) \<longleftrightarrow> (\<forall>m \<in> set ms. utf8_text (fst m) \<and> writable (snd m))"
| "writable _ \<longleftrightarrow> True"

lemma json_ok_writable: "json_ok j \<Longrightarrow> writable j"
  by (induction j rule: json_ok.induct) auto

lemma writable_dumps:
  "handler L = Strict \<Longrightarrow> writable j \<Longrightarrow> \<exists>t. json_dump ftoa L cur j = Inr t"
  "handler L = Strict \<Longrightarrow> (\<And>m. m \<in> set ms \<Longrightarrow> utf8_text (fst m) \<and> writable (snd m)) \<Longrightarrow>
     \<exists>t. dump_members ftoa L cur ms = Inr t"
  "handler L = Strict \<Longrightarrow> (\<And>v. v \<in> set vs \<Longrightarrow> writable v) \<Longrightarrow> \<exists>t. dump_elements ftoa L cur vs = Inr t"
proof (induction ftoa L cur j and ftoa L cur ms and ftoa L cur vs rule: json_dump_dump_members_dump_elements.induct)
  case (5 ftoa L current s)
  then show ?case using dump_text [of s "ascii L"] by auto
next
  case (6 ftoa L current vs)
  then show ?case by (cases "vs = []") auto
next
  case (7 ftoa L current ms)
  then show ?case by (cases "ms = []") auto
next
  case (9 ftoa L current k v ms)
  have kv: "utf8_text k" "writable v" using "9.prems"(2) [of "(k, v)"] by simp_all
  obtain key where "dump_escaped (handler L) (ascii L) k = Inr key"
    using "9.prems"(1) dump_text [OF kv(1), of "ascii L"] by auto
  moreover obtain t where "json_dump ftoa L current v = Inr t" using "9.IH"(1) "9.prems"(1) kv(2) by auto
  moreover have "ms \<noteq> [] \<Longrightarrow> \<exists>rest. dump_members ftoa L current ms = Inr rest"
    using 9 calculation by auto
  ultimately show ?case by (cases "ms = []") (auto simp: Let_def)
next
  case (11 ftoa L current v vs)
  obtain t where "json_dump ftoa L current v = Inr t" using 11 by auto
  moreover have "vs \<noteq> [] \<Longrightarrow> \<exists>rest. dump_elements ftoa L current vs = Inr rest"
    using 11 calculation by auto
  ultimately show ?case by (cases "vs = []") auto
qed auto

lemma json_ok_dumps: "handler L = Strict \<Longrightarrow> json_ok j \<Longrightarrow> \<exists>t. json_dump ftoa L cur j = Inr t"
  by (rule writable_dumps(1) [OF _ json_ok_writable])

end
