(* ===== verification/Bitboard.thy ===== *)
theory Bitboard
  imports Prelude
begin

text \<open>
  The bit-level helpers of \<^verbatim>\<open>chess_engine/bitboard.hpp\<close>: a bitboard is an unsigned 64-bit
  integer, bit \<open>8 * rank + file\<close> standing for one square. The scans \<open>bsf\<close> and \<open>bsr\<close> are the
  De Bruijn multiplications of the source, with its lookup table; the lemmas show that they
  find the least and the greatest set bit, that Kernighan's loop counts the set bits, and
  that the pattern \<^verbatim>\<open>while (bb) { s = bsf(bb); set_0(bb, s); ... }\<close>, with which every
  generator of the engine walks a bitboard, visits each set bit once, in ascending order.

  Shifting by 64 or more is undefined in C++. The model's shifts give 0 there; the callers
  are shown to stay below 64 where a property depends on it.
\<close>

type_synonym bitboard = u64

section \<open>BitboardOps\<close>

definition set_1 :: "bitboard \<Rightarrow> nat \<Rightarrow> bitboard" where
  "set_1 bb square = bb OR push_bit square 1"

definition set_0 :: "bitboard \<Rightarrow> nat \<Rightarrow> bitboard" where
  "set_0 bb square = bb AND NOT (push_bit square 1)"

definition get_bit :: "bitboard \<Rightarrow> nat \<Rightarrow> bool" where
  "get_bit bb square \<longleftrightarrow> drop_bit square bb AND 1 \<noteq> 0"

lemma get_bit_iff [bitboard_simps]: "get_bit bb s \<longleftrightarrow> bit bb s"
  by (simp add: get_bit_def bit_iff_odd_drop_bit and_one_eq odd_iff_mod_2_eq_one)

lemma bit_set_1 [bitboard_simps]: "bit (set_1 bb s) n \<longleftrightarrow> bit bb n \<or> (n = s \<and> s < 64)"
  by (auto simp: set_1_def bit_simps)

lemma bit_set_0 [bitboard_simps]: "bit (set_0 bb s) n \<longleftrightarrow> bit bb n \<and> n \<noteq> s"
  by (auto simp: set_0_def bit_simps dest: bit_word_less)

text \<open>Kernighan's loop: each pass clears the least set bit.\<close>

function popcount_loop :: "bitboard \<Rightarrow> int \<Rightarrow> int" where
  "popcount_loop bb count =
     (if bb \<noteq> 0 then popcount_loop (bb AND (bb - 1)) (count + 1) else count)"
  by pat_completeness auto

definition bits_of :: "bitboard \<Rightarrow> nat set" where
  "bits_of bb = {n. bit bb n}"

lemma finite_bits_of [simp]: "finite (bits_of bb)"
  by (rule finite_subset [of _ "{..<64}"]) (auto simp: bits_of_def dest: bit_word_less)

lemma bits_of_empty_iff [simp]: "bits_of bb = {} \<longleftrightarrow> bb = 0"
  by (auto simp: bits_of_def word_eq_0_bits)

lemma bits_of_less: "n \<in> bits_of bb \<Longrightarrow> n < 64"
  by (auto simp: bits_of_def dest: bit_word_less)

lemma bits_of_and_decrement: "bb \<noteq> 0 \<Longrightarrow> bits_of (bb AND (bb - 1)) = bits_of bb - {least_bit bb}"
  by (auto simp: bits_of_def bit_and_decrement)

lemma least_bit_in: "bb \<noteq> 0 \<Longrightarrow> least_bit bb \<in> bits_of bb"
  by (simp add: bits_of_def bit_least_bit)

lemma card_bits_of_decrement:
  "bb \<noteq> 0 \<Longrightarrow> card (bits_of bb) = Suc (card (bits_of (bb AND (bb - 1))))"
  by (simp add: bits_of_and_decrement card.remove [OF _ least_bit_in] del: card_Diff_insert)

termination popcount_loop
  by (relation "measure (\<lambda>(bb, count). card (bits_of bb))") (auto simp: card_bits_of_decrement)

declare popcount_loop.simps [simp del]

definition popcount :: "bitboard \<Rightarrow> int" where
  "popcount bb = popcount_loop bb 0"

definition BitScanTable :: "nat list" where
  "BitScanTable =
    [ 0, 47,  1, 56, 48, 27,  2, 60,
     57, 49, 41, 37, 28, 16,  3, 61,
     54, 58, 35, 52, 50, 42, 21, 44,
     38, 32, 29, 23, 17, 11,  4, 62,
     46, 55, 26, 59, 40, 36, 15, 53,
     34, 51, 20, 43, 31, 22, 10, 45,
     25, 39, 14, 33, 19, 30,  9, 24,
     13, 18,  8, 12,  7,  6,  5, 63]"

definition bsf :: "bitboard \<Rightarrow> nat" where
  "bsf bb = BitScanTable ! unat (drop_bit 58 ((bb XOR (bb - 1)) * 0x03f79d71b4cb0a89))"

definition bsr :: "bitboard \<Rightarrow> nat" where
  "bsr bb0 =
    (let bb1 = bb0 OR drop_bit 1 bb0;
         bb2 = bb1 OR drop_bit 2 bb1;
         bb3 = bb2 OR drop_bit 4 bb2;
         bb4 = bb3 OR drop_bit 8 bb3;
         bb5 = bb4 OR drop_bit 16 bb4;
         bb6 = bb5 OR drop_bit 32 bb5
     in BitScanTable ! unat (drop_bit 58 (bb6 * 0x03f79d71b4cb0a89)))"

section \<open>Kernighan's loop counts the set bits\<close>

lemma popcount_loop_card: "popcount_loop bb c = c + int (card (bits_of bb))"
proof (induction bb c rule: popcount_loop.induct)
  case (1 bb c)
  then show ?case
    by (cases "bb = 0") (simp_all add: popcount_loop.simps [of _ c] card_bits_of_decrement)
qed

lemma popcount_eq_card: "popcount bb = int (card (bits_of bb))"
  by (simp add: popcount_def popcount_loop_card)

section \<open>The De Bruijn scans\<close>

text \<open>One evaluation of the table covers both scans: the factor is the mask up to bit \<open>k\<close>.\<close>

lemma BitScanTable_mask:
  "k < 64 \<Longrightarrow> BitScanTable ! unat (drop_bit 58 ((mask (Suc k) :: bitboard) * 0x03f79d71b4cb0a89)) = k"
proof -
  have "list_all (\<lambda>k. BitScanTable ! unat (drop_bit 58 ((mask (Suc k) :: bitboard) * 0x03f79d71b4cb0a89)) = k)
          [0..<64]"
    by code_simp
  then show "k < 64 \<Longrightarrow> ?thesis" by (simp add: list_all_iff)
qed

lemma bsf_least_bit: "bb \<noteq> 0 \<Longrightarrow> bsf bb = least_bit bb"
  using least_bit_less [of bb] by (simp add: bsf_def xor_decrement_eq_mask BitScanTable_mask)

lemma bsf_in: "bb \<noteq> 0 \<Longrightarrow> bit bb (bsf bb)"
  by (simp add: bsf_least_bit bit_least_bit)

lemma bsf_less: "bb \<noteq> 0 \<Longrightarrow> bsf bb < 64"
  using least_bit_less [of bb] by (simp add: bsf_least_bit)

lemma bsf_le: "bit bb n \<Longrightarrow> bsf bb \<le> n"
  by (metis bsf_least_bit least_bit_le bit_word_0)

lemma bsf_zero: "bsf 0 = 63"
  by code_simp

definition greatest_bit :: "bitboard \<Rightarrow> nat" where
  "greatest_bit bb = Max (bits_of bb)"

lemma greatest_bit_in: "bb \<noteq> 0 \<Longrightarrow> bit bb (greatest_bit bb)"
  using Max_in [OF finite_bits_of, of bb] bits_of_empty_iff [of bb]
  unfolding greatest_bit_def bits_of_def by blast

lemma greatest_bit_ge: "bit bb n \<Longrightarrow> n \<le> greatest_bit bb"
  using Max_ge [OF finite_bits_of, of n bb] by (simp add: greatest_bit_def bits_of_def)

text \<open>
  \<open>bsr\<close> first smears the greatest bit downwards; after \<open>i\<close> steps bit \<open>n\<close> is set iff one of
  the \<open>2 ^ i\<close> bits from \<open>n\<close> on was.
\<close>

definition bit_window :: "bitboard \<Rightarrow> nat \<Rightarrow> bitboard \<Rightarrow> bool" where
  "bit_window bb d w \<longleftrightarrow> (\<forall>n. bit w n \<longleftrightarrow> (\<exists>m \<in> {n..<n + d}. bit bb m))"

lemma bit_window_start: "bit_window bb 1 bb"
proof -
  have "{n..<n + 1} = {n}" for n :: nat by auto
  then show ?thesis by (simp add: bit_window_def)
qed

lemma bit_window_step:
  assumes "bit_window bb d w"
  shows "bit_window bb (2 * d) (w OR drop_bit d w)"
proof -
  have "{n..<n + 2 * d} = {n..<n + d} \<union> {d + n..<d + n + d}" for n by auto
  then show ?thesis
    using assms by (simp add: bit_window_def bit_or_iff bit_drop_bit_eq bex_Un)
qed

lemma bit_window_full:
  assumes "bit_window bb 64 w" and "bb \<noteq> 0"
  shows "w = mask (Suc (greatest_bit bb))"
proof (rule bit_word_eqI)
  fix n assume n: "n < LENGTH(64)"
  have "(\<exists>m \<in> {n..<n + 64}. bit bb m) \<longleftrightarrow> n \<le> greatest_bit bb"
  proof
    assume "n \<le> greatest_bit bb"
    moreover have "greatest_bit bb < 64"
      using bit_word_less [OF greatest_bit_in [OF assms(2)]] by simp
    ultimately show "\<exists>m \<in> {n..<n + 64}. bit bb m"
      using greatest_bit_in [OF assms(2)] by (intro bexI [of _ "greatest_bit bb"]) auto
  qed (auto dest: greatest_bit_ge)
  then show "bit w n \<longleftrightarrow> bit (mask (Suc (greatest_bit bb)) :: bitboard) n"
    using assms(1) n by (simp add: bit_window_def bit_mask_iff less_Suc_eq_le)
qed

lemma bsr_greatest_bit:
  assumes "bb \<noteq> 0"
  shows "bsr bb = greatest_bit bb"
proof -
  define b1 where "b1 = bb OR drop_bit 1 bb"
  define b2 where "b2 = b1 OR drop_bit 2 b1"
  define b3 where "b3 = b2 OR drop_bit 4 b2"
  define b4 where "b4 = b3 OR drop_bit 8 b3"
  define b5 where "b5 = b4 OR drop_bit 16 b4"
  define b6 where "b6 = b5 OR drop_bit 32 b5"
  have "bit_window bb 2 b1" using bit_window_step [OF bit_window_start] by (simp add: b1_def)
  from bit_window_step [OF this] have "bit_window bb 4 b2" by (simp add: b2_def)
  from bit_window_step [OF this] have "bit_window bb 8 b3" by (simp add: b3_def)
  from bit_window_step [OF this] have "bit_window bb 16 b4" by (simp add: b4_def)
  from bit_window_step [OF this] have "bit_window bb 32 b5" by (simp add: b5_def)
  from bit_window_step [OF this] have "bit_window bb 64 b6" by (simp add: b6_def)
  then have b6: "b6 = mask (Suc (greatest_bit bb))" using assms by (rule bit_window_full)
  have "bsr bb = BitScanTable ! unat (drop_bit 58 (b6 * 0x03f79d71b4cb0a89))"
    by (simp add: bsr_def b1_def b2_def b3_def b4_def b5_def b6_def Let_def)
  also have "\<dots> = greatest_bit bb"
    using bit_word_less [OF greatest_bit_in [OF assms]] by (simp add: b6 BitScanTable_mask)
  finally show ?thesis .
qed

lemma bsr_in: "bb \<noteq> 0 \<Longrightarrow> bit bb (bsr bb)"
  by (simp add: bsr_greatest_bit greatest_bit_in)

lemma bsr_ge: "bit bb n \<Longrightarrow> n \<le> bsr bb"
  by (metis bsr_greatest_bit greatest_bit_ge bit_word_0)

section \<open>Walking a bitboard\<close>

text \<open>
  \<open>scan_bits\<close> lists the squares that the loop
  \<^verbatim>\<open>while (bb) { s = bsf(bb); set_0(bb, s); ... }\<close> visits, in its order.
\<close>

function scan_bits :: "bitboard \<Rightarrow> nat list" where
  "scan_bits bb = (if bb \<noteq> 0 then bsf bb # scan_bits (set_0 bb (bsf bb)) else [])"
  by pat_completeness auto

lemma bits_of_set_0: "bits_of (set_0 bb s) = bits_of bb - {s}"
  by (auto simp: bits_of_def bitboard_simps)

termination scan_bits
proof (relation "measure (\<lambda>bb. card (bits_of bb))")
  fix bb :: bitboard assume "bb \<noteq> 0"
  then have "bsf bb \<in> bits_of bb" by (simp add: bits_of_def bsf_in)
  then show "(set_0 bb (bsf bb), bb) \<in> measure (\<lambda>bb. card (bits_of bb))"
    by (auto simp: bits_of_set_0 intro!: card_Diff1_less simp del: card_Diff_insert card_Diff_singleton)
qed auto

declare scan_bits.simps [simp del]

lemma scan_bits_zero [simp]: "scan_bits 0 = []"
  by (simp add: scan_bits.simps)

lemma scan_bits_eq_filter: "scan_bits bb = filter (bit bb) [0..<64]"
proof (induction bb rule: scan_bits.induct)
  case (1 bb)
  show ?case
  proof (cases "bb = 0")
    case False
    have "filter (bit (set_0 bb (bsf bb))) [0..<64] = filter (\<lambda>i. bit bb i \<and> i \<noteq> bsf bb) [0..<64]"
      by (rule filter_cong) (auto simp: bitboard_simps)
    moreover have "filter (bit bb) [0..<64] = bsf bb # filter (\<lambda>i. bit bb i \<and> i \<noteq> bsf bb) [0..<64]"
    proof (rule filter_upt_least)
      show "\<not> bit bb i" if "i < bsf bb" for i using that bsf_le [of bb i] by auto
    qed (use False in \<open>auto intro: bsf_in bsf_less\<close>)
    ultimately show ?thesis using 1 False by (simp add: scan_bits.simps [of bb])
  qed simp
qed

lemma set_scan_bits: "set (scan_bits bb) = bits_of bb"
  by (auto simp: scan_bits_eq_filter bits_of_def dest: bit_word_less)

lemma in_scan_bits [simp]: "s \<in> set (scan_bits bb) \<longleftrightarrow> bit bb s"
  by (simp add: set_scan_bits bits_of_def)

section \<open>Rows and columns\<close>

definition Rows :: "nat \<Rightarrow> bitboard" where
  "Rows y = fold (\<lambda>x bb. set_1 bb (y * 8 + x)) [0..<8] 0"

definition InversionRows :: "nat \<Rightarrow> bitboard" where
  "InversionRows i = NOT (Rows i)"

definition Columns :: "nat \<Rightarrow> bitboard" where
  "Columns x = fold (\<lambda>y bb. set_1 bb (y * 8 + x)) [0..<8] 0"

definition InversionColumns :: "nat \<Rightarrow> bitboard" where
  "InversionColumns i = NOT (Columns i)"

lemma bit_fold_set_1:
  "bit (fold (\<lambda>x bb. set_1 bb (f x)) xs bb) n \<longleftrightarrow> bit bb n \<or> (n < 64 \<and> n \<in> f ` set xs)"
  by (induction xs arbitrary: bb) (auto simp: bitboard_simps)

lemma bit_Rows: "y < 8 \<Longrightarrow> bit (Rows y) n \<longleftrightarrow> n div 8 = y"
  unfolding Rows_def bit_fold_set_1
  by (auto simp: image_iff intro!: bexI [of _ "n mod 8"])

lemma bit_Columns: "x < 8 \<Longrightarrow> bit (Columns x) n \<longleftrightarrow> n < 64 \<and> n mod 8 = x"
  unfolding Columns_def bit_fold_set_1
  by (auto simp: image_iff intro!: bexI [of _ "n div 8"])

lemma bit_InversionColumns: "x < 8 \<Longrightarrow> bit (InversionColumns x) n \<longleftrightarrow> n < 64 \<and> n mod 8 \<noteq> x"
  by (auto simp: InversionColumns_def bit_not_iff bit_Columns possible_bit_def)

end
