(* ===== verification/Masks.thy ===== *)
theory Masks
  imports Bitboard
begin

text \<open>
  The attack tables of \<^verbatim>\<open>chess_engine/knight_masks.hpp\<close> and
  \<^verbatim>\<open>chess_engine/sliders_masks.hpp\<close>, computed by the loops of the source. A table
  (\<^verbatim>\<open>std::array\<close> indexed by the square) is a function of the square. The lemmas
  characterise each entry geometrically, and describe a ray as the list of squares in walking
  order, which the correctness of the sliding moves rests on.
\<close>

section \<open>Knight and king masks\<close>

definition absdiff :: "nat \<Rightarrow> nat \<Rightarrow> nat" where
  "absdiff a b = (if a > b then a - b else b - a)"

definition KnightMasks :: "nat \<Rightarrow> bitboard" where
  "KnightMasks p0 =
     (let x0 = p0 mod 8; y0 = p0 div 8 in
      fold (\<lambda>x1. fold (\<lambda>y1 bb.
        let dx = absdiff x0 x1; dy = absdiff y0 y1 in
        if (dx = 2 \<and> dy = 1) \<or> (dx = 1 \<and> dy = 2) then set_1 bb (y1 * 8 + x1) else bb)
        [0..<8]) [0..<8] 0)"

definition KingMasks :: "nat \<Rightarrow> bitboard" where
  "KingMasks p0 =
     (let x0 = p0 mod 8; y0 = p0 div 8 in
      fold (\<lambda>x1. fold (\<lambda>y1 bb.
        let dx = absdiff x0 x1; dy = absdiff y0 y1 in
        if dx \<le> 1 \<and> dy \<le> 1 \<and> \<not> (dx = 0 \<and> dy = 0) then set_1 bb (y1 * 8 + x1) else bb)
        [0..<8]) [0..<8] 0)"

lemma bit_fold_cond_set_1:
  "bit (fold (\<lambda>y bb. if P y then set_1 bb (f y) else bb) ys bb) n
     \<longleftrightarrow> bit bb n \<or> (n < 64 \<and> (\<exists>y \<in> set ys. P y \<and> n = f y))"
  by (induction ys arbitrary: bb) (auto simp: bitboard_simps)

lemma bit_fold_cond_set_2:
  "bit (fold (\<lambda>x. fold (\<lambda>y bb. if P x y then set_1 bb (y * 8 + x) else bb) [0..<8]) xs bb) n
     \<longleftrightarrow> bit bb n \<or> (n < 64 \<and> (\<exists>x \<in> set xs. \<exists>y < 8. P x y \<and> n = y * 8 + x))"
  by (induction xs arbitrary: bb) (auto simp: bit_fold_cond_set_1)

lemma ex_coords:
  assumes "n < 64"
  shows "(\<exists>x \<in> set [0..<8]. \<exists>y < 8. P x y \<and> n = y * 8 + x) \<longleftrightarrow> P (n mod 8) (n div 8)"
proof
  assume "P (n mod 8) (n div 8)"
  then show "\<exists>x \<in> set [0..<8]. \<exists>y < 8. P x y \<and> n = y * 8 + x"
    using assms by (intro bexI [of _ "n mod 8"] exI [of _ "n div 8"]) auto
qed auto

lemma bit_KnightMasks:
  assumes "n < 64"
  shows "bit (KnightMasks p) n \<longleftrightarrow>
    {absdiff (p mod 8) (n mod 8), absdiff (p div 8) (n div 8)} = {1, 2}"
  using assms unfolding KnightMasks_def Let_def bit_fold_cond_set_2
  by (subst ex_coords) (auto simp: doubleton_eq_iff)

lemma bit_KingMasks:
  assumes "n < 64"
  shows "bit (KingMasks p) n \<longleftrightarrow>
    max (absdiff (p mod 8) (n mod 8)) (absdiff (p div 8) (n div 8)) = 1"
  using assms unfolding KingMasks_def Let_def bit_fold_cond_set_2
  by (subst ex_coords) auto

section \<open>Rays of the sliding pieces\<close>

datatype direction = North | South | West | East | NorthWest | NorthEast | SouthWest | SouthEast

text \<open>The \<^verbatim>\<open>switch\<close> of \<^verbatim>\<open>calc_ray\<close>: one step of the coordinates.\<close>

fun ray_step :: "direction \<Rightarrow> int \<Rightarrow> int \<Rightarrow> int \<times> int" where
  "ray_step North x y = (x, y + 1)"
| "ray_step South x y = (x, y - 1)"
| "ray_step West x y = (x - 1, y)"
| "ray_step East x y = (x + 1, y)"
| "ray_step NorthWest x y = (x - 1, y + 1)"
| "ray_step NorthEast x y = (x + 1, y + 1)"
| "ray_step SouthWest x y = (x - 1, y - 1)"
| "ray_step SouthEast x y = (x + 1, y - 1)"

text \<open>How far the board extends in a direction: what the loop of \<open>calc_ray\<close> uses up.\<close>

fun ray_room :: "direction \<Rightarrow> int \<Rightarrow> int \<Rightarrow> nat" where
  "ray_room North x y = nat (8 - y)"
| "ray_room South x y = nat (y + 1)"
| "ray_room West x y = nat (x + 1)"
| "ray_room East x y = nat (8 - x)"
| "ray_room NorthWest x y = nat (8 - y)"
| "ray_room NorthEast x y = nat (8 - y)"
| "ray_room SouthWest x y = nat (y + 1)"
| "ray_room SouthEast x y = nat (y + 1)"

definition off_board :: "int \<Rightarrow> int \<Rightarrow> bool" where
  "off_board x y \<longleftrightarrow> x > 7 \<or> x < 0 \<or> y > 7 \<or> y < 0"

lemma ray_room_decreases:
  "ray_step d x y = (x', y') \<Longrightarrow> \<not> off_board x' y' \<Longrightarrow> ray_room d x' y' < ray_room d x y"
  by (cases d) (auto simp: off_board_def)

function calc_ray_loop :: "direction \<Rightarrow> int \<Rightarrow> int \<Rightarrow> bitboard \<Rightarrow> bitboard" where
  "calc_ray_loop d x y bb =
     (case ray_step d x y of (x', y') \<Rightarrow>
        if off_board x' y' then bb
        else calc_ray_loop d x' y' (set_1 bb (nat (y' * 8 + x'))))"
  by pat_completeness auto
termination
  by (relation "measure (\<lambda>(d, x, y, bb). ray_room d x y)") (auto dest!: sym [of "(_, _)"] ray_room_decreases)

declare calc_ray_loop.simps [simp del]

definition calc_ray :: "nat \<Rightarrow> direction \<Rightarrow> bitboard" where
  "calc_ray square direction = calc_ray_loop direction (int (square mod 8)) (int (square div 8)) 0"

definition SlidersMasks :: "nat \<Rightarrow> direction \<Rightarrow> bitboard" where
  "SlidersMasks i j = calc_ray i j"

subsection \<open>The squares of a ray in walking order\<close>

function ray_from :: "direction \<Rightarrow> int \<Rightarrow> int \<Rightarrow> nat list" where
  "ray_from d x y =
     (case ray_step d x y of (x', y') \<Rightarrow>
        if off_board x' y' then [] else nat (y' * 8 + x') # ray_from d x' y')"
  by pat_completeness auto
termination
proof (relation "measure (\<lambda>(d, x, y). ray_room d x y)")
  fix d x y x' y'
  assume "(x', y') = ray_step d x y" and "\<not> off_board x' y'"
  then show "((d, x', y'), (d, x, y)) \<in> measure (\<lambda>(d, x, y). ray_room d x y)"
    unfolding in_measure prod.case by (metis ray_room_decreases)
qed auto

declare ray_from.simps [simp del]

definition ray_squares :: "direction \<Rightarrow> nat \<Rightarrow> nat list" where
  "ray_squares d p = ray_from d (int (p mod 8)) (int (p div 8))"

lemma on_board_square:
  assumes "\<not> off_board x y"
  shows "nat (y * 8 + x) < 64" and "int (nat (y * 8 + x) mod 8) = x" and "int (nat (y * 8 + x) div 8) = y"
proof -
  from assms have *: "0 \<le> x" "x < 8" "0 \<le> y" "y < 8" by (auto simp: off_board_def)
  then show "nat (y * 8 + x) < 64" by linarith
  have "int (nat (y * 8 + x)) = y * 8 + x" using * by simp
  then show "int (nat (y * 8 + x) mod 8) = x" and "int (nat (y * 8 + x) div 8) = y"
    using * by (simp_all add: zmod_int zdiv_int)
qed

lemma bit_calc_ray_loop:
  "bit (calc_ray_loop d x y bb) n \<longleftrightarrow> bit bb n \<or> n \<in> set (ray_from d x y)"
proof (induction d x y bb rule: calc_ray_loop.induct)
  case (1 d x y bb)
  obtain x' y' where st: "ray_step d x y = (x', y')" by (metis surj_pair)
  show ?case
  proof (cases "off_board x' y'")
    case True
    then show ?thesis by (simp add: calc_ray_loop.simps [of d x] ray_from.simps [of d x] st)
  next
    case False
    with "1" [OF st [symmetric] False] on_board_square(1) [OF False] show ?thesis
      by (auto simp: calc_ray_loop.simps [of d x] ray_from.simps [of d x] st bitboard_simps)
  qed
qed

lemma bit_SlidersMasks: "bit (SlidersMasks p d) n \<longleftrightarrow> n \<in> set (ray_squares d p)"
  by (simp add: SlidersMasks_def calc_ray_def ray_squares_def bit_calc_ray_loop)

text \<open>The ray from a square on a ray is the rest of that ray.\<close>

lemma ray_from_suffix: "ray_from d x y = xs @ q # ys \<Longrightarrow> ray_squares d q = ys"
proof (induction d x y arbitrary: xs rule: ray_from.induct)
  case (1 d x y)
  obtain x' y' where st: "ray_step d x y = (x', y')" by (metis surj_pair)
  have on: "\<not> off_board x' y'"
    using "1.prems" by (auto simp: ray_from.simps [of d x] st split: if_splits)
  then have unf: "nat (y' * 8 + x') # ray_from d x' y' = xs @ q # ys"
    using "1.prems" by (simp add: ray_from.simps [of d x] st)
  show ?case
  proof (cases xs)
    case Nil
    with unf have "q = nat (y' * 8 + x')" and "ys = ray_from d x' y'" by auto
    then show ?thesis using on_board_square [OF on] by (simp add: ray_squares_def)
  next
    case (Cons a xs')
    with unf have "ray_from d x' y' = xs' @ q # ys" by auto
    then show ?thesis using "1.IH" [OF st [symmetric] on] by blast
  qed
qed

lemma ray_squares_suffix: "ray_squares d p = xs @ q # ys \<Longrightarrow> ray_squares d q = ys"
  using ray_from_suffix by (simp add: ray_squares_def)

lemma ray_from_less: "n \<in> set (ray_from d x y) \<Longrightarrow> n < 64"
proof (induction d x y rule: ray_from.induct)
  case (1 d x y)
  then show ?case
    by (auto simp: ray_from.simps [of d x] on_board_square split: if_splits prod.splits)
qed

lemma ray_squares_less: "n \<in> set (ray_squares d p) \<Longrightarrow> n < 64"
  by (simp add: ray_squares_def ray_from_less)

text \<open>
  The four directions in which square numbers grow are scanned with \<open>bsf\<close>, the other four with
  \<open>bsr\<close>: in both cases the first blocker met on the walk is the one the scan returns.
\<close>

fun ascending :: "direction \<Rightarrow> bool" where
  "ascending North = True"
| "ascending East = True"
| "ascending NorthWest = True"
| "ascending NorthEast = True"
| "ascending _ = False"

lemma ray_step_order:
  assumes "ray_step d x y = (x', y')" and "\<not> off_board x' y'"
  shows "if ascending d then y * 8 + x < y' * 8 + x' else y' * 8 + x' < y * 8 + x"
  using assms by (cases d) auto

lemma ray_from_order:
  "\<forall>n \<in> set (ray_from d x y). if ascending d then y * 8 + x < int n else int n < y * 8 + x"
proof (induction d x y rule: ray_from.induct)
  case (1 d x y)
  obtain x' y' where st: "ray_step d x y = (x', y')" by (metis surj_pair)
  show ?case
  proof (cases "off_board x' y'")
    case False
    then have "0 \<le> y' * 8 + x'" by (auto simp: off_board_def)
    with "1" [OF st [symmetric] False] ray_step_order [OF st False] False show ?thesis
      by (auto simp: ray_from.simps [of d x] st split: if_splits)
  qed (simp add: ray_from.simps [of d x] st)
qed

lemma ray_squares_sorted:
  "if ascending d then sorted_wrt (<) (ray_squares d p) else sorted_wrt (>) (ray_squares d p)"
proof -
  have "if ascending d then sorted_wrt (<) (ray_from d x y) else sorted_wrt (>) (ray_from d x y)" for x y
  proof (induction d x y rule: ray_from.induct)
    case (1 d x y)
    obtain x' y' where st: "ray_step d x y = (x', y')" by (metis surj_pair)
    show ?case
    proof (cases "off_board x' y'")
      case False
      then have "0 \<le> y' * 8 + x'" by (auto simp: off_board_def)
      with "1" [OF st [symmetric] False] ray_from_order [of d x' y'] False show ?thesis
        by (auto simp: ray_from.simps [of d x] st nat_less_iff zless_nat_eq_int_zless split: if_splits)
    qed (simp add: ray_from.simps [of d x] st)
  qed
  then show ?thesis by (simp add: ray_squares_def)
qed

end
