(* ===== verification/Pieces.thy ===== *)
theory Pieces
  imports Masks
begin

text \<open>
  The piece placement of \<^verbatim>\<open>chess_engine/pieces.hpp\<close> and \<^verbatim>\<open>pieces.cpp\<close>: twelve
  bitboards (\<open>piece_bitboards side type\<close>) and the auxiliary boards that \<open>update_bitboards\<close>
  derives from them. The two-dimensional array of the source is a curried function of side
  and type. The constructor from a FEN placement is fallible: a piece letter beyond the board
  makes the source shift by 64 or more, which is undefined, and the model returns \<open>None\<close> there.
\<close>

section \<open>Piece types and colours\<close>

definition Pawn :: nat where "Pawn = 0"
definition Knight :: nat where "Knight = 1"
definition Bishop :: nat where "Bishop = 2"
definition Rook :: nat where "Rook = 3"
definition Queen :: nat where "Queen = 4"
definition King :: nat where "King = 5"

lemmas piece_type_defs = Pawn_def Knight_def Bishop_def Rook_def Queen_def King_def

definition White :: nat where "White = 0"
definition Black :: nat where "Black = 1"

lemmas piece_color_defs = White_def Black_def

text \<open>\<^verbatim>\<open>side ^ 1\<close> on an eight-bit side.\<close>

definition inverse_side :: "nat \<Rightarrow> nat" where
  "inverse_side side = side XOR 1"

lemma inverse_side_simps [simp]:
  "inverse_side White = Black" "inverse_side Black = White"
  "inverse_side 0 = Suc 0" "inverse_side (Suc 0) = 0"
  by (simp_all add: inverse_side_def piece_color_defs)

lemma inverse_side_less: "side < 2 \<Longrightarrow> inverse_side side < 2"
  by (auto simp: less_2_cases_iff)

lemma inverse_side_neq: "side < 2 \<Longrightarrow> inverse_side side \<noteq> side"
  by (auto simp: less_2_cases_iff)

lemma inverse_side_inverse: "side < 2 \<Longrightarrow> inverse_side (inverse_side side) = side"
  by (auto simp: less_2_cases_iff)

definition to_char :: "nat \<Rightarrow> nat \<Rightarrow> char" where
  "to_char type color =
     [[CHR ''P'', CHR ''N'', CHR ''B'', CHR ''R'', CHR ''Q'', CHR ''K''],
      [CHR ''p'', CHR ''n'', CHR ''b'', CHR ''r'', CHR ''q'', CHR ''k'']] ! color ! type"

section \<open>The piece boards\<close>

type_synonym boards = "nat \<Rightarrow> nat \<Rightarrow> bitboard"

record pieces =
  piece_bitboards :: boards
  side_bitboards :: "nat \<Rightarrow> bitboard"
  inversion_side_bitboards :: "nat \<Rightarrow> bitboard"
  all_bb :: bitboard
  empty_bb :: bitboard

definition upd_board :: "boards \<Rightarrow> nat \<Rightarrow> nat \<Rightarrow> bitboard \<Rightarrow> boards" where
  "upd_board pb side type bb = pb(side := (pb side)(type := bb))"

lemma upd_board_apply [simp]:
  "upd_board pb s t bb s' t' = (if s' = s \<and> t' = t then bb else pb s' t')"
  by (simp add: upd_board_def)

definition side_union :: "boards \<Rightarrow> nat \<Rightarrow> bitboard" where
  "side_union pb side =
     pb side Pawn OR pb side Knight OR pb side Bishop OR pb side Rook OR pb side Queen OR pb side King"

definition update_bitboards :: "pieces \<Rightarrow> pieces" where
  "update_bitboards p =
     (let w = side_union (piece_bitboards p) White;
          b = side_union (piece_bitboards p) Black
      in p\<lparr>side_bitboards := (side_bitboards p)(White := w, Black := b),
           inversion_side_bitboards := (inversion_side_bitboards p)(White := NOT w, Black := NOT b),
           all_bb := w OR b,
           empty_bb := NOT (w OR b)\<rparr>)"

definition zero_pieces :: pieces where
  "zero_pieces = \<lparr>piece_bitboards = (\<lambda>_ _. 0), side_bitboards = (\<lambda>_. 0),
     inversion_side_bitboards = (\<lambda>_. 0), all_bb = 0, empty_bb = 0\<rparr>"

section \<open>The constructor from a FEN placement\<close>

definition digit_value :: "char \<Rightarrow> nat" where
  "digit_value ch = byte ch - 48"

fun piece_of_letter :: "char \<Rightarrow> nat option" where
  "piece_of_letter ch =
     (if ch = CHR ''p'' then Some Pawn
      else if ch = CHR ''n'' then Some Knight
      else if ch = CHR ''b'' then Some Bishop
      else if ch = CHR ''r'' then Some Rook
      else if ch = CHR ''q'' then Some Queen
      else if ch = CHR ''k'' then Some King
      else None)"

fun fen_loop :: "string \<Rightarrow> nat \<Rightarrow> nat \<Rightarrow> boards \<Rightarrow> boards option" where
  "fen_loop [] x y pb = Some pb"
| "fen_loop (ch # rest) x y pb =
     (if ch = CHR ''/'' then fen_loop rest 0 (u8_sub y 1) pb
      else if isdigit ch then fen_loop rest (u8_add x (digit_value ch)) y pb
      else
        (let side = (if isupper ch then White else Black);
             square = (y * 8 + x) mod 256
         in case piece_of_letter (tolower ch) of
              None \<Rightarrow> fen_loop rest (u8_add x 1) y pb
            | Some t \<Rightarrow>
                if square < 64
                then fen_loop rest (u8_add x 1) y (upd_board pb side t (set_1 (pb side t) square))
                else None))"

definition Pieces_of_fen :: "string \<Rightarrow> pieces option" where
  "Pieces_of_fen fen =
     (case fen_loop fen 0 7 (piece_bitboards zero_pieces) of
        None \<Rightarrow> None
      | Some pb \<Rightarrow> Some (update_bitboards (zero_pieces\<lparr>piece_bitboards := pb\<rparr>)))"

section \<open>Reading the board\<close>

definition pieces_equal :: "pieces \<Rightarrow> pieces \<Rightarrow> bool" where
  "pieces_equal p q \<longleftrightarrow>
     list_all (\<lambda>i. list_all (\<lambda>j. piece_bitboards p i j = piece_bitboards q i j) [0..<6]) [0..<2]"

definition piece_at :: "pieces \<Rightarrow> nat \<Rightarrow> nat" where
  "piece_at p square =
     (case find (\<lambda>(side, type). get_bit (piece_bitboards p side type) square)
             (List.product [0..<2] [0..<6]) of
        Some (side, type) \<Rightarrow> type
      | None \<Rightarrow> 255)"

definition color_at :: "pieces \<Rightarrow> nat \<Rightarrow> nat" where
  "color_at p square =
     (if get_bit (side_bitboards p White) square then White
      else if get_bit (side_bitboards p Black) square then Black
      else 255)"

section \<open>Well-formed placements\<close>

text \<open>
  \<open>synced\<close> says that the auxiliary boards are those of \<open>update_bitboards\<close>; \<open>disjoint_boards\<close>
  that no square carries two pieces.
\<close>

definition synced :: "pieces \<Rightarrow> bool" where
  "synced p \<longleftrightarrow>
     (\<forall>s < 2. side_bitboards p s = side_union (piece_bitboards p) s \<and>
              inversion_side_bitboards p s = NOT (side_union (piece_bitboards p) s)) \<and>
     all_bb p = side_union (piece_bitboards p) White OR side_union (piece_bitboards p) Black \<and>
     empty_bb p = NOT (all_bb p)"

definition disjoint_boards :: "boards \<Rightarrow> bool" where
  "disjoint_boards pb \<longleftrightarrow>
     (\<forall>s < 2. \<forall>t < 6. \<forall>s' < 2. \<forall>t' < 6. \<forall>sq.
        bit (pb s t) sq \<longrightarrow> bit (pb s' t') sq \<longrightarrow> s = s' \<and> t = t')"

definition wf_pieces :: "pieces \<Rightarrow> bool" where
  "wf_pieces p \<longleftrightarrow> synced p \<and> disjoint_boards (piece_bitboards p)"

lemma piece_bitboards_update [simp]: "piece_bitboards (update_bitboards p) = piece_bitboards p"
  by (simp add: update_bitboards_def Let_def)

lemma synced_update [simp, wf_intros]: "synced (update_bitboards p)"
  by (auto simp: synced_def update_bitboards_def Let_def less_2_cases_iff piece_color_defs)

lemma less_6_cases: "(t::nat) < 6 \<longleftrightarrow> t = 0 \<or> t = 1 \<or> t = 2 \<or> t = 3 \<or> t = 4 \<or> t = 5"
  by auto

lemma bit_side_union [bitboard_simps]: "bit (side_union pb s) n \<longleftrightarrow> (\<exists>t < 6. bit (pb s t) n)"
  by (auto simp: side_union_def bit_or_iff piece_type_defs less_6_cases)

lemma synced_sideD: "synced p \<Longrightarrow> s < 2 \<Longrightarrow> bit (side_bitboards p s) n \<longleftrightarrow> (\<exists>t < 6. bit (piece_bitboards p s t) n)"
  by (simp add: synced_def bit_side_union)

lemma synced_inversionD:
  "synced p \<Longrightarrow> s < 2 \<Longrightarrow> bit (inversion_side_bitboards p s) n \<longleftrightarrow> n < 64 \<and> \<not> bit (side_bitboards p s) n"
  by (auto simp: synced_def bit_not_iff possible_bit_def)

lemma synced_allD: "synced p \<Longrightarrow> bit (all_bb p) n \<longleftrightarrow> (\<exists>s < 2. bit (side_bitboards p s) n)"
  by (simp add: synced_def bit_or_iff piece_color_defs ex_less_2 all_less_2)

lemma synced_all_sides:
  assumes "synced p" and "side < 2"
  shows "bit (all_bb p) n \<longleftrightarrow> bit (side_bitboards p side) n \<or> bit (side_bitboards p (inverse_side side)) n"
proof -
  have "side = 0 \<or> side = Suc 0" using assms(2) by auto
  then show ?thesis using synced_allD [OF assms(1), of n] by (auto simp: ex_less_2)
qed

lemma synced_emptyD: "synced p \<Longrightarrow> bit (empty_bb p) n \<longleftrightarrow> n < 64 \<and> \<not> bit (all_bb p) n"
  unfolding synced_def by (auto simp: bit_simps)

lemma disjoint_boardsD:
  "disjoint_boards pb \<Longrightarrow> s < 2 \<Longrightarrow> t < 6 \<Longrightarrow> s' < 2 \<Longrightarrow> t' < 6 \<Longrightarrow> bit (pb s t) n \<Longrightarrow> bit (pb s' t') n
    \<Longrightarrow> s = s' \<and> t = t'"
  unfolding disjoint_boards_def by blast

lemma disjoint_sides:
  assumes "wf_pieces p" and "s < 2" and "bit (side_bitboards p s) n"
  shows "\<not> bit (side_bitboards p (inverse_side s)) n"
  using assms disjoint_boardsD [of "piece_bitboards p" s _ "inverse_side s"]
    inverse_side_less [of s] inverse_side_neq [of s]
  by (auto simp: wf_pieces_def synced_sideD)

text \<open>The abstract board: which piece stands on a square.\<close>

definition board :: "pieces \<Rightarrow> nat \<Rightarrow> (nat \<times> nat) option" where
  "board p sq = find (\<lambda>(side, type). bit (piece_bitboards p side type) sq) (List.product [0..<2] [0..<6])"

lemma board_NoneD: "board p sq = None \<Longrightarrow> s < 2 \<Longrightarrow> t < 6 \<Longrightarrow> \<not> bit (piece_bitboards p s t) sq"
  by (auto simp: board_def find_None_iff)

lemma board_SomeD: "board p sq = Some (s, t) \<Longrightarrow> s < 2 \<and> t < 6 \<and> bit (piece_bitboards p s t) sq"
  unfolding board_def find_Some_iff by (auto simp: set_product simp flip: length_product dest!: nth_mem)

lemma board_SomeI:
  assumes "disjoint_boards (piece_bitboards p)" "s < 2" "t < 6" "bit (piece_bitboards p s t) sq"
  shows "board p sq = Some (s, t)"
proof (cases "board p sq")
  case None
  then show ?thesis using assms board_NoneD by blast
next
  case (Some st)
  then show ?thesis using assms board_SomeD disjoint_boardsD by (cases st) blast
qed

lemma piece_at_board: "piece_at p sq = (case board p sq of Some (s, t) \<Rightarrow> t | None \<Rightarrow> 255)"
  by (simp add: piece_at_def board_def get_bit_iff)

lemma color_at_board:
  assumes "wf_pieces p"
  shows "color_at p sq = (case board p sq of Some (s, t) \<Rightarrow> s | None \<Rightarrow> 255)"
proof (cases "board p sq")
  case None
  then show ?thesis
    using assms board_NoneD [OF None]
    by (auto simp: color_at_def get_bit_iff wf_pieces_def synced_sideD piece_color_defs)
next
  case (Some st)
  obtain s t where st: "st = (s, t)" by (cases st)
  with Some board_SomeD have *: "s < 2" "t < 6" "bit (piece_bitboards p s t) sq" by auto
  then have "bit (side_bitboards p s) sq" using assms by (auto simp: wf_pieces_def synced_sideD)
  with * disjoint_sides [OF assms, of s] show ?thesis
    by (auto simp: Some st color_at_def get_bit_iff piece_color_defs less_2_cases_iff)
qed

end
