(* ===== verification/Moves.thy ===== *)
theory Moves
  imports Pieces
begin

text \<open>
  \<^verbatim>\<open>chess_engine/move.hpp\<close> and \<^verbatim>\<open>move_list.hpp\<close>: one move with its flag, and the
  bounded move list whose \<open>push_back\<close> silently ignores a move once \<open>MAX_MOVES\<close> are stored.
\<close>

section \<open>Moves\<close>

record move =
  mv_from :: nat
  mv_to :: nat
  attacker_type :: nat
  attacker_side :: nat
  defender_type :: nat
  defender_side :: nat
  mv_flag :: nat

definition Default :: nat where "Default = 0"
definition PawnLongMove :: nat where "PawnLongMove = 1"
definition EnPassantCapture :: nat where "EnPassantCapture = 2"
definition WhiteLongCastling :: nat where "WhiteLongCastling = 3"
definition WhiteShortCastling :: nat where "WhiteShortCastling = 4"
definition BlackLongCastling :: nat where "BlackLongCastling = 5"
definition BlackShortCastling :: nat where "BlackShortCastling = 6"
definition PromoteToKnight :: nat where "PromoteToKnight = 7"
definition PromoteToBishop :: nat where "PromoteToBishop = 8"
definition PromoteToRook :: nat where "PromoteToRook = 9"
definition PromoteToQueen :: nat where "PromoteToQueen = 10"

lemmas flag_defs = Default_def PawnLongMove_def EnPassantCapture_def WhiteLongCastling_def
  WhiteShortCastling_def BlackLongCastling_def BlackShortCastling_def PromoteToKnight_def
  PromoteToBishop_def PromoteToRook_def PromoteToQueen_def

text \<open>The two constructors: the default one and the one with seven arguments.\<close>

definition default_move :: move where
  "default_move = \<lparr>mv_from = 0, mv_to = 0, attacker_type = 255, attacker_side = 255,
     defender_type = 255, defender_side = 255, mv_flag = 0\<rparr>"

definition Move :: "nat \<Rightarrow> nat \<Rightarrow> nat \<Rightarrow> nat \<Rightarrow> nat \<Rightarrow> nat \<Rightarrow> nat \<Rightarrow> move" where
  "Move f t at_type at_side df_type df_side fl =
     \<lparr>mv_from = f, mv_to = t, attacker_type = at_type, attacker_side = at_side,
      defender_type = df_type, defender_side = df_side, mv_flag = fl\<rparr>"

lemma Move_sel [simp]:
  "mv_from (Move f t a s d e fl) = f" "mv_to (Move f t a s d e fl) = t"
  "attacker_type (Move f t a s d e fl) = a" "attacker_side (Move f t a s d e fl) = s"
  "defender_type (Move f t a s d e fl) = d" "defender_side (Move f t a s d e fl) = e"
  "mv_flag (Move f t a s d e fl) = fl"
  by (simp_all add: Move_def)

definition move_equal :: "move \<Rightarrow> move \<Rightarrow> bool" where
  "move_equal m n \<longleftrightarrow> mv_from m = mv_from n \<and> mv_to m = mv_to n \<and> mv_flag m = mv_flag n"

definition move_to_string :: "move \<Rightarrow> string" where
  "move_to_string m =
     [char_of (97 + mv_from m mod 8), char_of (49 + mv_from m div 8),
      char_of (97 + mv_to m mod 8), char_of (49 + mv_to m div 8)]"

section \<open>The bounded move list\<close>

definition MAX_MOVES :: nat where "MAX_MOVES = 218"

type_synonym move_list = "move list"

definition push_back :: "move_list \<Rightarrow> move \<Rightarrow> move_list" where
  "push_back moves m = (if length moves < MAX_MOVES then moves @ [m] else moves)"

lemma push_back_length: "length ms \<le> MAX_MOVES \<Longrightarrow> length (push_back ms m) \<le> MAX_MOVES"
  by (simp add: push_back_def)

lemma set_push_back: "set (push_back ms m) \<subseteq> insert m (set ms)"
  by (auto simp: push_back_def)

lemma set_push_back_mono: "set ms \<subseteq> set (push_back ms m)"
  by (auto simp: push_back_def)

lemma push_back_member: "x \<in> set (push_back ms m) \<Longrightarrow> x = m \<or> x \<in> set ms"
  using set_push_back by blast

end
