(* ===== verification/Zobrist.thy ===== *)
theory Zobrist
  imports Moves
begin

text \<open>
  Zobrist hashing (\<^verbatim>\<open>chess_engine/zobrist.hpp\<close>, \<^verbatim>\<open>zobrist.cpp\<close>). The constants are
  the successive values of the linear congruential generator, computed modulo \<open>2 ^ 64\<close> as in
  the source. The hash object is its 64-bit value. The lemmas give a reference hash of a set
  of boards as the exclusive or over all (square, side, type) triples, and show that the
  constructor computes it and that inverting one piece updates it.
\<close>

section \<open>The constants\<close>

definition PRNG_Seed :: u64 where "PRNG_Seed = 0x98f107"
definition PRNG_Multiplier :: u64 where "PRNG_Multiplier = 0x71abc9"
definition PRNG_Summand :: u64 where "PRNG_Summand = 0xff1b3f"

definition next_random :: "u64 \<Rightarrow> u64" where
  "next_random prev = PRNG_Multiplier * prev + PRNG_Summand"

text \<open>
  The triple loop of \<open>calc_constants\<close> stores one value per (square, side, type), in that
  nesting order; the list holds them in the order of the loop.
\<close>

fun constants_loop :: "nat \<Rightarrow> u64 \<Rightarrow> u64 list" where
  "constants_loop 0 prev = []"
| "constants_loop (Suc n) prev = (let v = next_random prev in v # constants_loop n v)"

definition calc_constants :: "u64 list" where
  "calc_constants = constants_loop (64 * 2 * 6) PRNG_Seed"

definition Constants :: "nat \<Rightarrow> nat \<Rightarrow> nat \<Rightarrow> u64" where
  "Constants square side type = calc_constants ! (square * 12 + side * 6 + type)"

definition BlackMove :: u64 where "BlackMove = next_random (Constants 63 1 5)"
definition WhiteLongCastlingC :: u64 where "WhiteLongCastlingC = next_random BlackMove"
definition WhiteShortCastlingC :: u64 where "WhiteShortCastlingC = next_random WhiteLongCastlingC"
definition BlackLongCastlingC :: u64 where "BlackLongCastlingC = next_random WhiteShortCastlingC"
definition BlackShortCastlingC :: u64 where "BlackShortCastlingC = next_random BlackLongCastlingC"

section \<open>The hash\<close>

definition invert_piece :: "nat \<Rightarrow> nat \<Rightarrow> nat \<Rightarrow> u64 \<Rightarrow> u64" where
  "invert_piece square type side h = h XOR Constants square side type"

definition invert_move :: "u64 \<Rightarrow> u64" where
  "invert_move h = h XOR BlackMove"

definition invert_w_l_castling :: "u64 \<Rightarrow> u64" where
  "invert_w_l_castling h = h XOR WhiteLongCastlingC"

definition invert_w_s_castling :: "u64 \<Rightarrow> u64" where
  "invert_w_s_castling h = h XOR WhiteShortCastlingC"

definition invert_b_l_castling :: "u64 \<Rightarrow> u64" where
  "invert_b_l_castling h = h XOR BlackLongCastlingC"

definition invert_b_s_castling :: "u64 \<Rightarrow> u64" where
  "invert_b_s_castling h = h XOR BlackShortCastlingC"

lemmas invert_defs = invert_piece_def invert_move_def invert_w_l_castling_def
  invert_w_s_castling_def invert_b_l_castling_def invert_b_s_castling_def

definition ZobristHash :: "pieces \<Rightarrow> bool \<Rightarrow> bool \<Rightarrow> bool \<Rightarrow> bool \<Rightarrow> bool \<Rightarrow> u64" where
  "ZobristHash p black_move w_l w_s b_l b_s =
     (let h0 = 0;
          h1 = (if black_move then invert_move h0 else h0);
          h2 = (if w_l then invert_w_l_castling h1 else h1);
          h3 = (if w_s then invert_w_s_castling h2 else h2);
          h4 = (if b_l then invert_b_l_castling h3 else h3);
          h5 = (if b_s then invert_b_s_castling h4 else h4)
      in fold (\<lambda>square h.
           let color = color_at p square in
           if color = 255 then h
           else let type = piece_at p square in invert_piece square type color h) [0..<64] h5)"

section \<open>The reference hash\<close>

definition xor_list :: "u64 list \<Rightarrow> u64" where
  "xor_list xs = foldr (XOR) xs 0"

lemma xor_list_simps [simp]: "xor_list [] = 0" "xor_list (x # xs) = x XOR xor_list xs"
  by (simp_all add: xor_list_def)

lemma xor_list_append [simp]: "xor_list (xs @ ys) = xor_list xs XOR xor_list ys"
  by (induction xs) (simp_all add: xor.assoc)

lemma xor_self_cancel [simp]: "(a :: u64) XOR (a XOR b) = b" "(a XOR b) XOR b = a" for a b :: u64
  by (simp flip: xor.assoc) (simp add: xor.assoc)

lemma xor_list_zero: "(\<And>x. x \<in> set xs \<Longrightarrow> f x = 0) \<Longrightarrow> xor_list (map f xs) = 0"
  by (induction xs) auto

lemma xor_list_single:
  "distinct xs \<Longrightarrow> x \<in> set xs \<Longrightarrow> (\<And>y. y \<in> set xs \<Longrightarrow> y \<noteq> x \<Longrightarrow> f y = 0) \<Longrightarrow> xor_list (map f xs) = f x"
proof (induction xs)
  case (Cons y ys)
  show ?case
  proof (cases "y = x")
    case True
    then have "xor_list (map f ys) = 0" using Cons.prems by (intro xor_list_zero) auto
    then show ?thesis using True by simp
  next
    case False
    then show ?thesis using Cons by auto
  qed
qed simp

lemma xor_list_change:
  "distinct xs \<Longrightarrow> x \<in> set xs \<Longrightarrow> (\<And>y. y \<in> set xs \<Longrightarrow> y \<noteq> x \<Longrightarrow> g y = f y)
    \<Longrightarrow> xor_list (map g xs) = xor_list (map f xs) XOR (f x XOR g x)"
proof (induction xs)
  case (Cons y ys)
  show ?case
  proof (cases "y = x")
    case True
    then have "xor_list (map g ys) = xor_list (map f ys)"
      using Cons.prems by (intro arg_cong [of _ _ xor_list] map_cong) auto
    then show ?thesis using True by (simp add: ac_simps)
  next
    case False
    then show ?thesis using Cons by (simp add: ac_simps)
  qed
qed simp

definition triples :: "(nat \<times> nat \<times> nat) list" where
  "triples = List.product [0..<64] (List.product [0..<2] [0..<6])"

definition piece_key :: "boards \<Rightarrow> nat \<times> nat \<times> nat \<Rightarrow> u64" where
  "piece_key pb = (\<lambda>(sq, s, t). if bit (pb s t) sq then Constants sq s t else 0)"

definition boards_hash :: "boards \<Rightarrow> u64" where
  "boards_hash pb = xor_list (map (piece_key pb) triples)"

definition flags_hash :: "bool \<Rightarrow> bool \<Rightarrow> bool \<Rightarrow> bool \<Rightarrow> bool \<Rightarrow> u64" where
  "flags_hash black_move w_l w_s b_l b_s =
     (if black_move then BlackMove else 0) XOR (if w_l then WhiteLongCastlingC else 0) XOR
     (if w_s then WhiteShortCastlingC else 0) XOR (if b_l then BlackLongCastlingC else 0) XOR
     (if b_s then BlackShortCastlingC else 0)"

lemma distinct_triples [simp]: "distinct triples"
  by (simp add: triples_def distinct_product)

lemma in_triples [simp]: "(sq, s, t) \<in> set triples \<longleftrightarrow> sq < 64 \<and> s < 2 \<and> t < 6"
  by (auto simp: triples_def)

text \<open>Inverting one piece's key is what adding or removing it does to the reference hash.\<close>

lemma boards_hash_flip:
  assumes "sq < 64" "s < 2" "t < 6"
    and "bit bb sq \<longleftrightarrow> \<not> bit (pb s t) sq"
    and "\<And>n. n \<noteq> sq \<Longrightarrow> bit bb n \<longleftrightarrow> bit (pb s t) n"
  shows "boards_hash (upd_board pb s t bb) = invert_piece sq t s (boards_hash pb)"
proof -
  have "boards_hash (upd_board pb s t bb) =
      boards_hash pb XOR (piece_key pb (sq, s, t) XOR piece_key (upd_board pb s t bb) (sq, s, t))"
    unfolding boards_hash_def
  proof (rule xor_list_change)
    fix y assume "y \<noteq> (sq, s, t)"
    then show "piece_key (upd_board pb s t bb) y = piece_key pb y"
      using assms(5) by (cases y) (auto simp: piece_key_def)
  qed (use assms in auto)
  also have "piece_key pb (sq, s, t) XOR piece_key (upd_board pb s t bb) (sq, s, t) = Constants sq s t"
    using assms by (simp add: piece_key_def)
  finally show ?thesis by (simp only: invert_piece_def)
qed

lemma boards_hash_squares:
  "boards_hash pb = xor_list (map (\<lambda>sq. xor_list (map (\<lambda>st. piece_key pb (sq, st))
      (List.product [0..<2] [0..<6]))) [0..<64])"
proof -
  have "xor_list (map f (List.product xs ys)) = xor_list (map (\<lambda>x. xor_list (map (\<lambda>y. f (x, y)) ys)) xs)"
    for f :: "nat \<times> nat \<times> nat \<Rightarrow> u64" and xs ys
    by (induction xs) (simp_all add: comp_def)
  then show ?thesis by (simp add: boards_hash_def triples_def)
qed

lemma square_hash:
  assumes "disjoint_boards (piece_bitboards p)"
  shows "xor_list (map (\<lambda>st. piece_key (piece_bitboards p) (sq, st)) (List.product [0..<2] [0..<6]))
    = (case board p sq of None \<Rightarrow> 0 | Some (s, t) \<Rightarrow> Constants sq s t)"
proof (cases "board p sq")
  case None
  then have "xor_list (map (\<lambda>st. piece_key (piece_bitboards p) (sq, st)) (List.product [0..<2] [0..<6])) = 0"
    by (intro xor_list_zero) (auto simp: piece_key_def dest: board_NoneD)
  then show ?thesis by (simp add: None)
next
  case (Some st)
  obtain s t where st: "st = (s, t)" by (cases st)
  with Some board_SomeD have *: "s < 2" "t < 6" "bit (piece_bitboards p s t) sq" by auto
  have "xor_list (map (\<lambda>st. piece_key (piece_bitboards p) (sq, st)) (List.product [0..<2] [0..<6]))
      = piece_key (piece_bitboards p) (sq, (s, t))"
    by (rule xor_list_single)
      (use * assms in \<open>auto simp: distinct_product piece_key_def split: if_splits dest: disjoint_boardsD\<close>)
  then show ?thesis using * by (simp add: Some st piece_key_def)
qed

lemma fold_xor_list:
  assumes "\<And>x h. x \<in> set xs \<Longrightarrow> g x h = h XOR f x"
  shows "fold g xs h = h XOR xor_list (map f xs)"
  using assms by (induction xs arbitrary: h) (simp_all add: xor.assoc)

lemma ZobristHash_eq:
  assumes "wf_pieces p"
  shows "ZobristHash p black_move w_l w_s b_l b_s =
    flags_hash black_move w_l w_s b_l b_s XOR boards_hash (piece_bitboards p)"
proof -
  let ?f = "\<lambda>sq. xor_list (map (\<lambda>st. piece_key (piece_bitboards p) (sq, st)) (List.product [0..<2] [0..<6]))"
  let ?g = "\<lambda>square h. let color = color_at p square in if color = 255 then h
           else let type = piece_at p square in invert_piece square type color h"
  have "?g sq h = h XOR ?f sq" for sq h
  proof (cases "board p sq")
    case None
    then show ?thesis
      using assms by (simp add: square_hash color_at_board wf_pieces_def)
  next
    case (Some st)
    obtain s t where st: "st = (s, t)" by (cases st)
    with Some board_SomeD have "s < 2" by blast
    then show ?thesis
      using assms by (simp add: Some st square_hash color_at_board piece_at_board wf_pieces_def invert_piece_def)
  qed
  then have "fold ?g [0..<64] h = h XOR boards_hash (piece_bitboards p)" for h
    unfolding boards_hash_squares by (rule fold_xor_list)
  moreover have "ZobristHash p black_move w_l w_s b_l b_s = fold ?g [0..<64] (flags_hash black_move w_l w_s b_l b_s)"
    unfolding ZobristHash_def flags_hash_def Let_def
    by (cases black_move; cases w_l; cases w_s; cases b_l; cases b_s) (simp_all add: invert_defs xor.assoc)
  ultimately show ?thesis by simp
qed

end
