(* ===== verification/Attacks.thy ===== *)
theory Attacks
  imports Zobrist
begin

text \<open>
  The attack queries of \<^verbatim>\<open>chess_engine/move_gen.cpp\<close>: attacks by pawns, knights and the
  king, the blocked rays of the sliding pieces, \<open>is_square_attacked\<close>, \<open>is_check\<close> and the
  legality test. The lemmas relate the bit tricks to the geometry of the board: the blocked
  ray is the walk along the ray up to the first piece; and they show what
  \<open>is_square_attacked\<close> really answers.
\<close>

section \<open>Pawns, knights and the king\<close>

definition is_square_attacked_by_pawns :: "pieces \<Rightarrow> nat \<Rightarrow> nat \<Rightarrow> bool" where
  "is_square_attacked_by_pawns p square by_side =
     (if by_side = White then
        (if square mod 8 \<noteq> 0 \<and> square \<ge> 8 \<and> get_bit (piece_bitboards p White Pawn) (square - 9) then True
         else if square mod 8 \<noteq> 7 \<and> square \<ge> 8 \<and> get_bit (piece_bitboards p White Pawn) (square - 7) then True
         else False)
      else
        (if square mod 8 \<noteq> 0 \<and> square \<le> 55 \<and> get_bit (piece_bitboards p Black Pawn) (square + 7) then True
         else if square mod 8 \<noteq> 7 \<and> square \<le> 55 \<and> get_bit (piece_bitboards p Black Pawn) (square + 9) then True
         else False))"

definition is_square_attacked_by_knights :: "pieces \<Rightarrow> nat \<Rightarrow> nat \<Rightarrow> bool" where
  "is_square_attacked_by_knights p square by_side =
     (KnightMasks square AND piece_bitboards p by_side Knight \<noteq> 0)"

definition is_square_attacked_by_king :: "pieces \<Rightarrow> nat \<Rightarrow> nat \<Rightarrow> bool" where
  "is_square_attacked_by_king p square by_side =
     (KingMasks square AND piece_bitboards p by_side King \<noteq> 0)"

section \<open>Sliding pieces\<close>

definition calc_blocked_ray :: "pieces \<Rightarrow> nat \<Rightarrow> nat \<Rightarrow> bool \<Rightarrow> direction \<Rightarrow> bool \<Rightarrow> bitboard" where
  "calc_blocked_ray p sq side only_captures d bsr_flag =
     (let ray = SlidersMasks sq d;
          blockers = ray AND all_bb p
      in if blockers = 0 then (if only_captures then 0 else ray)
         else
           let blocking_square = (if bsr_flag then bsr blockers else bsf blockers);
               moves = (if only_captures then 0 else ray XOR SlidersMasks blocking_square d)
           in if get_bit (side_bitboards p (inverse_side side)) blocking_square
              then set_1 moves blocking_square
              else set_0 moves blocking_square)"

definition generate_bishop_mask :: "pieces \<Rightarrow> nat \<Rightarrow> nat \<Rightarrow> bool \<Rightarrow> bitboard" where
  "generate_bishop_mask p sq side only_captures =
     calc_blocked_ray p sq side only_captures NorthWest False OR
     calc_blocked_ray p sq side only_captures NorthEast False OR
     calc_blocked_ray p sq side only_captures SouthWest True OR
     calc_blocked_ray p sq side only_captures SouthEast True"

definition generate_rook_mask :: "pieces \<Rightarrow> nat \<Rightarrow> nat \<Rightarrow> bool \<Rightarrow> bitboard" where
  "generate_rook_mask p sq side only_captures =
     calc_blocked_ray p sq side only_captures North False OR
     calc_blocked_ray p sq side only_captures South True OR
     calc_blocked_ray p sq side only_captures West True OR
     calc_blocked_ray p sq side only_captures East False"

definition generate_queen_mask :: "pieces \<Rightarrow> nat \<Rightarrow> nat \<Rightarrow> bool \<Rightarrow> bitboard" where
  "generate_queen_mask p sq side only_captures =
     generate_bishop_mask p sq side only_captures OR generate_rook_mask p sq side only_captures"

section \<open>Attacked squares, check and legality\<close>

definition is_square_attacked :: "pieces \<Rightarrow> nat \<Rightarrow> nat \<Rightarrow> bool" where
  "is_square_attacked p square by_side =
     (if is_square_attacked_by_pawns p square by_side then True
      else if is_square_attacked_by_knights p square by_side then True
      else if is_square_attacked_by_king p square by_side then True
      else if generate_bishop_mask p square by_side True AND
              (piece_bitboards p by_side Bishop OR piece_bitboards p by_side Queen) \<noteq> 0 then True
      else if generate_rook_mask p square by_side True AND
              (piece_bitboards p by_side Rook OR piece_bitboards p by_side Queen) \<noteq> 0 then True
      else False)"

definition is_check :: "pieces \<Rightarrow> nat \<Rightarrow> bool" where
  "is_check p side =
     (let king_bb = piece_bitboards p side King
      in if king_bb = 0 then False
         else is_square_attacked p (bsf king_bb) (inverse_side side))"

text \<open>The trial of a move on a copy of the pieces, as the pass-by-value argument makes it.\<close>

definition make_move :: "boards \<Rightarrow> move \<Rightarrow> bool \<Rightarrow> boards" where
  "make_move pb m en_passant_capture =
     (let s = attacker_side m; t = attacker_type m;
          pb1 = upd_board pb s t (set_0 (pb s t) (mv_from m));
          pb2 = upd_board pb1 s t (set_1 (pb1 s t) (mv_to m));
          pb3 = (if defender_type m \<noteq> 255
                 then upd_board pb2 (defender_side m) (defender_type m)
                        (set_0 (pb2 (defender_side m) (defender_type m)) (mv_to m))
                 else pb2)
      in if en_passant_capture then
           (if s = White
            then upd_board pb3 Black Pawn (set_0 (pb3 Black Pawn) (u8_sub (mv_to m) 8))
            else upd_board pb3 White Pawn (set_0 (pb3 White Pawn) (u8_add (mv_to m) 8)))
         else pb3)"

definition is_legal_after_move :: "pieces \<Rightarrow> move \<Rightarrow> bool \<Rightarrow> bool" where
  "is_legal_after_move p m en_passant_capture =
     (let p' = update_bitboards (p\<lparr>piece_bitboards := make_move (piece_bitboards p) m en_passant_capture\<rparr>);
          king_bb = piece_bitboards p' (attacker_side m) King
      in \<not> is_square_attacked p' (bsf king_bb) (inverse_side (attacker_side m)))"

record castling =
  w_l_castling :: bool
  w_s_castling :: bool
  b_l_castling :: bool
  b_s_castling :: bool

definition is_legal_move :: "pieces \<Rightarrow> move \<Rightarrow> nat \<Rightarrow> castling \<Rightarrow> bool" where
  "is_legal_move p m en_passant cr =
     (if mv_flag m \<ge> WhiteLongCastling \<and> mv_flag m \<le> BlackShortCastling then
        (let side = (if mv_flag m = WhiteLongCastling \<or> mv_flag m = WhiteShortCastling then White else Black) in
         if is_check p side then False
         else if mv_flag m = WhiteShortCastling then
           w_s_castling cr \<and> list_all (\<lambda>sq. \<not> is_square_attacked p sq Black) [5, 6]
         else if mv_flag m = WhiteLongCastling then
           w_l_castling cr \<and> list_all (\<lambda>sq. \<not> is_square_attacked p sq Black) [2, 3]
         else if mv_flag m = BlackShortCastling then
           b_s_castling cr \<and> list_all (\<lambda>sq. \<not> is_square_attacked p sq White) [61, 62]
         else if mv_flag m = BlackLongCastling then
           b_l_castling cr \<and> list_all (\<lambda>sq. \<not> is_square_attacked p sq White) [58, 59]
         else True)
      else is_legal_after_move p m (mv_flag m = EnPassantCapture))"

section \<open>The blocked ray is the walk up to the first piece\<close>

text \<open>
  The reference: walk the squares of a ray; stop before a piece of one's own, on a piece of the
  opponent.
\<close>

fun walk :: "(nat \<Rightarrow> bool) \<Rightarrow> (nat \<Rightarrow> bool) \<Rightarrow> nat list \<Rightarrow> nat list" where
  "walk occupied enemy [] = []"
| "walk occupied enemy (s # ss) =
     (if occupied s then (if enemy s then [s] else []) else s # walk occupied enemy ss)"

lemma walk_free: "\<forall>s \<in> set ss. \<not> occupied s \<Longrightarrow> walk occupied enemy ss = ss"
  by (induction ss) auto

lemma walk_blocked:
  "\<forall>s \<in> set xs. \<not> occupied s \<Longrightarrow> occupied b \<Longrightarrow>
     walk occupied enemy (xs @ b # ys) = xs @ (if enemy b then [b] else [])"
  by (induction xs) auto

lemma split_first_occupied:
  assumes "\<exists>s \<in> set ss. occupied s"
  obtains xs b ys where "ss = xs @ b # ys" "occupied b" "\<forall>s \<in> set xs. \<not> occupied s"
  using assms split_list_first_prop [of ss occupied] by blast

text \<open>The scan that fits the direction finds the first blocker of the walk.\<close>

lemma scan_first_blocker:
  assumes "ray_squares d sq = xs @ b # ys" and "bit occ b" and "\<forall>s \<in> set xs. \<not> bit occ s"
  shows "(if ascending d then bsf (SlidersMasks sq d AND occ) else bsr (SlidersMasks sq d AND occ)) = b"
proof -
  let ?bl = "SlidersMasks sq d AND occ"
  have bl: "bit ?bl n \<longleftrightarrow> n \<in> insert b (set ys) \<and> bit occ n" for n
    using assms by (auto simp: bit_and_iff bit_SlidersMasks)
  then have b: "bit ?bl b" using assms(2) by simp
  then have "?bl \<noteq> 0" by auto
  show ?thesis
  proof (cases "ascending d")
    case True
    then have "\<forall>y \<in> set ys. b < y"
      using ray_squares_sorted [of d sq] assms(1) by (auto simp: sorted_wrt_append)
    moreover have "bsf ?bl \<in> insert b (set ys)" using bsf_in [OF \<open>?bl \<noteq> 0\<close>] bl by blast
    ultimately have "bsf ?bl = b" using bsf_le [OF b] by auto
    then show ?thesis using True by simp
  next
    case False
    then have "\<forall>y \<in> set ys. y < b"
      using ray_squares_sorted [of d sq] assms(1) by (auto simp: sorted_wrt_append)
    moreover have "bsr ?bl \<in> insert b (set ys)" using bsr_in [OF \<open>?bl \<noteq> 0\<close>] bl by blast
    ultimately have "bsr ?bl = b" using bsr_ge [OF b] by auto
    then show ?thesis using False by simp
  qed
qed

lemma distinct_ray: "distinct (ray_squares d sq)"
proof (cases "ascending d")
  case True
  then show ?thesis using ray_squares_sorted [of d sq] by (simp add: strict_sorted_iff)
next
  case False
  then have "sorted_wrt (<) (rev (ray_squares d sq))"
    using ray_squares_sorted [of d sq] by (simp add: sorted_wrt_rev)
  then show ?thesis by (simp add: strict_sorted_iff)
qed

lemma calc_blocked_ray_walk:
  assumes "bsr_flag \<longleftrightarrow> \<not> ascending d"
  shows "bits_of (calc_blocked_ray p sq side False d bsr_flag) =
    set (walk (bit (all_bb p)) (bit (side_bitboards p (inverse_side side))) (ray_squares d sq))"
proof (cases "\<exists>s \<in> set (ray_squares d sq). bit (all_bb p) s")
  case False
  then have "SlidersMasks sq d AND all_bb p = 0"
    by (auto simp: word_eq_0_bits bit_and_iff bit_SlidersMasks)
  then show ?thesis
    using False by (auto simp: calc_blocked_ray_def walk_free bits_of_def bit_SlidersMasks)
next
  case True
  then obtain xs b ys where sp: "ray_squares d sq = xs @ b # ys" and occ: "bit (all_bb p) b"
    and free: "\<forall>s \<in> set xs. \<not> bit (all_bb p) s"
    by (rule split_first_occupied)
  let ?bl = "SlidersMasks sq d AND all_bb p"
  have "bit ?bl b" using sp occ by (simp add: bit_and_iff bit_SlidersMasks)
  then have nz: "?bl \<noteq> 0" by auto
  have first: "(if bsr_flag then bsr ?bl else bsf ?bl) = b"
    using scan_first_blocker [OF sp occ free] assms by (simp split: if_splits)
  have rest: "bit (SlidersMasks b d) n \<longleftrightarrow> n \<in> set ys" for n
    by (simp add: bit_SlidersMasks ray_squares_suffix [OF sp])
  have b64: "b < 64" using ray_squares_less [of b d sq] sp by simp
  have dist: "distinct (xs @ b # ys)" using distinct_ray [of d sq] sp by simp
  have "bits_of (calc_blocked_ray p sq side False d bsr_flag) =
      set xs \<union> (if bit (side_bitboards p (inverse_side side)) b then {b} else {})"
    using nz first dist b64
    by (auto simp: calc_blocked_ray_def Let_def bits_of_def get_bit_iff bit_set_1 bit_set_0
        bit_xor_iff rest bit_SlidersMasks [of sq d] sp)
  then show ?thesis using free occ by (simp add: sp walk_blocked)
qed

text \<open>With \<open>only_captures\<close> the ray holds at most one square, a piece of the opponent of \<open>side\<close>.\<close>

lemma calc_blocked_ray_captures:
  "bit (calc_blocked_ray p sq side True d bsr_flag) n \<Longrightarrow> bit (side_bitboards p (inverse_side side)) n"
  by (auto simp: calc_blocked_ray_def Let_def get_bit_iff bit_set_1 bit_set_0 split: if_splits)

lemma generate_mask_captures:
  "bit (generate_bishop_mask p sq side True) n \<Longrightarrow> bit (side_bitboards p (inverse_side side)) n"
  "bit (generate_rook_mask p sq side True) n \<Longrightarrow> bit (side_bitboards p (inverse_side side)) n"
  unfolding generate_bishop_mask_def generate_rook_mask_def bit_or_iff
  by (blast dest: calc_blocked_ray_captures)+

lemma generate_queen_mask_or:
  "bit (generate_queen_mask p sq side oc) n \<longleftrightarrow>
     bit (generate_bishop_mask p sq side oc) n \<or> bit (generate_rook_mask p sq side oc) n"
  by (simp add: generate_queen_mask_def bit_or_iff)

text \<open>
  \<open>is_square_attacked\<close> asks for the captures of the attacking side's own colour, so the mask
  holds only pieces of the other colour, and its intersection with the sliders is empty.
\<close>

lemma own_slider_not_in_captures:
  assumes "wf_pieces p" and "side < 2" and "t < 6"
    and "\<And>n. bit mk n \<Longrightarrow> bit (side_bitboards p (inverse_side side)) n"
  shows "mk AND piece_bitboards p side t = 0"
proof -
  have "\<not> (bit mk n \<and> bit (piece_bitboards p side t) n)" for n
    using assms disjoint_sides [of p side n] by (auto simp: wf_pieces_def synced_sideD)
  then show ?thesis by (simp add: word_eq_0_bits bit_and_iff)
qed

lemma is_square_attacked_eq:
  assumes "wf_pieces p" and "by_side < 2"
  shows "is_square_attacked p sq by_side \<longleftrightarrow>
    is_square_attacked_by_pawns p sq by_side \<or> is_square_attacked_by_knights p sq by_side \<or>
    is_square_attacked_by_king p sq by_side"
proof -
  have "generate_bishop_mask p sq by_side True AND piece_bitboards p by_side t = 0"
    and "generate_rook_mask p sq by_side True AND piece_bitboards p by_side t = 0" if "t < 6" for t
    using own_slider_not_in_captures [OF assms that] generate_mask_captures by blast+
  then show ?thesis
    by (simp add: is_square_attacked_def bit.conj_disj_distrib piece_type_defs)
qed

section \<open>The geometry of the step attacks\<close>

lemma diagonal_step:
  fixes a b c d :: nat
  assumes "b < 8" "d < 8"
  shows "d \<noteq> 0 \<Longrightarrow> 8 * a + b + 9 = 8 * c + d \<longleftrightarrow> a + 1 = c \<and> b + 1 = d"
    and "d \<noteq> 7 \<Longrightarrow> 8 * a + b + 7 = 8 * c + d \<longleftrightarrow> a + 1 = c \<and> b = d + 1"
proof -
  assume d: "d \<noteq> 0"
  show "8 * a + b + 9 = 8 * c + d \<longleftrightarrow> a + 1 = c \<and> b + 1 = d"
  proof
    assume eq: "8 * a + b + 9 = 8 * c + d"
    then have "a + 1 = c" using assms d by linarith
    then show "a + 1 = c \<and> b + 1 = d" using eq by linarith
  qed auto
next
  assume d: "d \<noteq> 7"
  show "8 * a + b + 7 = 8 * c + d \<longleftrightarrow> a + 1 = c \<and> b = d + 1"
  proof
    assume eq: "8 * a + b + 7 = 8 * c + d"
    then have "a + 1 = c" using assms d by linarith
    then show "a + 1 = c \<and> b = d + 1" using eq by linarith
  qed auto
qed

lemma absdiff_1: "absdiff b d = 1 \<longleftrightarrow> b + 1 = d \<or> b = d + 1"
  by (auto simp: absdiff_def)

lemma pawn_squares:
  fixes f sq :: nat
  assumes "f < 64" and "sq < 64"
  shows "f div 8 + 1 = sq div 8 \<and> absdiff (f mod 8) (sq mod 8) = 1 \<longleftrightarrow>
      (sq mod 8 \<noteq> 0 \<and> sq \<ge> 8 \<and> f = sq - 9) \<or> (sq mod 8 \<noteq> 7 \<and> sq \<ge> 8 \<and> f = sq - 7)"
    and "f div 8 = sq div 8 + 1 \<and> absdiff (f mod 8) (sq mod 8) = 1 \<longleftrightarrow>
      (sq mod 8 \<noteq> 0 \<and> sq \<le> 55 \<and> f = sq + 7) \<or> (sq mod 8 \<noteq> 7 \<and> sq \<le> 55 \<and> f = sq + 9)"
proof -
  define a b c d where abcd: "a = f div 8" "b = f mod 8" "c = sq div 8" "d = sq mod 8"
  then have fs: "f = 8 * a + b" "sq = 8 * c + d" and small: "b < 8" "d < 8" "a < 8" "c < 8"
    using assms by auto
  have up: "a + 1 = c \<and> absdiff b d = 1 \<longleftrightarrow>
      (d \<noteq> 0 \<and> sq \<ge> 8 \<and> f = sq - 9) \<or> (d \<noteq> 7 \<and> sq \<ge> 8 \<and> f = sq - 7)"
  proof -
    have c: "sq \<ge> 8 \<longleftrightarrow> c \<ge> 1" using fs small by auto
    have c7: "c \<ge> 1" if "d \<noteq> 7" "8 * a + b + 7 = 8 * c + d" using that small by linarith
    have c9: "c \<ge> 1" if "8 * a + b + 9 = 8 * c + d" using that small by linarith
    have "f = sq - 9 \<longleftrightarrow> 8 * a + b + 9 = 8 * c + d" if "c \<ge> 1" "d \<noteq> 0" using that fs by linarith
    then have *: "d \<noteq> 0 \<and> sq \<ge> 8 \<and> f = sq - 9 \<longleftrightarrow> d \<noteq> 0 \<and> 8 * a + b + 9 = 8 * c + d"
      using c c9 by blast
    have "f = sq - 7 \<longleftrightarrow> 8 * a + b + 7 = 8 * c + d" if "c \<ge> 1" using that fs by linarith
    then have "d \<noteq> 7 \<and> sq \<ge> 8 \<and> f = sq - 7 \<longleftrightarrow> d \<noteq> 7 \<and> 8 * a + b + 7 = 8 * c + d"
      using c c7 by blast
    moreover have "b + 1 = d \<Longrightarrow> d \<noteq> 0" "b = d + 1 \<Longrightarrow> d \<noteq> 7" using small by auto
    ultimately show ?thesis
      using * diagonal_step [OF small(1,2), of a c] unfolding absdiff_1 by blast
  qed
  have down: "a = c + 1 \<and> absdiff b d = 1 \<longleftrightarrow>
      (d \<noteq> 0 \<and> sq \<le> 55 \<and> f = sq + 7) \<or> (d \<noteq> 7 \<and> sq \<le> 55 \<and> f = sq + 9)"
  proof -
    have c: "sq \<le> 55 \<longleftrightarrow> c \<le> 6" using fs small by auto
    have "b \<noteq> 7 \<and> c \<le> 6" if "d \<noteq> 0" "8 * c + d + 7 = 8 * a + b"
    proof -
      have "a = c + 1" using that small by linarith
      then show ?thesis using that small by linarith
    qed
    moreover have "b \<noteq> 0 \<and> c \<le> 6" if "d \<noteq> 7" "8 * c + d + 9 = 8 * a + b"
    proof -
      have "a = c + 1" using that small by linarith
      then show ?thesis using that small by linarith
    qed
    ultimately have "d \<noteq> 0 \<and> sq \<le> 55 \<and> f = sq + 7 \<longleftrightarrow> b \<noteq> 7 \<and> d \<noteq> 0 \<and> 8 * c + d + 7 = 8 * a + b"
      "d \<noteq> 7 \<and> sq \<le> 55 \<and> f = sq + 9 \<longleftrightarrow> b \<noteq> 0 \<and> d \<noteq> 7 \<and> 8 * c + d + 9 = 8 * a + b"
      unfolding c using fs by (auto simp: ac_simps)
    moreover have "d + 1 = b \<Longrightarrow> b \<noteq> 0 \<and> d \<noteq> 7" "d = b + 1 \<Longrightarrow> b \<noteq> 7 \<and> d \<noteq> 0"
      using small by auto
    ultimately show ?thesis
      using diagonal_step [OF small(2,1), of c a] unfolding absdiff_1 by metis
  qed
  from up show "f div 8 + 1 = sq div 8 \<and> absdiff (f mod 8) (sq mod 8) = 1 \<longleftrightarrow>
      (sq mod 8 \<noteq> 0 \<and> sq \<ge> 8 \<and> f = sq - 9) \<or> (sq mod 8 \<noteq> 7 \<and> sq \<ge> 8 \<and> f = sq - 7)"
    by (simp only: abcd)
  from down show "f div 8 = sq div 8 + 1 \<and> absdiff (f mod 8) (sq mod 8) = 1 \<longleftrightarrow>
      (sq mod 8 \<noteq> 0 \<and> sq \<le> 55 \<and> f = sq + 7) \<or> (sq mod 8 \<noteq> 7 \<and> sq \<le> 55 \<and> f = sq + 9)"
    by (simp only: abcd)
qed

lemma is_square_attacked_by_pawns_iff:
  assumes "sq < 64" and "by_side < 2"
  shows "is_square_attacked_by_pawns p sq by_side \<longleftrightarrow>
    (\<exists>f. bit (piece_bitboards p by_side Pawn) f \<and> absdiff (f mod 8) (sq mod 8) = 1 \<and>
         (if by_side = White then f div 8 + 1 = sq div 8 else f div 8 = sq div 8 + 1))"
proof -
  have f64: "bit (piece_bitboards p by_side Pawn) f \<Longrightarrow> f < 64" for f
    using bit_word_less [of "piece_bitboards p by_side Pawn" f] by simp
  have "(\<exists>f. bit bb f \<and> absdiff (f mod 8) (sq mod 8) = 1 \<and> f div 8 + 1 = sq div 8) \<longleftrightarrow>
      (sq mod 8 \<noteq> 0 \<and> sq \<ge> 8 \<and> bit bb (sq - 9)) \<or> (sq mod 8 \<noteq> 7 \<and> sq \<ge> 8 \<and> bit bb (sq - 7))"
    and "(\<exists>f. bit bb f \<and> absdiff (f mod 8) (sq mod 8) = 1 \<and> f div 8 = sq div 8 + 1) \<longleftrightarrow>
      (sq mod 8 \<noteq> 0 \<and> sq \<le> 55 \<and> bit bb (sq + 7)) \<or> (sq mod 8 \<noteq> 7 \<and> sq \<le> 55 \<and> bit bb (sq + 9))"
    for bb :: bitboard
    using pawn_squares [OF _ assms(1)] bit_word_less [of bb] by (simp_all, blast+)
  then show ?thesis
    using assms(2)
    by (auto simp: is_square_attacked_by_pawns_def get_bit_iff less_2_cases_iff piece_color_defs)
qed

lemma is_square_attacked_by_knights_iff:
  "is_square_attacked_by_knights p sq by_side \<longleftrightarrow>
    (\<exists>f. bit (piece_bitboards p by_side Knight) f \<and>
      {absdiff (sq mod 8) (f mod 8), absdiff (sq div 8) (f div 8)} = {1, 2})"
proof -
  have "bit (KnightMasks sq) f \<and> bit (piece_bitboards p by_side Knight) f \<longleftrightarrow>
      bit (piece_bitboards p by_side Knight) f \<and>
      {absdiff (sq mod 8) (f mod 8), absdiff (sq div 8) (f div 8)} = {1, 2}" for f
    using bit_word_less [of "piece_bitboards p by_side Knight" f] bit_KnightMasks [of f sq] by auto
  then show ?thesis
    by (simp add: is_square_attacked_by_knights_def word_neq_0_bit bit_and_iff)
qed

lemma is_square_attacked_by_king_iff:
  "is_square_attacked_by_king p sq by_side \<longleftrightarrow>
    (\<exists>f. bit (piece_bitboards p by_side King) f \<and>
      max (absdiff (sq mod 8) (f mod 8)) (absdiff (sq div 8) (f div 8)) = 1)"
proof -
  have "bit (KingMasks sq) f \<and> bit (piece_bitboards p by_side King) f \<longleftrightarrow>
      bit (piece_bitboards p by_side King) f \<and>
      max (absdiff (sq mod 8) (f mod 8)) (absdiff (sq div 8) (f div 8)) = 1" for f
    using bit_word_less [of "piece_bitboards p by_side King" f] bit_KingMasks [of f sq] by auto
  then show ?thesis
    by (simp add: is_square_attacked_by_king_def word_neq_0_bit bit_and_iff)
qed

end
