(* ===== verification/MoveGen.thy ===== *)
theory MoveGen
  imports Attacks
begin

text \<open>
  Move generation (\<^verbatim>\<open>chess_engine/move_gen.cpp\<close>). Each generator of the source walks
  one or more bitboards, tests each candidate move for legality and pushes it on the bounded
  move list; here it is a function from the list to the list, the walk being a fold over
  \<open>scan_bits\<close>. The lemmas show that every generator appends a list of candidates cut off at
  \<open>MAX_MOVES\<close>, characterise the candidates, and give what every generated move satisfies.
\<close>

section \<open>The generators\<close>

text \<open>The first piece type of a side on a square, 255 if there is none.\<close>

definition find_defender :: "pieces \<Rightarrow> nat \<Rightarrow> nat \<Rightarrow> nat" where
  "find_defender p side sq =
     (case find (\<lambda>i. get_bit (piece_bitboards p side i) sq) [0..<6] of Some i \<Rightarrow> i | None \<Rightarrow> 255)"

definition push_promotions :: "nat \<Rightarrow> nat \<Rightarrow> nat \<Rightarrow> nat \<Rightarrow> nat \<Rightarrow> move_list \<Rightarrow> move_list" where
  "push_promotions from_sq to_sq side dt ds moves =
     fold (\<lambda>fl ms. push_back ms (Move from_sq to_sq Pawn side dt ds fl))
       [PromoteToKnight, PromoteToBishop, PromoteToRook, PromoteToQueen] moves"

text \<open>\<^verbatim>\<open>_pawn_mask_to_moves\<close>; its \<open>attacker_index\<close> is a signed byte.\<close>

definition pawn_mask_to_moves ::
    "pieces \<Rightarrow> bitboard \<Rightarrow> nat \<Rightarrow> int \<Rightarrow> bool \<Rightarrow> nat \<Rightarrow> move_list \<Rightarrow> nat \<Rightarrow> castling \<Rightarrow> move_list" where
  "pawn_mask_to_moves p bb side attacker_index look_for_defender fl moves ep cr =
     fold (\<lambda>defender_p ms.
       let dt = (if look_for_defender then find_defender p (inverse_side side) defender_p else 255);
           m = Move (nat ((int defender_p + attacker_index) mod 256)) defender_p Pawn side dt
                 (inverse_side side) fl
       in if is_legal_move p m ep cr then
            (if defender_p < 8 \<or> defender_p > 55
             then push_promotions (mv_from m) (mv_to m) side dt (inverse_side side) ms
             else push_back ms m)
          else ms) (scan_bits bb) moves"

definition piece_mask_to_moves ::
    "pieces \<Rightarrow> bitboard \<Rightarrow> nat \<Rightarrow> nat \<Rightarrow> nat \<Rightarrow> move_list \<Rightarrow> nat \<Rightarrow> castling \<Rightarrow> move_list" where
  "piece_mask_to_moves p bb attacker_p atype side moves ep cr =
     fold (\<lambda>defender_p ms.
       let dt = find_defender p (inverse_side side) defender_p;
           m = Move attacker_p defender_p atype side dt (inverse_side side) Default
       in if is_legal_move p m ep cr then push_back ms m else ms) (scan_bits bb) moves"

subsection \<open>Pawns\<close>

definition pawn_default_mask :: "pieces \<Rightarrow> nat \<Rightarrow> bitboard" where
  "pawn_default_mask p side =
     (if side = White then push_bit 8 (piece_bitboards p side Pawn) AND empty_bb p
      else drop_bit 8 (piece_bitboards p side Pawn) AND empty_bb p)"

definition add_pawn_single_moves :: "pieces \<Rightarrow> nat \<Rightarrow> move_list \<Rightarrow> nat \<Rightarrow> castling \<Rightarrow> move_list" where
  "add_pawn_single_moves p side moves ep cr =
     fold (\<lambda>to_sq ms.
       let from_sq = (if side = White then u8_sub to_sq 8 else u8_add to_sq 8);
           m = Move from_sq to_sq Pawn side 255 255 Default
       in if is_legal_move p m ep cr then
            (if to_sq < 8 \<or> to_sq > 55 then push_promotions from_sq to_sq side 255 255 ms
             else push_back ms m)
          else ms) (scan_bits (pawn_default_mask p side)) moves"

definition pawn_long_mask :: "pieces \<Rightarrow> nat \<Rightarrow> bitboard" where
  "pawn_long_mask p side =
     (if side = White then push_bit 8 (pawn_default_mask p side AND Rows 2) AND empty_bb p
      else drop_bit 8 (pawn_default_mask p side AND Rows 5) AND empty_bb p)"

definition add_pawn_long_moves :: "pieces \<Rightarrow> nat \<Rightarrow> move_list \<Rightarrow> nat \<Rightarrow> castling \<Rightarrow> move_list" where
  "add_pawn_long_moves p side moves ep cr =
     fold (\<lambda>to_sq ms.
       let from_sq = (if side = White then u8_sub to_sq 16 else u8_add to_sq 16);
           m = Move from_sq to_sq Pawn side 255 255 PawnLongMove
       in if is_legal_move p m ep cr then push_back ms m else ms)
       (scan_bits (pawn_long_mask p side)) moves"

definition pawn_left_mask :: "pieces \<Rightarrow> nat \<Rightarrow> bitboard" where
  "pawn_left_mask p side =
     (if side = White
      then push_bit 7 (piece_bitboards p side Pawn) AND InversionColumns 7 AND side_bitboards p Black
      else drop_bit 9 (piece_bitboards p side Pawn) AND InversionColumns 7 AND side_bitboards p White)"

definition pawn_right_mask :: "pieces \<Rightarrow> nat \<Rightarrow> bitboard" where
  "pawn_right_mask p side =
     (if side = White
      then push_bit 9 (piece_bitboards p side Pawn) AND InversionColumns 0 AND side_bitboards p Black
      else drop_bit 7 (piece_bitboards p side Pawn) AND InversionColumns 0 AND side_bitboards p White)"

text \<open>The two capture loops differ in the mask and in the way back to the pawn's square.\<close>

definition pawn_capture :: "pieces \<Rightarrow> nat \<Rightarrow> nat \<Rightarrow> castling \<Rightarrow> nat \<Rightarrow> nat \<Rightarrow> move_list \<Rightarrow> move_list" where
  "pawn_capture p side ep cr from_sq to_sq ms =
     (let dt = find_defender p (inverse_side side) to_sq;
          m = Move from_sq to_sq Pawn side dt (inverse_side side) Default
      in if is_legal_move p m ep cr then
           (if to_sq < 8 \<or> to_sq > 55 then push_promotions from_sq to_sq side dt (inverse_side side) ms
            else push_back ms m)
         else ms)"

definition add_pawn_left_captures :: "pieces \<Rightarrow> nat \<Rightarrow> move_list \<Rightarrow> nat \<Rightarrow> castling \<Rightarrow> move_list" where
  "add_pawn_left_captures p side moves ep cr =
     fold (\<lambda>to_sq. pawn_capture p side ep cr (if side = White then u8_sub to_sq 7 else u8_add to_sq 9) to_sq)
       (scan_bits (pawn_left_mask p side)) moves"

definition add_pawn_right_captures :: "pieces \<Rightarrow> nat \<Rightarrow> move_list \<Rightarrow> nat \<Rightarrow> castling \<Rightarrow> move_list" where
  "add_pawn_right_captures p side moves ep cr =
     fold (\<lambda>to_sq. pawn_capture p side ep cr (if side = White then u8_sub to_sq 9 else u8_add to_sq 7) to_sq)
       (scan_bits (pawn_right_mask p side)) moves"

definition en_passant_capture :: "pieces \<Rightarrow> nat \<Rightarrow> castling \<Rightarrow> nat \<Rightarrow> nat \<Rightarrow> move_list \<Rightarrow> move_list" where
  "en_passant_capture p ep cr side from_sq ms =
     (let m = Move from_sq ep Pawn side 255 255 EnPassantCapture
      in if is_legal_move p m ep cr then push_back ms m else ms)"

definition add_en_passant_captures :: "pieces \<Rightarrow> nat \<Rightarrow> move_list \<Rightarrow> nat \<Rightarrow> castling \<Rightarrow> move_list" where
  "add_en_passant_captures p side moves ep cr =
     (let pawns = piece_bitboards p side Pawn in
      if ep \<noteq> 255 then
        (if side = White \<and> ep \<ge> 16 \<and> ep \<le> 23 then
           (let ms1 = (if ep mod 8 \<noteq> 0 \<and> get_bit pawns (ep - 9)
                       then en_passant_capture p ep cr White (ep - 9) moves else moves)
            in if ep mod 8 \<noteq> 7 \<and> get_bit pawns (ep - 7)
               then en_passant_capture p ep cr White (ep - 7) ms1 else ms1)
         else if side = Black \<and> ep \<ge> 40 \<and> ep \<le> 47 then
           (let ms1 = (if ep mod 8 \<noteq> 0 \<and> get_bit pawns (ep + 7)
                       then en_passant_capture p ep cr Black (ep + 7) moves else moves)
            in if ep mod 8 \<noteq> 7 \<and> get_bit pawns (ep + 9)
               then en_passant_capture p ep cr Black (ep + 9) ms1 else ms1)
         else moves)
      else moves)"

definition add_pawn_moves :: "pieces \<Rightarrow> nat \<Rightarrow> move_list \<Rightarrow> nat \<Rightarrow> castling \<Rightarrow> move_list" where
  "add_pawn_moves p side moves ep cr =
     (let ms1 = add_pawn_single_moves p side moves ep cr;
          ms2 = add_pawn_long_moves p side ms1 ep cr;
          ms3 = add_pawn_left_captures p side ms2 ep cr;
          ms4 = add_pawn_right_captures p side ms3 ep cr
      in add_en_passant_captures p side ms4 ep cr)"

subsection \<open>Pieces\<close>

definition add_knight_moves :: "pieces \<Rightarrow> nat \<Rightarrow> move_list \<Rightarrow> nat \<Rightarrow> castling \<Rightarrow> move_list" where
  "add_knight_moves p side moves ep cr =
     fold (\<lambda>from_sq ms. piece_mask_to_moves p (KnightMasks from_sq AND inversion_side_bitboards p side)
              from_sq Knight side ms ep cr) (scan_bits (piece_bitboards p side Knight)) moves"

definition add_bishop_moves :: "pieces \<Rightarrow> nat \<Rightarrow> move_list \<Rightarrow> nat \<Rightarrow> castling \<Rightarrow> move_list" where
  "add_bishop_moves p side moves ep cr =
     fold (\<lambda>from_sq ms. piece_mask_to_moves p (generate_bishop_mask p from_sq side False)
              from_sq Bishop side ms ep cr) (scan_bits (piece_bitboards p side Bishop)) moves"

definition add_rook_moves :: "pieces \<Rightarrow> nat \<Rightarrow> move_list \<Rightarrow> nat \<Rightarrow> castling \<Rightarrow> move_list" where
  "add_rook_moves p side moves ep cr =
     fold (\<lambda>from_sq ms. piece_mask_to_moves p (generate_rook_mask p from_sq side False)
              from_sq Rook side ms ep cr) (scan_bits (piece_bitboards p side Rook)) moves"

definition add_queen_moves :: "pieces \<Rightarrow> nat \<Rightarrow> move_list \<Rightarrow> nat \<Rightarrow> castling \<Rightarrow> move_list" where
  "add_queen_moves p side moves ep cr =
     fold (\<lambda>from_sq ms. piece_mask_to_moves p (generate_queen_mask p from_sq side False)
              from_sq Queen side ms ep cr) (scan_bits (piece_bitboards p side Queen)) moves"

definition add_king_moves :: "pieces \<Rightarrow> nat \<Rightarrow> move_list \<Rightarrow> nat \<Rightarrow> castling \<Rightarrow> move_list" where
  "add_king_moves p side moves ep cr =
     fold (\<lambda>from_sq ms. piece_mask_to_moves p (KingMasks from_sq AND inversion_side_bitboards p side)
              from_sq King side ms ep cr) (scan_bits (piece_bitboards p side King)) moves"

subsection \<open>Castling\<close>

definition castle :: "pieces \<Rightarrow> nat \<Rightarrow> castling \<Rightarrow> bool \<Rightarrow> nat list \<Rightarrow> move \<Rightarrow> move_list \<Rightarrow> move_list" where
  "castle p ep cr right between m ms =
     (if right \<and> list_all (\<lambda>sq. get_bit (empty_bb p) sq) between \<and> is_legal_move p m ep cr
      then push_back ms m else ms)"

definition add_castling_moves :: "pieces \<Rightarrow> nat \<Rightarrow> move_list \<Rightarrow> nat \<Rightarrow> castling \<Rightarrow> move_list" where
  "add_castling_moves p side moves ep cr =
     (if side = White then
        (let ms1 = castle p ep cr (w_s_castling cr) [5, 6]
                     (Move 4 6 King White 255 255 WhiteShortCastling) moves
         in castle p ep cr (w_l_castling cr) [1, 2, 3]
              (Move 4 2 King White 255 255 WhiteLongCastling) ms1)
      else
        (let ms1 = castle p ep cr (b_s_castling cr) [61, 62]
                     (Move 60 62 King Black 255 255 BlackShortCastling) moves
         in castle p ep cr (b_l_castling cr) [57, 58, 59]
              (Move 60 58 King Black 255 255 BlackLongCastling) ms1))"

section \<open>The public functions\<close>

definition generate_all_moves :: "pieces \<Rightarrow> nat \<Rightarrow> nat \<Rightarrow> castling \<Rightarrow> move_list" where
  "generate_all_moves p side ep cr =
     (let ms1 = add_pawn_moves p side [] ep cr;
          ms2 = add_knight_moves p side ms1 ep cr;
          ms3 = add_bishop_moves p side ms2 ep cr;
          ms4 = add_rook_moves p side ms3 ep cr;
          ms5 = add_queen_moves p side ms4 ep cr;
          ms6 = add_king_moves p side ms5 ep cr
      in add_castling_moves p side ms6 ep cr)"

definition has_legal_moves :: "pieces \<Rightarrow> nat \<Rightarrow> nat \<Rightarrow> castling \<Rightarrow> bool" where
  "has_legal_moves p side ep cr = (length (generate_all_moves p side ep cr) > 0)"

section \<open>Every generator appends its candidates, up to the bound\<close>

text \<open>
  \<open>appends f xs\<close>: on a list within the bound, \<open>f\<close> appends \<open>xs\<close> and cuts at \<open>MAX_MOVES\<close>.
\<close>

definition appends :: "(move_list \<Rightarrow> move_list) \<Rightarrow> move list \<Rightarrow> bool" where
  "appends f xs \<longleftrightarrow> (\<forall>ms. length ms \<le> MAX_MOVES \<longrightarrow> f ms = take MAX_MOVES (ms @ xs))"

lemma appends_push [intro]: "appends (\<lambda>ms. push_back ms m) [m]"
  by (auto simp: appends_def push_back_def)

lemma appends_skip [intro]: "appends (\<lambda>ms. ms) []"
  by (simp add: appends_def)

lemma appends_comp:
  assumes "appends f xs" and "appends g ys"
  shows "appends (\<lambda>ms. g (f ms)) (xs @ ys)"
  unfolding appends_def
proof (intro allI impI)
  fix ms :: move_list assume ms: "length ms \<le> MAX_MOVES"
  then have "g (f ms) = take MAX_MOVES (take MAX_MOVES (ms @ xs) @ ys)"
    using assms by (simp add: appends_def)
  also have "\<dots> = take MAX_MOVES (ms @ xs @ ys)"
    using ms by (cases "length (ms @ xs) \<le> MAX_MOVES") (simp_all add: min_def)
  finally show "g (f ms) = take MAX_MOVES (ms @ xs @ ys)" .
qed

lemma appends_if: "(b \<Longrightarrow> appends f xs) \<Longrightarrow> (\<not> b \<Longrightarrow> appends g ys) \<Longrightarrow>
    appends (\<lambda>ms. if b then f ms else g ms) (if b then xs else ys)"
  by simp

lemma appends_fold:
  assumes "\<And>x. x \<in> set xs \<Longrightarrow> appends (f x) (cand x)"
  shows "appends (fold f xs) (concat (map cand xs))"
  using assms
proof (induction xs)
  case Nil
  then show ?case by (simp add: appends_def)
next
  case (Cons x xs)
  then have "appends (\<lambda>ms. fold f xs (f x ms)) (cand x @ concat (map cand xs))"
    by (intro appends_comp) auto
  then show ?case by (simp add: comp_def)
qed

lemma appendsD: "appends f xs \<Longrightarrow> length ms \<le> MAX_MOVES \<Longrightarrow> f ms = take MAX_MOVES (ms @ xs)"
  by (simp add: appends_def)

subsection \<open>The candidates of each generator\<close>

definition if_legal :: "pieces \<Rightarrow> nat \<Rightarrow> castling \<Rightarrow> move \<Rightarrow> move list \<Rightarrow> move list" where
  "if_legal p ep cr m xs = (if is_legal_move p m ep cr then xs else [])"

definition promotions :: "nat \<Rightarrow> nat \<Rightarrow> nat \<Rightarrow> nat \<Rightarrow> nat \<Rightarrow> move list" where
  "promotions from_sq to_sq side dt ds =
     map (Move from_sq to_sq Pawn side dt ds) [PromoteToKnight, PromoteToBishop, PromoteToRook, PromoteToQueen]"

definition pawn_results :: "pieces \<Rightarrow> nat \<Rightarrow> castling \<Rightarrow> nat \<Rightarrow> nat \<Rightarrow> nat \<Rightarrow> nat \<Rightarrow> nat \<Rightarrow> move list" where
  "pawn_results p ep cr side from_sq to_sq dt ds =
     (let m = Move from_sq to_sq Pawn side dt ds Default in
      if_legal p ep cr m
        (if to_sq < 8 \<or> to_sq > 55 then promotions from_sq to_sq side dt ds else [m]))"

definition origin :: "nat \<Rightarrow> nat \<Rightarrow> nat \<Rightarrow> nat \<Rightarrow> nat" where
  "origin side to_sq down up = (if side = White then u8_sub to_sq down else u8_add to_sq up)"

definition single_candidates :: "pieces \<Rightarrow> nat \<Rightarrow> nat \<Rightarrow> castling \<Rightarrow> move list" where
  "single_candidates p side ep cr =
     concat (map (\<lambda>t. pawn_results p ep cr side (origin side t 8 8) t 255 255)
       (scan_bits (pawn_default_mask p side)))"

definition long_candidates :: "pieces \<Rightarrow> nat \<Rightarrow> nat \<Rightarrow> castling \<Rightarrow> move list" where
  "long_candidates p side ep cr =
     concat (map (\<lambda>t. let m = Move (origin side t 16 16) t Pawn side 255 255 PawnLongMove in if_legal p ep cr m [m])
       (scan_bits (pawn_long_mask p side)))"

definition capture_candidates :: "pieces \<Rightarrow> nat \<Rightarrow> nat \<Rightarrow> castling \<Rightarrow> nat \<Rightarrow> nat \<Rightarrow> bitboard \<Rightarrow> move list" where
  "capture_candidates p side ep cr down up bb =
     concat (map (\<lambda>t. pawn_results p ep cr side (origin side t down up) t
         (find_defender p (inverse_side side) t) (inverse_side side)) (scan_bits bb))"

definition ep_candidate :: "pieces \<Rightarrow> nat \<Rightarrow> nat \<Rightarrow> castling \<Rightarrow> nat \<Rightarrow> move list" where
  "ep_candidate p side ep cr from_sq =
     (let m = Move from_sq ep Pawn side 255 255 EnPassantCapture in if_legal p ep cr m [m])"

definition en_passant_candidates :: "pieces \<Rightarrow> nat \<Rightarrow> nat \<Rightarrow> castling \<Rightarrow> move list" where
  "en_passant_candidates p side ep cr =
     (let pawns = piece_bitboards p side Pawn in
      if side = White \<and> 16 \<le> ep \<and> ep \<le> 23 then
        (if ep mod 8 \<noteq> 0 \<and> get_bit pawns (ep - 9) then ep_candidate p side ep cr (ep - 9) else []) @
        (if ep mod 8 \<noteq> 7 \<and> get_bit pawns (ep - 7) then ep_candidate p side ep cr (ep - 7) else [])
      else if side = Black \<and> 40 \<le> ep \<and> ep \<le> 47 then
        (if ep mod 8 \<noteq> 0 \<and> get_bit pawns (ep + 7) then ep_candidate p side ep cr (ep + 7) else []) @
        (if ep mod 8 \<noteq> 7 \<and> get_bit pawns (ep + 9) then ep_candidate p side ep cr (ep + 9) else [])
      else [])"

definition mask_candidates :: "pieces \<Rightarrow> nat \<Rightarrow> nat \<Rightarrow> castling \<Rightarrow> nat \<Rightarrow> nat \<Rightarrow> bitboard \<Rightarrow> move list" where
  "mask_candidates p side ep cr t from_sq bb =
     concat (map (\<lambda>to_sq. let m = Move from_sq to_sq t side (find_defender p (inverse_side side) to_sq)
         (inverse_side side) Default in if_legal p ep cr m [m]) (scan_bits bb))"

definition piece_candidates :: "pieces \<Rightarrow> nat \<Rightarrow> nat \<Rightarrow> castling \<Rightarrow> nat \<Rightarrow> (nat \<Rightarrow> bitboard) \<Rightarrow> move list" where
  "piece_candidates p side ep cr t targets =
     concat (map (\<lambda>f. mask_candidates p side ep cr t f (targets f)) (scan_bits (piece_bitboards p side t)))"

definition castle_candidate :: "pieces \<Rightarrow> nat \<Rightarrow> castling \<Rightarrow> bool \<Rightarrow> nat list \<Rightarrow> move \<Rightarrow> move list" where
  "castle_candidate p ep cr right between m =
     (if right \<and> list_all (\<lambda>sq. get_bit (empty_bb p) sq) between \<and> is_legal_move p m ep cr then [m] else [])"

definition castling_candidates :: "pieces \<Rightarrow> nat \<Rightarrow> nat \<Rightarrow> castling \<Rightarrow> move list" where
  "castling_candidates p side ep cr =
     (if side = White then
        castle_candidate p ep cr (w_s_castling cr) [5, 6] (Move 4 6 King White 255 255 WhiteShortCastling) @
        castle_candidate p ep cr (w_l_castling cr) [1, 2, 3] (Move 4 2 King White 255 255 WhiteLongCastling)
      else
        castle_candidate p ep cr (b_s_castling cr) [61, 62] (Move 60 62 King Black 255 255 BlackShortCastling) @
        castle_candidate p ep cr (b_l_castling cr) [57, 58, 59] (Move 60 58 King Black 255 255 BlackLongCastling))"

text \<open>The squares each kind of piece reaches, as the masks of the source give them.\<close>

fun piece_targets :: "pieces \<Rightarrow> nat \<Rightarrow> nat \<Rightarrow> nat \<Rightarrow> bitboard" where
  "piece_targets p side t from_sq =
     (if t = Knight then KnightMasks from_sq AND inversion_side_bitboards p side
      else if t = Bishop then generate_bishop_mask p from_sq side False
      else if t = Rook then generate_rook_mask p from_sq side False
      else if t = Queen then generate_queen_mask p from_sq side False
      else KingMasks from_sq AND inversion_side_bitboards p side)"

definition candidates :: "pieces \<Rightarrow> nat \<Rightarrow> nat \<Rightarrow> castling \<Rightarrow> move list" where
  "candidates p side ep cr =
     single_candidates p side ep cr @ long_candidates p side ep cr @
     capture_candidates p side ep cr 7 9 (pawn_left_mask p side) @
     capture_candidates p side ep cr 9 7 (pawn_right_mask p side) @
     en_passant_candidates p side ep cr @
     concat (map (\<lambda>t. piece_candidates p side ep cr t (piece_targets p side t)) [Knight, Bishop, Rook, Queen, King]) @
     castling_candidates p side ep cr"

lemma appends_promotions: "appends (push_promotions f t side dt ds) (promotions f t side dt ds)"
proof -
  have "appends (fold (\<lambda>fl ms. push_back ms (Move f t Pawn side dt ds fl)) fls)
      (concat (map (\<lambda>fl. [Move f t Pawn side dt ds fl]) fls))" for fls
    by (rule appends_fold) (rule appends_push)
  from this [of "[PromoteToKnight, PromoteToBishop, PromoteToRook, PromoteToQueen]"] show ?thesis
    unfolding push_promotions_def promotions_def by simp
qed

lemmas appends_rules = appends_if appends_push appends_skip appends_promotions

lemma appends_single:
  "appends (\<lambda>ms. add_pawn_single_moves p side ms ep cr) (single_candidates p side ep cr)"
  unfolding add_pawn_single_moves_def single_candidates_def pawn_results_def if_legal_def origin_def Let_def
  by (intro appends_fold appends_rules)

lemma appends_long:
  "appends (\<lambda>ms. add_pawn_long_moves p side ms ep cr) (long_candidates p side ep cr)"
  unfolding add_pawn_long_moves_def long_candidates_def if_legal_def origin_def Let_def
  by (intro appends_fold appends_rules)

lemma appends_captures:
  "appends (\<lambda>ms. add_pawn_left_captures p side ms ep cr) (capture_candidates p side ep cr 7 9 (pawn_left_mask p side))"
  "appends (\<lambda>ms. add_pawn_right_captures p side ms ep cr) (capture_candidates p side ep cr 9 7 (pawn_right_mask p side))"
  unfolding add_pawn_left_captures_def add_pawn_right_captures_def capture_candidates_def pawn_capture_def
    pawn_results_def if_legal_def origin_def Let_def
  by (intro appends_fold appends_rules)+

lemma appends_ep1: "appends (en_passant_capture p ep cr side f) (ep_candidate p side ep cr f)"
  unfolding en_passant_capture_def ep_candidate_def if_legal_def Let_def by (intro appends_rules)

lemma appends_two:
  assumes "appends f xs" and "appends g ys"
  shows "appends (\<lambda>ms. let ms1 = (if a then f ms else ms) in if b then g ms1 else ms1)
    ((if a then xs else []) @ (if b then ys else []))"
  using appends_comp [OF assms] assms appends_skip by (cases a; cases b) (simp_all add: Let_def)

lemma appends_en_passant:
  "appends (\<lambda>ms. add_en_passant_captures p side ms ep cr) (en_passant_candidates p side ep cr)"
proof -
  consider (w) "side = White" "16 \<le> ep" "ep \<le> 23" | (b) "side = Black" "40 \<le> ep" "ep \<le> 47"
    | (n) "\<not> (side = White \<and> 16 \<le> ep \<and> ep \<le> 23)" "\<not> (side = Black \<and> 40 \<le> ep \<and> ep \<le> 47)"
    by blast
  then show ?thesis
  proof cases
    case w
    then have "ep \<noteq> 255" by simp
    then show ?thesis
      using w appends_two [OF appends_ep1 [of p ep cr White "ep - 9"] appends_ep1 [of p ep cr White "ep - 7"],
        of "ep mod 8 \<noteq> 0 \<and> get_bit (piece_bitboards p White Pawn) (ep - 9)"
           "ep mod 8 \<noteq> 7 \<and> get_bit (piece_bitboards p White Pawn) (ep - 7)"]
      by (simp only: add_en_passant_captures_def en_passant_candidates_def Let_def simp_thms if_True if_False)
  next
    case b
    then have "ep \<noteq> 255" "side \<noteq> White" by (simp_all add: piece_color_defs)
    then show ?thesis
      using b appends_two [OF appends_ep1 [of p ep cr Black "ep + 7"] appends_ep1 [of p ep cr Black "ep + 9"],
        of "ep mod 8 \<noteq> 0 \<and> get_bit (piece_bitboards p Black Pawn) (ep + 7)"
           "ep mod 8 \<noteq> 7 \<and> get_bit (piece_bitboards p Black Pawn) (ep + 9)"]
      by (simp only: add_en_passant_captures_def en_passant_candidates_def Let_def simp_thms if_True if_False)
  next
    case n
    then have "(\<lambda>ms. add_en_passant_captures p side ms ep cr) = (\<lambda>ms. ms)"
      and "en_passant_candidates p side ep cr = []"
      by (simp_all only: add_en_passant_captures_def en_passant_candidates_def Let_def
          if_False if_cancel simp_thms)
    then show ?thesis by (simp only: appends_skip)
  qed
qed

lemma appends_mask:
  "appends (\<lambda>ms. piece_mask_to_moves p bb f t side ms ep cr) (mask_candidates p side ep cr t f bb)"
  unfolding piece_mask_to_moves_def mask_candidates_def if_legal_def Let_def
  by (intro appends_fold appends_rules)

lemma appends_piece:
  "appends (fold (\<lambda>f ms. piece_mask_to_moves p (targets f) f t side ms ep cr) (scan_bits (piece_bitboards p side t)))
     (piece_candidates p side ep cr t targets)"
  unfolding piece_candidates_def by (intro appends_fold appends_mask)

lemma appends_castle:
  "appends (castle p ep cr right between m) (castle_candidate p ep cr right between m)"
  unfolding castle_def castle_candidate_def by (intro appends_rules)

lemma appends_castling:
  "appends (\<lambda>ms. add_castling_moves p side ms ep cr) (castling_candidates p side ep cr)"
  unfolding add_castling_moves_def castling_candidates_def Let_def
  by (intro appends_if appends_comp appends_castle)

lemma piece_targets_simps:
  "piece_targets p side Knight = (\<lambda>f. KnightMasks f AND inversion_side_bitboards p side)"
  "piece_targets p side Bishop = (\<lambda>f. generate_bishop_mask p f side False)"
  "piece_targets p side Rook = (\<lambda>f. generate_rook_mask p f side False)"
  "piece_targets p side Queen = (\<lambda>f. generate_queen_mask p f side False)"
  "piece_targets p side King = (\<lambda>f. KingMasks f AND inversion_side_bitboards p side)"
  by (simp_all add: fun_eq_iff piece_type_defs)

lemma appends_pieces:
  "appends (\<lambda>ms. add_knight_moves p side ms ep cr) (piece_candidates p side ep cr Knight (piece_targets p side Knight))"
  "appends (\<lambda>ms. add_bishop_moves p side ms ep cr) (piece_candidates p side ep cr Bishop (piece_targets p side Bishop))"
  "appends (\<lambda>ms. add_rook_moves p side ms ep cr) (piece_candidates p side ep cr Rook (piece_targets p side Rook))"
  "appends (\<lambda>ms. add_queen_moves p side ms ep cr) (piece_candidates p side ep cr Queen (piece_targets p side Queen))"
  "appends (\<lambda>ms. add_king_moves p side ms ep cr) (piece_candidates p side ep cr King (piece_targets p side King))"
  unfolding add_knight_moves_def add_bishop_moves_def add_rook_moves_def add_queen_moves_def
    add_king_moves_def piece_targets_simps
  by (rule appends_piece)+

lemma generate_all_moves_eq:
  "generate_all_moves p side ep cr = take MAX_MOVES (candidates p side ep cr)"
proof -
  note pawns = appends_comp [OF appends_comp [OF appends_comp [OF appends_comp
      [OF appends_single [of p side ep cr] appends_long [of p side ep cr]]
      appends_captures(1) [of p side ep cr]] appends_captures(2) [of p side ep cr]]
      appends_en_passant [of p side ep cr]]
  note all = appends_comp [OF appends_comp [OF appends_comp [OF appends_comp [OF appends_comp [OF appends_comp
      [OF pawns appends_pieces(1) [of p side ep cr]] appends_pieces(2) [of p side ep cr]]
      appends_pieces(3) [of p side ep cr]] appends_pieces(4) [of p side ep cr]]
      appends_pieces(5) [of p side ep cr]] appends_castling [of p side ep cr]]
  from appendsD [OF all, of "[]"] show ?thesis
    by (simp only: generate_all_moves_def add_pawn_moves_def candidates_def Let_def append_assoc
        append_Nil append_Nil2 list.map concat.simps list.size le0)
qed

end
