(* ===== verification/MoveSound.thy ===== *)
theory MoveSound
  imports MoveGen
begin

text \<open>
  What every generated move satisfies. \<open>sound_move\<close> says that the move belongs to the side to
  move, starts on one of its pieces of the stated type, stays on the board, does not take a piece of its
  own side, names the piece it takes, and promotes exactly the pawns that reach the last rank.
  The sliding moves are those of the reference walk.
\<close>

section \<open>Reading the masks\<close>

lemma find_defender_cases:
  assumes "synced p" and "s < 2"
  shows "if bit (side_bitboards p s) sq
    then find_defender p s sq < 6 \<and> bit (piece_bitboards p s (find_defender p s sq)) sq
    else find_defender p s sq = 255"
proof (cases "find (\<lambda>i. get_bit (piece_bitboards p s i) sq) [0..<6]")
  case None
  then have "\<forall>t < 6. \<not> bit (piece_bitboards p s t) sq"
    by (auto simp: find_None_iff get_bit_iff)
  then show ?thesis using assms None by (simp add: synced_sideD find_defender_def)
next
  case (Some i)
  then have "i < 6" "bit (piece_bitboards p s i) sq"
    by (auto simp: find_Some_iff get_bit_iff)
  then show ?thesis using assms Some by (auto simp: synced_sideD find_defender_def)
qed

lemma pawn_default_maskD:
  assumes "bit (pawn_default_mask p side) t" and "side < 2"
  shows "bit (empty_bb p) t \<and> bit (piece_bitboards p side Pawn) (origin side t 8 8) \<and> t < 64 \<and>
    origin side t 8 8 = (if side = White then t - 8 else t + 8) \<and> (side = White \<longrightarrow> 8 \<le> t)"
proof -
  have "t < 64" using bit_word_less [OF assms(1)] by simp
  then show ?thesis
    using assms by (auto simp: pawn_default_mask_def origin_def bit_simps ac_simps split: if_splits)
qed

lemma pawn_long_maskD:
  assumes "bit (pawn_long_mask p side) t" and "side < 2"
  shows "bit (empty_bb p) t \<and> bit (piece_bitboards p side Pawn) (origin side t 16 16) \<and> t < 64 \<and>
    (if side = White then t div 8 = 3 \<and> origin side t 16 16 = t - 16
     else t div 8 = 4 \<and> origin side t 16 16 = t + 16)"
proof -
  have t: "t < 64" using bit_word_less [OF assms(1)] by simp
  show ?thesis
  proof (cases "side = White")
    case True
    then have "8 \<le> t" "bit (pawn_default_mask p side) (t - 8)" "(t - 8) div 8 = 2" "bit (empty_bb p) t"
      using assms by (auto simp: pawn_long_mask_def bit_simps bit_Rows)
    moreover from this have "t div 8 = 3" by auto
    ultimately show ?thesis
      using True t pawn_default_maskD [of p side "t - 8"] assms(2) by (auto simp: origin_def)
  next
    case False
    then have "bit (pawn_default_mask p side) (t + 8)" "(t + 8) div 8 = 5" "bit (empty_bb p) t"
      using assms by (auto simp: pawn_long_mask_def bit_simps bit_Rows ac_simps)
    moreover from this have "t div 8 = 4" by auto
    ultimately show ?thesis
      using False t pawn_default_maskD [of p side "t + 8"] assms(2) by (auto simp: origin_def ac_simps)
  qed
qed

lemma pawn_capture_maskD:
  assumes "side < 2"
  shows "bit (pawn_left_mask p side) t \<Longrightarrow> bit (side_bitboards p (inverse_side side)) t \<and>
      bit (piece_bitboards p side Pawn) (origin side t 7 9) \<and> t < 64"
    and "bit (pawn_right_mask p side) t \<Longrightarrow> bit (side_bitboards p (inverse_side side)) t \<and>
      bit (piece_bitboards p side Pawn) (origin side t 9 7) \<and> t < 64"
proof -
  have *: "side = White \<or> side = Black" using assms by (auto simp: piece_color_defs)
  show "bit (pawn_left_mask p side) t \<Longrightarrow> bit (side_bitboards p (inverse_side side)) t \<and>
      bit (piece_bitboards p side Pawn) (origin side t 7 9) \<and> t < 64"
    using * bit_word_less [of "pawn_left_mask p side" t]
    by (auto simp: pawn_left_mask_def origin_def bit_simps piece_color_defs ac_simps)
  show "bit (pawn_right_mask p side) t \<Longrightarrow> bit (side_bitboards p (inverse_side side)) t \<and>
      bit (piece_bitboards p side Pawn) (origin side t 9 7) \<and> t < 64"
    using * bit_word_less [of "pawn_right_mask p side" t]
    by (auto simp: pawn_right_mask_def origin_def bit_simps piece_color_defs ac_simps)
qed

subsection \<open>Sliding targets are the reference walks\<close>

definition slide :: "pieces \<Rightarrow> nat \<Rightarrow> nat \<Rightarrow> direction set \<Rightarrow> nat set" where
  "slide p side f ds =
     (\<Union>d \<in> ds. set (walk (bit (all_bb p)) (bit (side_bitboards p (inverse_side side))) (ray_squares d f)))"

lemma bits_of_or: "bits_of (a OR b) = bits_of a \<union> bits_of b"
  by (auto simp: bits_of_def bit_or_iff)

lemma bits_of_bishop_mask:
  "bits_of (generate_bishop_mask p f side False) = slide p side f {NorthWest, NorthEast, SouthWest, SouthEast}"
  by (simp add: generate_bishop_mask_def bits_of_or calc_blocked_ray_walk slide_def Un_assoc)

lemma bits_of_rook_mask:
  "bits_of (generate_rook_mask p f side False) = slide p side f {North, South, West, East}"
  by (simp add: generate_rook_mask_def bits_of_or calc_blocked_ray_walk slide_def Un_assoc)

lemma bits_of_queen_mask:
  "bits_of (generate_queen_mask p f side False) = slide p side f UNIV"
proof -
  have "(UNIV :: direction set) = {NorthWest, NorthEast, SouthWest, SouthEast} \<union> {North, South, West, East}"
    by (auto intro: direction.exhaust)
  then show ?thesis
    unfolding generate_queen_mask_def bits_of_or bits_of_bishop_mask bits_of_rook_mask slide_def
    by (metis UN_Un)
qed

lemma walk_member: "x \<in> set (walk occupied enemy ss) \<Longrightarrow> x \<in> set ss \<and> (occupied x \<longrightarrow> enemy x)"
  by (induction ss) (auto split: if_splits)

lemma slide_not_own:
  assumes "wf_pieces p" and "side < 2" and "x \<in> slide p side f ds"
  shows "\<not> bit (side_bitboards p side) x"
proof
  assume own: "bit (side_bitboards p side) x"
  then have "bit (all_bb p) x" using assms by (auto simp: wf_pieces_def synced_allD)
  then have "bit (side_bitboards p (inverse_side side)) x"
    using assms(3) by (auto simp: slide_def dest: walk_member)
  then show False using disjoint_sides [OF assms(1,2) own] by simp
qed

lemma piece_targets_not_own:
  assumes "wf_pieces p" and "side < 2" and "bit (piece_targets p side t f) x"
  shows "\<not> bit (side_bitboards p side) x"
proof -
  have sync: "synced p" using assms(1) by (simp add: wf_pieces_def)
  have "x \<in> bits_of (piece_targets p side t f)" using assms(3) by (simp add: bits_of_def)
  then show ?thesis
    using slide_not_own [OF assms(1,2)] synced_inversionD [OF sync assms(2)]
    by (auto simp: bits_of_bishop_mask bits_of_rook_mask bits_of_queen_mask split: if_splits)
      (simp_all add: bits_of_def bit_and_iff)
qed

section \<open>Soundness\<close>

definition castling_flag :: "nat \<Rightarrow> bool" where
  "castling_flag fl \<longleftrightarrow> WhiteLongCastling \<le> fl \<and> fl \<le> BlackShortCastling"

definition promotion_flag :: "nat \<Rightarrow> bool" where
  "promotion_flag fl \<longleftrightarrow> PromoteToKnight \<le> fl \<and> fl \<le> PromoteToQueen"

definition sound_move :: "pieces \<Rightarrow> nat \<Rightarrow> move \<Rightarrow> bool" where
  "sound_move p side m \<longleftrightarrow>
     mv_from m < 64 \<and> mv_to m < 64 \<and> attacker_side m = side \<and> attacker_type m < 6 \<and>
     mv_flag m \<le> PromoteToQueen \<and>
     (\<not> castling_flag (mv_flag m) \<longrightarrow> bit (piece_bitboards p side (attacker_type m)) (mv_from m)) \<and>
     (mv_flag m \<noteq> EnPassantCapture \<longrightarrow> \<not> bit (side_bitboards p side) (mv_to m)) \<and>
     (if defender_type m = 255 then mv_flag m \<noteq> EnPassantCapture \<longrightarrow> \<not> bit (all_bb p) (mv_to m)
      else defender_type m < 6 \<and> defender_side m = inverse_side side \<and>
           bit (piece_bitboards p (inverse_side side) (defender_type m)) (mv_to m)) \<and>
     (promotion_flag (mv_flag m) \<longleftrightarrow> attacker_type m = Pawn \<and> (mv_to m < 8 \<or> mv_to m > 55))"

lemma in_if_legal: "x \<in> set (if_legal p ep cr m xs) \<longleftrightarrow> is_legal_move p m ep cr \<and> x \<in> set xs"
  by (simp add: if_legal_def)

lemma pawn_resultsE:
  assumes "m \<in> set (pawn_results p ep cr side f t dt ds)"
  obtains fl where "m = Move f t Pawn side dt ds fl"
    "if t < 8 \<or> t > 55 then promotion_flag fl else fl = Default"
proof -
  have "\<exists>fl. m = Move f t Pawn side dt ds fl \<and>
      (if t < 8 \<or> t > 55 then fl \<in> set [PromoteToKnight, PromoteToBishop, PromoteToRook, PromoteToQueen]
       else fl = Default)"
    using assms by (simp add: pawn_results_def in_if_legal promotions_def Let_def split: if_splits) blast+
  then show ?thesis using that by (auto simp: promotion_flag_def flag_defs split: if_splits)
qed

lemma promotion_flag_bounds:
  "promotion_flag fl \<Longrightarrow> fl \<le> PromoteToQueen \<and> \<not> castling_flag fl \<and> fl \<noteq> EnPassantCapture"
  by (auto simp: promotion_flag_def castling_flag_def flag_defs)

lemma default_flag [simp]:
  "Default \<le> PromoteToQueen" "\<not> castling_flag Default" "Default \<noteq> EnPassantCapture" "\<not> promotion_flag Default"
  by (simp_all add: promotion_flag_def castling_flag_def flag_defs)

lemma sound_pawn_results:
  assumes "wf_pieces p" "side < 2" "f < 64" "t < 64" "bit (piece_bitboards p side Pawn) f"
    and "\<not> bit (side_bitboards p side) t"
    and "if dt = 255 then \<not> bit (all_bb p) t
         else dt < 6 \<and> ds = inverse_side side \<and> bit (piece_bitboards p (inverse_side side) dt) t"
    and "m \<in> set (pawn_results p ep cr side f t dt ds)"
  shows "sound_move p side m"
proof -
  obtain fl where m: "m = Move f t Pawn side dt ds fl"
    and fl: "if t < 8 \<or> t > 55 then promotion_flag fl else fl = Default"
    using assms(8) by (rule pawn_resultsE)
  have "Pawn < 6" by (simp add: Pawn_def)
  then show ?thesis
    using assms(3-7) fl promotion_flag_bounds [of fl] by (simp add: m sound_move_def split: if_splits)
qed

lemma empty_not_own:
  assumes "wf_pieces p" "side < 2" "bit (empty_bb p) t"
  shows "\<not> bit (all_bb p) t" and "\<not> bit (side_bitboards p side) t"
  using assms by (auto simp: wf_pieces_def synced_emptyD synced_allD)

lemma sound_single:
  assumes "wf_pieces p" "side < 2" "m \<in> set (single_candidates p side ep cr)"
  shows "sound_move p side m"
proof -
  from assms(3) obtain t where t: "bit (pawn_default_mask p side) t"
    and m: "m \<in> set (pawn_results p ep cr side (origin side t 8 8) t 255 255)"
    by (auto simp: single_candidates_def)
  note d = pawn_default_maskD [OF t assms(2)]
  have "origin side t 8 8 < 64" using d bit_word_less by force
  then show ?thesis
    using d empty_not_own [OF assms(1,2), of t] by (intro sound_pawn_results [OF assms(1,2) _ _ _ _ _ m]) auto
qed

lemma sound_captures:
  assumes "wf_pieces p" "side < 2"
    and "\<And>t. bit bb t \<Longrightarrow> bit (side_bitboards p (inverse_side side)) t \<and>
      bit (piece_bitboards p side Pawn) (origin side t dn up) \<and> t < 64"
    and "m \<in> set (capture_candidates p side ep cr dn up bb)"
  shows "sound_move p side m"
proof -
  from assms(4) obtain t where t: "bit bb t"
    and m: "m \<in> set (pawn_results p ep cr side (origin side t dn up) t
        (find_defender p (inverse_side side) t) (inverse_side side))"
    by (auto simp: capture_candidates_def)
  note d = assms(3) [OF t]
  have inv: "inverse_side side < 2" using assms(2) by (rule inverse_side_less)
  have sync: "synced p" using assms(1) by (simp add: wf_pieces_def)
  have "origin side t dn up < 64" using d bit_word_less by force
  moreover have "\<not> bit (side_bitboards p side) t"
    using disjoint_sides [OF assms(1) inv, of t] d assms(2) by (simp add: inverse_side_inverse)
  ultimately show ?thesis
    using d find_defender_cases [OF sync inv, of t]
    by (intro sound_pawn_results [OF assms(1,2) _ _ _ _ _ m]) auto
qed

lemma sound_long:
  assumes "wf_pieces p" "side < 2" "m \<in> set (long_candidates p side ep cr)"
  shows "sound_move p side m"
proof -
  from assms(3) obtain t where t: "bit (pawn_long_mask p side) t"
    and m: "m = Move (origin side t 16 16) t Pawn side 255 255 PawnLongMove"
    by (auto simp: long_candidates_def in_if_legal Let_def)
  note d = pawn_long_maskD [OF t assms(2)]
  have "origin side t 16 16 < 64" using d bit_word_less by force
  moreover have "8 \<le> t" "t \<le> 55" using d by (auto split: if_splits)
  ultimately show ?thesis
    using d empty_not_own [OF assms(1,2), of t]
    by (auto simp: m sound_move_def castling_flag_def promotion_flag_def flag_defs piece_type_defs)
qed

lemma sound_en_passant:
  assumes "wf_pieces p" "side < 2" "m \<in> set (en_passant_candidates p side ep cr)"
  shows "sound_move p side m \<and> mv_flag m = EnPassantCapture"
proof -
  from assms(3) obtain f where m: "m = Move f ep Pawn side 255 255 EnPassantCapture"
    and f: "bit (piece_bitboards p side Pawn) f" and ep: "8 \<le> ep" "ep \<le> 55"
    by (auto simp: en_passant_candidates_def ep_candidate_def in_if_legal get_bit_iff Let_def
        split: if_splits)
  have "f < 64" using bit_word_less [OF f] by simp
  then show ?thesis
    using f ep by (auto simp: m sound_move_def castling_flag_def promotion_flag_def flag_defs piece_type_defs)
qed

lemma piece_candidatesE:
  assumes "m \<in> set (piece_candidates p side ep cr t targets)"
  obtains f x where "bit (piece_bitboards p side t) f" "bit (targets f) x"
    "m = Move f x t side (find_defender p (inverse_side side) x) (inverse_side side) Default"
    "is_legal_move p m ep cr"
  using assms by (auto simp: piece_candidates_def mask_candidates_def in_if_legal Let_def)

lemma sound_pieces:
  assumes "wf_pieces p" "side < 2" "0 < t" "t < 6" "m \<in> set (piece_candidates p side ep cr t (piece_targets p side t))"
  shows "sound_move p side m"
proof -
  obtain f x where f: "bit (piece_bitboards p side t) f" and x: "bit (piece_targets p side t f) x"
    and m: "m = Move f x t side (find_defender p (inverse_side side) x) (inverse_side side) Default"
    using assms(5) by (rule piece_candidatesE)
  have sync: "synced p" using assms(1) by (simp add: wf_pieces_def)
  note not_own = piece_targets_not_own [OF assms(1,2) x]
  have "f < 64" "x < 64" using bit_word_less [OF f] bit_word_less [OF x] by simp_all
  moreover have "\<not> bit (side_bitboards p (inverse_side side)) x \<Longrightarrow> \<not> bit (all_bb p) x"
    using not_own by (simp add: synced_all_sides [OF sync assms(2)])
  ultimately show ?thesis
    using f not_own find_defender_cases [OF sync inverse_side_less [OF assms(2)], of x] assms(3,4)
    by (auto simp: m sound_move_def castling_flag_def promotion_flag_def flag_defs piece_type_defs split: if_splits)
qed

lemma castling_candidates_cases:
  assumes "m \<in> set (castling_candidates p side ep cr)" and "side < 2"
  shows "m \<in> {Move 4 6 King White 255 255 WhiteShortCastling, Move 4 2 King White 255 255 WhiteLongCastling,
              Move 60 62 King Black 255 255 BlackShortCastling, Move 60 58 King Black 255 255 BlackLongCastling} \<and>
    attacker_side m = side \<and> bit (empty_bb p) (mv_to m)"
  using assms by (auto simp: castling_candidates_def castle_candidate_def get_bit_iff less_2_cases_iff
      piece_color_defs split: if_splits)

lemma sound_castling:
  assumes "wf_pieces p" "side < 2" "m \<in> set (castling_candidates p side ep cr)"
  shows "sound_move p side m"
  using castling_candidates_cases [OF assms(3,2)] empty_not_own [OF assms(1,2), of "mv_to m"]
  by (auto simp: sound_move_def castling_flag_def promotion_flag_def flag_defs piece_type_defs)

lemma sound_candidates:
  assumes "wf_pieces p" "side < 2" "m \<in> set (candidates p side ep cr)"
  shows "sound_move p side m"
proof -
  from assms(3) consider
      "m \<in> set (single_candidates p side ep cr)" | "m \<in> set (long_candidates p side ep cr)"
    | "m \<in> set (capture_candidates p side ep cr 7 9 (pawn_left_mask p side))"
    | "m \<in> set (capture_candidates p side ep cr 9 7 (pawn_right_mask p side))"
    | "m \<in> set (en_passant_candidates p side ep cr)"
    | t where "t \<in> {Knight, Bishop, Rook, Queen, King}"
        "m \<in> set (piece_candidates p side ep cr t (piece_targets p side t))"
    | "m \<in> set (castling_candidates p side ep cr)"
    unfolding candidates_def by auto
  then show ?thesis
  proof cases
    case 3
    show ?thesis
      by (rule sound_captures [OF assms(1,2) _ 3]) (rule pawn_capture_maskD(1) [OF assms(2)])
  next
    case 4
    show ?thesis
      by (rule sound_captures [OF assms(1,2) _ 4]) (rule pawn_capture_maskD(2) [OF assms(2)])
  next
    case (6 t)
    then show ?thesis by (intro sound_pieces [OF assms(1,2)]) (auto simp: piece_type_defs)
  qed (auto intro: sound_single sound_long sound_castling assms dest: sound_en_passant [OF assms(1,2)])
qed

lemma generated_in_candidates: "m \<in> set (generate_all_moves p side ep cr) \<Longrightarrow> m \<in> set (candidates p side ep cr)"
  by (metis generate_all_moves_eq in_set_takeD)

lemma sound_generated:
  "wf_pieces p \<Longrightarrow> side < 2 \<Longrightarrow> m \<in> set (generate_all_moves p side ep cr) \<Longrightarrow> sound_move p side m"
  by (blast dest: generated_in_candidates intro: sound_candidates)

end
