(* ===== verification/Position.thy ===== *)
theory Position
  imports MoveSound
begin

text \<open>
  The full position of a game (\<^verbatim>\<open>chess_engine/position.hpp\<close>, \<^verbatim>\<open>position.cpp\<close>): the
  pieces, the en-passant square (255 for none), the castling rights, the clocks, the
  incremental hash and the history of hashes; \<open>apply_move\<close> with its roll back; and the tests
  for the end of the game.

  The two clocks are C++ floats that start at 0 and only ever grow by 0.5 or return to 0. The
  model counts the halves: \<open>n\<close> stands for the float \<open>n / 2\<close>. All such values up to
  \<open>2 ^ 24\<close> halves are exact in a float; there the addition of 0.5 rounds (to even) back to
  the same value, so the counter stays put, as \<open>add_half\<close> says.
\<close>

section \<open>State\<close>

record position =
  pieces_of :: pieces
  en_passant :: nat
  rights :: castling
  move_ctr :: nat
  hash :: u64
  fifty_moves_ctr :: nat
  history :: "u64 list"

definition add_half :: "nat \<Rightarrow> nat" where
  "add_half n = (if n < 2 ^ 24 then n + 1 else n)"

text \<open>The clock is within 0.01 of its integral part iff the number of halves is even.\<close>

definition side_to_move :: "position \<Rightarrow> nat" where
  "side_to_move pos = (if move_ctr pos mod 2 = 0 then White else Black)"

definition all_rights :: castling where
  "all_rights = \<lparr>w_l_castling = True, w_s_castling = True, b_l_castling = True, b_s_castling = True\<rparr>"

definition position_of_pieces :: "pieces \<Rightarrow> position" where
  "position_of_pieces p =
     (let h = ZobristHash p False True True True True
      in \<lparr>pieces_of = p, en_passant = 255, rights = all_rights, move_ctr = 0, hash = h,
          fifty_moves_ctr = 0, history = [h]\<rparr>)"

definition start_placement :: string where
  "start_placement = ''rnbqkbnr/pppppppp/8/8/8/8/PPPPPPPP/RNBQKBNR''"

text \<open>The default constructor, and the one from a FEN string, which reads up to the first blank.\<close>

definition initial_position :: "position option" where
  "initial_position = map_option position_of_pieces (Pieces_of_fen start_placement)"

definition Position_of_fen :: "string \<Rightarrow> position option" where
  "Position_of_fen fen =
     map_option position_of_pieces (Pieces_of_fen (takeWhile (\<lambda>c. c \<noteq> CHR '' '') fen))"

section \<open>Applying a move\<close>

definition add_piece :: "nat \<Rightarrow> nat \<Rightarrow> nat \<Rightarrow> position \<Rightarrow> position" where
  "add_piece square type side pos =
     (let p = pieces_of pos; bb = piece_bitboards p side type in
      if \<not> get_bit bb square
      then pos\<lparr>pieces_of := p\<lparr>piece_bitboards := upd_board (piece_bitboards p) side type (set_1 bb square)\<rparr>,
               hash := invert_piece square type side (hash pos)\<rparr>
      else pos)"

definition remove_piece :: "nat \<Rightarrow> nat \<Rightarrow> nat \<Rightarrow> position \<Rightarrow> position" where
  "remove_piece square type side pos =
     (let p = pieces_of pos; bb = piece_bitboards p side type in
      if get_bit bb square
      then pos\<lparr>pieces_of := p\<lparr>piece_bitboards := upd_board (piece_bitboards p) side type (set_0 bb square)\<rparr>,
               hash := invert_piece square type side (hash pos)\<rparr>
      else pos)"

text \<open>
  Each branch of \<open>update_castling_rights\<close> inverts the hash key whether or not the right was
  still there, as the source does.
\<close>

definition drop_w_l :: "position \<Rightarrow> position" where
  "drop_w_l pos = pos\<lparr>hash := invert_w_l_castling (hash pos), rights := (rights pos)\<lparr>w_l_castling := False\<rparr>\<rparr>"

definition drop_w_s :: "position \<Rightarrow> position" where
  "drop_w_s pos = pos\<lparr>hash := invert_w_s_castling (hash pos), rights := (rights pos)\<lparr>w_s_castling := False\<rparr>\<rparr>"

definition drop_b_l :: "position \<Rightarrow> position" where
  "drop_b_l pos = pos\<lparr>hash := invert_b_l_castling (hash pos), rights := (rights pos)\<lparr>b_l_castling := False\<rparr>\<rparr>"

definition drop_b_s :: "position \<Rightarrow> position" where
  "drop_b_s pos = pos\<lparr>hash := invert_b_s_castling (hash pos), rights := (rights pos)\<lparr>b_s_castling := False\<rparr>\<rparr>"

definition update_castling_rights :: "nat \<Rightarrow> position \<Rightarrow> position" where
  "update_castling_rights from_sq pos =
     (let p1 = (if from_sq = 0 then drop_w_l pos else pos);
          p2 = (if from_sq = 4 then drop_w_s (drop_w_l p1) else p1);
          p3 = (if from_sq = 7 then drop_w_s p2 else p2);
          p4 = (if from_sq = 56 then drop_b_l p3 else p3);
          p5 = (if from_sq = 60 then drop_b_s (drop_b_l p4) else p4)
      in if from_sq = 63 then drop_b_s p5 else p5)"

text \<open>The \<^verbatim>\<open>switch\<close> over the flag.\<close>

definition special_flag :: "move \<Rightarrow> position \<Rightarrow> position" where
  "special_flag m pos =
     (if mv_flag m = EnPassantCapture then
        (if attacker_side m = White then remove_piece (u8_sub (mv_to m) 8) Pawn Black pos
         else remove_piece (u8_add (mv_to m) 8) Pawn White pos)
      else if mv_flag m = WhiteLongCastling then add_piece 3 Rook White (remove_piece 0 Rook White pos)
      else if mv_flag m = WhiteShortCastling then add_piece 5 Rook White (remove_piece 7 Rook White pos)
      else if mv_flag m = BlackLongCastling then add_piece 59 Rook Black (remove_piece 56 Rook Black pos)
      else if mv_flag m = BlackShortCastling then add_piece 61 Rook Black (remove_piece 63 Rook Black pos)
      else if mv_flag m = PromoteToKnight then
        add_piece (mv_to m) Knight (attacker_side m) (remove_piece (mv_to m) Pawn (attacker_side m) pos)
      else if mv_flag m = PromoteToBishop then
        add_piece (mv_to m) Bishop (attacker_side m) (remove_piece (mv_to m) Pawn (attacker_side m) pos)
      else if mv_flag m = PromoteToRook then
        add_piece (mv_to m) Rook (attacker_side m) (remove_piece (mv_to m) Pawn (attacker_side m) pos)
      else if mv_flag m = PromoteToQueen then
        add_piece (mv_to m) Queen (attacker_side m) (remove_piece (mv_to m) Pawn (attacker_side m) pos)
      else pos)"

definition move_pieces :: "move \<Rightarrow> position \<Rightarrow> position" where
  "move_pieces m pos =
     (let p1 = remove_piece (mv_from m) (attacker_type m) (attacker_side m) pos;
          p2 = add_piece (mv_to m) (attacker_type m) (attacker_side m) p1;
          p3 = (if defender_type m \<noteq> 255 then remove_piece (mv_to m) (defender_type m) (defender_side m) p2 else p2)
      in special_flag m p3)"

definition update_en_passant :: "move \<Rightarrow> position \<Rightarrow> position" where
  "update_en_passant m pos =
     (if mv_flag m \<noteq> PawnLongMove then
        (if en_passant pos \<noteq> 255
         then pos\<lparr>hash := invert_piece (en_passant pos) Pawn (inverse_side (attacker_side m)) (hash pos),
                  en_passant := 255\<rparr>
         else pos)
      else
        (let ep = (mv_from m + mv_to m) div 2
         in pos\<lparr>en_passant := ep, hash := invert_piece ep Pawn (inverse_side (attacker_side m)) (hash pos)\<rparr>))"

definition is_irreversible :: "move \<Rightarrow> bool" where
  "is_irreversible m \<longleftrightarrow> attacker_type m = Pawn \<or> defender_type m \<noteq> 255"

definition update_clocks :: "move \<Rightarrow> position \<Rightarrow> position" where
  "update_clocks m pos =
     (let p1 = pos\<lparr>move_ctr := add_half (move_ctr pos), hash := invert_move (hash pos)\<rparr>;
          p2 = p1\<lparr>fifty_moves_ctr := (if is_irreversible m then 0 else add_half (fifty_moves_ctr p1))\<rparr>;
          hist = (if is_irreversible m then [] else history p2)
      in p2\<lparr>history := hist @ [hash p2]\<rparr>)"

definition play_move :: "move \<Rightarrow> position \<Rightarrow> position" where
  "play_move m pos =
     (let p1 = move_pieces m pos;
          p2 = p1\<lparr>pieces_of := update_bitboards (pieces_of p1)\<rparr>;
          p3 = update_castling_rights (mv_from m) p2;
          p4 = update_en_passant m p3
      in update_clocks m p4)"

definition apply_move :: "position \<Rightarrow> move \<Rightarrow> bool \<times> position" where
  "apply_move pos m =
     (let pos' = play_move m pos
      in if is_check (pieces_of pos') (attacker_side m)
         then (False, pos'\<lparr>pieces_of := pieces_of pos, en_passant := en_passant pos, rights := rights pos,
                 move_ctr := move_ctr pos, fifty_moves_ctr := fifty_moves_ctr pos, hash := hash pos,
                 history := history pos\<rparr>)
         else (True, pos'))"

section \<open>Queries\<close>

definition generate_moves :: "position \<Rightarrow> move_list" where
  "generate_moves pos = generate_all_moves (pieces_of pos) (side_to_move pos) (en_passant pos) (rights pos)"

definition is_checkmate :: "position \<Rightarrow> bool" where
  "is_checkmate pos =
     (if \<not> is_check (pieces_of pos) (side_to_move pos) then False
      else \<not> has_legal_moves (pieces_of pos) (side_to_move pos) (en_passant pos) (rights pos))"

definition is_stalemate :: "position \<Rightarrow> bool" where
  "is_stalemate pos =
     (if is_check (pieces_of pos) (side_to_move pos) then False
      else \<not> has_legal_moves (pieces_of pos) (side_to_move pos) (en_passant pos) (rights pos))"

fun repetition_loop :: "u64 \<Rightarrow> int \<Rightarrow> u64 list \<Rightarrow> bool" where
  "repetition_loop current count [] = False"
| "repetition_loop current count (h # hs) =
     (let count' = (if h = current then count + 1 else count)
      in if count' \<ge> 3 then True else repetition_loop current count' hs)"

definition is_threefold_repetition :: "position \<Rightarrow> bool" where
  "is_threefold_repetition pos =
     (if history pos = [] then False else repetition_loop (last (history pos)) 0 (history pos))"

text \<open>\<^verbatim>\<open>_fifty_moves_ctr >= 100.0f\<close>: 200 halves.\<close>

definition is_fifty_move_rule :: "position \<Rightarrow> bool" where
  "is_fifty_move_rule pos \<longleftrightarrow> fifty_moves_ctr pos \<ge> 2 * 100"

end
