(* ===== verification/PositionInv.thy ===== *)
theory PositionInv
  imports Position
begin

text \<open>
  Invariants of \<open>apply_move\<close>: the boards stay disjoint and in step with the auxiliary boards,
  the incremental hash follows the reference hash, the sides alternate, and in the positions
  that a game reaches from the start the en-passant square is always one that the side to
  move cannot use.
\<close>

section \<open>Adding and removing a piece\<close>

lemma get_bit_set_1_id: "bit bb sq \<Longrightarrow> set_1 bb sq = bb"
  by (rule bit_word_eqI) (auto simp: bit_set_1)

lemma get_bit_set_0_id: "\<not> bit bb sq \<Longrightarrow> set_0 bb sq = bb"
  by (rule bit_word_eqI) (auto simp: bit_set_0)

lemma upd_board_same [simp]: "upd_board pb s t (pb s t) = pb"
  by (simp add: upd_board_def)

lemma boards_add_piece:
  "piece_bitboards (pieces_of (add_piece sq t s pos)) =
     upd_board (piece_bitboards (pieces_of pos)) s t (set_1 (piece_bitboards (pieces_of pos) s t) sq)"
  by (simp add: add_piece_def get_bit_iff Let_def get_bit_set_1_id)

lemma boards_remove_piece:
  "piece_bitboards (pieces_of (remove_piece sq t s pos)) =
     upd_board (piece_bitboards (pieces_of pos)) s t (set_0 (piece_bitboards (pieces_of pos) s t) sq)"
  by (simp add: remove_piece_def get_bit_iff Let_def get_bit_set_0_id)

text \<open>The fields that adding and removing leave alone.\<close>

lemma add_piece_frame [simp]:
  "en_passant (add_piece sq t s pos) = en_passant pos" "rights (add_piece sq t s pos) = rights pos"
  "move_ctr (add_piece sq t s pos) = move_ctr pos" "fifty_moves_ctr (add_piece sq t s pos) = fifty_moves_ctr pos"
  "history (add_piece sq t s pos) = history pos"
  by (simp_all add: add_piece_def Let_def)

lemma remove_piece_frame [simp]:
  "en_passant (remove_piece sq t s pos) = en_passant pos" "rights (remove_piece sq t s pos) = rights pos"
  "move_ctr (remove_piece sq t s pos) = move_ctr pos" "fifty_moves_ctr (remove_piece sq t s pos) = fifty_moves_ctr pos"
  "history (remove_piece sq t s pos) = history pos"
  by (simp_all add: remove_piece_def Let_def)

text \<open>
  What the hash holds beyond the reference hash of the boards. Adding or removing a piece on
  the board never changes it.
\<close>

definition hash_excess :: "position \<Rightarrow> u64" where
  "hash_excess pos = hash pos XOR boards_hash (piece_bitboards (pieces_of pos))"

lemma invert_piece_excess: "invert_piece sq t s h XOR invert_piece sq t s g = h XOR g"
  by (simp add: invert_piece_def ac_simps)

lemma hash_excess_add_piece [simp]:
  assumes "sq < 64" "s < 2" "t < 6"
  shows "hash_excess (add_piece sq t s pos) = hash_excess pos"
proof (cases "bit (piece_bitboards (pieces_of pos) s t) sq")
  case False
  then have "boards_hash (upd_board (piece_bitboards (pieces_of pos)) s t
      (set_1 (piece_bitboards (pieces_of pos) s t) sq)) =
      invert_piece sq t s (boards_hash (piece_bitboards (pieces_of pos)))"
    using assms by (intro boards_hash_flip) (auto simp: bit_set_1)
  then show ?thesis
    using False by (simp add: hash_excess_def add_piece_def get_bit_iff Let_def invert_piece_excess)
qed (simp add: add_piece_def get_bit_iff Let_def)

lemma hash_excess_remove_piece [simp]:
  assumes "sq < 64" "s < 2" "t < 6"
  shows "hash_excess (remove_piece sq t s pos) = hash_excess pos"
proof (cases "bit (piece_bitboards (pieces_of pos) s t) sq")
  case True
  then have "boards_hash (upd_board (piece_bitboards (pieces_of pos)) s t
      (set_0 (piece_bitboards (pieces_of pos) s t) sq)) =
      invert_piece sq t s (boards_hash (piece_bitboards (pieces_of pos)))"
    using assms by (intro boards_hash_flip) (auto simp: bit_set_0)
  then show ?thesis
    using True by (simp add: hash_excess_def remove_piece_def get_bit_iff Let_def invert_piece_excess)
qed (simp add: remove_piece_def get_bit_iff Let_def)

section \<open>Moving the pieces\<close>

lemma piece_types_less [simp]:
  "Pawn < 6" "Knight < 6" "Bishop < 6" "Rook < 6" "Queen < 6" "King < 6" "White < 2" "Black < 2"
  by (simp_all add: piece_type_defs piece_color_defs)

text \<open>Moves within the ranges of the arrays; what \<open>sound_move\<close> gives, and more liberal.\<close>

definition in_range :: "move \<Rightarrow> bool" where
  "in_range m \<longleftrightarrow> mv_from m < 64 \<and> mv_to m < 64 \<and> attacker_side m < 2 \<and> attacker_type m < 6 \<and>
     (defender_type m \<noteq> 255 \<longrightarrow> defender_type m < 6 \<and> defender_side m < 2) \<and>
     (mv_flag m = EnPassantCapture \<longrightarrow> 8 \<le> mv_to m \<and> mv_to m < 56)"

lemma hash_excess_special_flag:
  "in_range m \<Longrightarrow> hash_excess (special_flag m pos) = hash_excess pos"
  unfolding special_flag_def in_range_def by (auto simp: flag_defs)

lemma hash_excess_move_pieces:
  "in_range m \<Longrightarrow> hash_excess (move_pieces m pos) = hash_excess pos"
  by (simp add: move_pieces_def Let_def hash_excess_special_flag) (simp add: in_range_def)

lemma special_flag_frame [simp]:
  "en_passant (special_flag m pos) = en_passant pos" "rights (special_flag m pos) = rights pos"
  "move_ctr (special_flag m pos) = move_ctr pos" "fifty_moves_ctr (special_flag m pos) = fifty_moves_ctr pos"
  "history (special_flag m pos) = history pos"
  unfolding special_flag_def by simp_all

lemma move_pieces_frame [simp]:
  "en_passant (move_pieces m pos) = en_passant pos" "rights (move_pieces m pos) = rights pos"
  "move_ctr (move_pieces m pos) = move_ctr pos" "fifty_moves_ctr (move_pieces m pos) = fifty_moves_ctr pos"
  "history (move_pieces m pos) = history pos"
  unfolding move_pieces_def by (simp_all add: Let_def)

subsection \<open>Disjointness\<close>

definition sub_boards :: "boards \<Rightarrow> boards \<Rightarrow> bool" where
  "sub_boards pb' pb \<longleftrightarrow> (\<forall>s < 2. \<forall>t < 6. \<forall>n. bit (pb' s t) n \<longrightarrow> bit (pb s t) n)"

lemma disjoint_sub: "disjoint_boards pb \<Longrightarrow> sub_boards pb' pb \<Longrightarrow> disjoint_boards pb'"
  unfolding disjoint_boards_def sub_boards_def by blast

lemma sub_boards_remove: "sub_boards (upd_board pb s t (set_0 (pb s t) sq)) pb"
  by (auto simp: sub_boards_def bit_set_0)

definition vacant :: "boards \<Rightarrow> nat \<Rightarrow> bool" where
  "vacant pb n \<longleftrightarrow> (\<forall>s < 2. \<forall>t < 6. \<not> bit (pb s t) n)"

lemma vacant_sub: "vacant pb n \<Longrightarrow> sub_boards pb' pb \<Longrightarrow> vacant pb' n"
  unfolding vacant_def sub_boards_def by blast

lemma vacant_add: "n \<noteq> sq \<Longrightarrow> vacant pb n \<Longrightarrow> vacant (upd_board pb s t (set_1 (pb s t) sq)) n"
  by (auto simp: vacant_def bit_set_1)

lemma disjoint_add:
  assumes "disjoint_boards pb" and "vacant pb sq"
  shows "disjoint_boards (upd_board pb s t (set_1 (pb s t) sq))"
  unfolding disjoint_boards_def
proof (intro allI impI)
  fix s1 t1 s2 t2 n
  assume b: "s1 < 2" "t1 < 6" "s2 < 2" "t2 < 6"
    and *: "bit (upd_board pb s t (set_1 (pb s t) sq) s1 t1) n" "bit (upd_board pb s t (set_1 (pb s t) sq) s2 t2) n"
  show "s1 = s2 \<and> t1 = t2"
  proof (cases "n = sq")
    case True
    then show ?thesis using * b assms(2) by (auto simp: vacant_def split: if_splits)
  next
    case False
    then have "bit (pb s1 t1) n" "bit (pb s2 t2) n" using * by (auto simp: bit_set_1 split: if_splits)
    then show ?thesis using b disjoint_boardsD [OF assms(1)] by blast
  qed
qed

lemma vacant_remove:
  assumes "disjoint_boards pb" "s < 2" "t < 6" "bit (pb s t) sq"
  shows "vacant (upd_board pb s t (set_0 (pb s t) sq)) sq"
  using assms disjoint_boardsD [OF assms(1)] by (auto simp: vacant_def bit_set_0)

text \<open>Adding at a square and then removing the piece that stood there is a replacement.\<close>

lemma disjoint_capture:
  assumes "disjoint_boards pb" "s < 2" "t < 6" "s' < 2" "t' < 6" "s \<noteq> s'" "bit (pb s' t') sq"
  shows "disjoint_boards (let pb2 = upd_board pb s t (set_1 (pb s t) sq)
    in upd_board pb2 s' t' (set_0 (pb2 s' t') sq))"
proof -
  let ?q = "upd_board pb s' t' (set_0 (pb s' t') sq)"
  have "disjoint_boards (upd_board ?q s t (set_1 (?q s t) sq))"
    by (intro disjoint_add vacant_remove disjoint_sub [OF assms(1) sub_boards_remove] assms)
  moreover have "upd_board ?q s t (set_1 (?q s t) sq) =
      (let pb2 = upd_board pb s t (set_1 (pb s t) sq) in upd_board pb2 s' t' (set_0 (pb2 s' t') sq))"
    using assms(6) by (simp add: upd_board_def fun_upd_twist Let_def)
  ultimately show ?thesis by simp
qed

text \<open>The squares that castling needs empty for the rook.\<close>

definition rook_square :: "nat \<Rightarrow> nat" where
  "rook_square fl =
     (if fl = WhiteLongCastling then 3 else if fl = WhiteShortCastling then 5
      else if fl = BlackLongCastling then 59 else 61)"

definition castling_clear :: "pieces \<Rightarrow> move \<Rightarrow> bool" where
  "castling_clear p m \<longleftrightarrow> (castling_flag (mv_flag m) \<longrightarrow>
     \<not> bit (all_bb p) (rook_square (mv_flag m)) \<and> mv_to m \<noteq> rook_square (mv_flag m) \<and> defender_type m = 255)"

lemma not_all_vacant: "synced p \<Longrightarrow> \<not> bit (all_bb p) n \<longleftrightarrow> vacant (piece_bitboards p) n"
  by (auto simp: vacant_def synced_allD synced_sideD)

lemma disjoint_moved:
  assumes "wf_pieces p" "side < 2" "sound_move p side m" "mv_flag m \<noteq> EnPassantCapture"
    and "piece_bitboards (pieces_of pos) = piece_bitboards p"
  defines "p2 \<equiv> add_piece (mv_to m) (attacker_type m) (attacker_side m)
      (remove_piece (mv_from m) (attacker_type m) (attacker_side m) pos)"
  shows "disjoint_boards (piece_bitboards (pieces_of
    (if defender_type m \<noteq> 255 then remove_piece (mv_to m) (defender_type m) (defender_side m) p2 else p2)))"
proof -
  let ?pb = "piece_bitboards p"
  let ?s = "attacker_side m" and ?t = "attacker_type m" and ?to = "mv_to m"
  let ?pb1 = "upd_board ?pb ?s ?t (set_0 (?pb ?s ?t) (mv_from m))"
  have disj: "disjoint_boards ?pb" and sync: "synced p" using assms(1) by (auto simp: wf_pieces_def)
  have st: "?s < 2" "?t < 6" "?s = side" using assms(2,3) by (auto simp: sound_move_def)
  have disj1: "disjoint_boards ?pb1" by (rule disjoint_sub [OF disj sub_boards_remove])
  show ?thesis
  proof (cases "defender_type m = 255")
    case True
    then have "vacant ?pb ?to" using assms(3,4) sync by (simp add: sound_move_def not_all_vacant)
    then have "disjoint_boards (upd_board ?pb1 ?s ?t (set_1 (?pb1 ?s ?t) ?to))"
      by (intro disjoint_add disj1 vacant_sub [OF _ sub_boards_remove])
    then show ?thesis using True by (simp add: p2_def boards_add_piece boards_remove_piece assms(5))
  next
    case False
    let ?ds = "defender_side m" and ?dt = "defender_type m"
    have d: "?ds < 2" "?dt < 6" "?s \<noteq> ?ds" "bit (?pb ?ds ?dt) ?to"
      using assms(2,3) False st inverse_side_less [OF assms(2)] inverse_side_neq [OF assms(2)]
      by (auto simp: sound_move_def)
    then have "bit (?pb1 ?ds ?dt) ?to" by auto
    from disjoint_capture [OF disj1 st(1,2) d(1,2,3) this] False show ?thesis
      by (simp only: p2_def boards_add_piece boards_remove_piece assms(5) Let_def if_True simp_thms)
  qed
qed

lemma disjoint_special_flag:
  assumes "wf_pieces (pieces_of pos)" "side < 2" "sound_move (pieces_of pos) side m"
    "mv_flag m \<noteq> EnPassantCapture" "castling_clear (pieces_of pos) m"
  shows "disjoint_boards (piece_bitboards (pieces_of (move_pieces m pos)))"
proof -
  define p2 where "p2 = add_piece (mv_to m) (attacker_type m) (attacker_side m)
      (remove_piece (mv_from m) (attacker_type m) (attacker_side m) pos)"
  define p3 where "p3 =
    (if defender_type m \<noteq> 255 then remove_piece (mv_to m) (defender_type m) (defender_side m) p2 else p2)"
  let ?pb = "piece_bitboards (pieces_of pos)" and ?pb3 = "piece_bitboards (pieces_of p3)"
  have mp: "move_pieces m pos = special_flag m p3" by (simp add: move_pieces_def p3_def p2_def Let_def)
  have d3: "disjoint_boards ?pb3"
    unfolding p3_def p2_def by (rule disjoint_moved [OF assms(1-4) refl])
  have side: "attacker_side m = side" using assms(3) by (simp add: sound_move_def)
  show ?thesis
  proof (cases "promotion_flag (mv_flag m) \<or> castling_flag (mv_flag m)")
    case False
    then have "special_flag m p3 = p3"
      using assms(4) by (auto simp: special_flag_def promotion_flag_def castling_flag_def flag_defs)
    then show ?thesis using d3 by (simp add: mp)
  next
    case True
    then consider (pr) "promotion_flag (mv_flag m)" | (ca) "castling_flag (mv_flag m)" by blast
    then show ?thesis
    proof cases
      case pr
      then have pawn: "attacker_type m = Pawn" using assms(3) by (simp add: sound_move_def)
      have "defender_type m \<noteq> 255 \<Longrightarrow> defender_side m \<noteq> side"
        using assms(2,3) inverse_side_neq by (auto simp: sound_move_def)
      then have at: "bit (?pb3 side Pawn) (mv_to m)"
        using assms(3) by (auto simp: p3_def p2_def boards_add_piece boards_remove_piece side pawn bit_set_1 sound_move_def)
      have "disjoint_boards (piece_bitboards (pieces_of
          (add_piece (mv_to m) t side (remove_piece (mv_to m) Pawn side p3))))" for t
        unfolding boards_add_piece boards_remove_piece
        by (intro disjoint_add vacant_remove disjoint_sub [OF d3 sub_boards_remove] d3 at assms(2)) simp
      then show ?thesis using pr by (auto simp: mp special_flag_def side promotion_flag_def flag_defs)
    next
      case ca
      let ?r = "rook_square (mv_flag m)"
      have sync: "synced (pieces_of pos)" using assms(1) by (simp add: wf_pieces_def)
      have c: "vacant ?pb ?r" "mv_to m \<noteq> ?r" "defender_type m = 255"
        using assms(5) ca by (auto simp: castling_clear_def not_all_vacant [OF sync])
      then have v: "vacant ?pb3 ?r"
        unfolding p3_def p2_def boards_add_piece boards_remove_piece
        by (auto simp: p2_def boards_add_piece boards_remove_piece vacant_def bit_set_1 bit_set_0)
      have "disjoint_boards (piece_bitboards (pieces_of (add_piece ?r t s (remove_piece q t' s' p3))))" for t s q t' s'
        unfolding boards_add_piece boards_remove_piece
        by (intro disjoint_add vacant_sub [OF v sub_boards_remove] disjoint_sub [OF d3 sub_boards_remove])
      then show ?thesis
        using ca by (auto simp: mp special_flag_def castling_flag_def rook_square_def flag_defs)
    qed
  qed
qed

lemma boards_frames [simp]:
  "pieces_of (update_castling_rights f pos) = pieces_of pos"
  "pieces_of (update_en_passant m pos) = pieces_of pos"
  "pieces_of (update_clocks m pos) = pieces_of pos"
  by (simp_all add: update_castling_rights_def drop_w_l_def drop_w_s_def drop_b_l_def drop_b_s_def
      update_en_passant_def update_clocks_def Let_def)

lemma pieces_of_make: "pieces_of (play_move m pos) = update_bitboards (pieces_of (move_pieces m pos))"
  by (simp add: play_move_def Let_def)

lemma wf_make:
  assumes "wf_pieces (pieces_of pos)" "side < 2" "sound_move (pieces_of pos) side m"
    "mv_flag m \<noteq> EnPassantCapture" "castling_clear (pieces_of pos) m"
  shows "wf_pieces (pieces_of (play_move m pos))"
  using disjoint_special_flag [OF assms] by (simp add: pieces_of_make wf_pieces_def)

lemma candidate_flag_castling:
  assumes "m \<in> set (candidates p side ep cr)" "castling_flag (mv_flag m)"
  shows "m \<in> set (castling_candidates p side ep cr)"
proof -
  have pr: False if "m \<in> set (pawn_results p ep cr side f t dt ds)" for f t dt ds
    using that assms(2) by (elim pawn_resultsE) (auto dest: promotion_flag_bounds split: if_splits)
  have pc: False if "m \<in> set (piece_candidates p side ep cr t targets)" for t targets
    using that assms(2) by (elim piece_candidatesE) auto
  have "\<not> castling_flag PawnLongMove" "\<not> castling_flag EnPassantCapture"
    by (simp_all add: castling_flag_def flag_defs)
  then have "m \<notin> set (long_candidates p side ep cr)" "m \<notin> set (en_passant_candidates p side ep cr)"
    using assms(2) by (auto simp: long_candidates_def in_if_legal Let_def en_passant_candidates_def
        ep_candidate_def split: if_splits)
  then show ?thesis
    using assms(1) by (auto simp: candidates_def single_candidates_def capture_candidates_def dest: pr pc)
qed

lemma castling_candidates_clear:
  assumes "wf_pieces p" "side < 2" "m \<in> set (castling_candidates p side ep cr)"
  shows "castling_clear p m"
proof -
  have "bit (empty_bb p) (rook_square (mv_flag m))"
    using assms(2,3) by (auto simp: castling_candidates_def castle_candidate_def get_bit_iff less_2_cases_iff
      piece_color_defs rook_square_def flag_defs split: if_splits)
  then show ?thesis
    using castling_candidates_cases [OF assms(3,2)] empty_not_own [OF assms(1,2)]
    by (auto simp: castling_clear_def rook_square_def flag_defs)
qed

lemma candidate_castling_clear:
  assumes "wf_pieces p" "side < 2" "m \<in> set (candidates p side ep cr)"
  shows "castling_clear p m"
  using castling_candidates_clear [OF assms(1,2) candidate_flag_castling [OF assms(3)]]
  by (auto simp: castling_clear_def)

lemma sound_in_range: "sound_move p side m \<Longrightarrow> side < 2 \<Longrightarrow> mv_flag m \<noteq> EnPassantCapture \<Longrightarrow> in_range m"
  by (auto simp: in_range_def sound_move_def inverse_side_less)

section \<open>Rolling back\<close>

lemma apply_move_cases:
  "apply_move pos m = (if is_check (pieces_of (play_move m pos)) (attacker_side m) then (False, pos) else (True, play_move m pos))"
  by (simp add: apply_move_def Let_def)

section \<open>The hash\<close>

text \<open>The keys that \<open>update_castling_rights\<close> inverts for a start square.\<close>

definition castling_toggles :: "nat \<Rightarrow> u64" where
  "castling_toggles f =
     (if f = 0 then WhiteLongCastlingC else if f = 4 then WhiteLongCastlingC XOR WhiteShortCastlingC
      else if f = 7 then WhiteShortCastlingC else if f = 56 then BlackLongCastlingC
      else if f = 60 then BlackLongCastlingC XOR BlackShortCastlingC
      else if f = 63 then BlackShortCastlingC else 0)"

definition ep_toggle :: "move \<Rightarrow> nat \<Rightarrow> u64" where
  "ep_toggle m ep =
     (if mv_flag m = PawnLongMove
      then Constants ((mv_from m + mv_to m) div 2) (inverse_side (attacker_side m)) Pawn
      else if ep \<noteq> 255 then Constants ep (inverse_side (attacker_side m)) Pawn else 0)"

lemma hash_update_castling: "hash (update_castling_rights f pos) = hash pos XOR castling_toggles f"
  by (simp add: update_castling_rights_def castling_toggles_def drop_w_l_def drop_w_s_def drop_b_l_def
      drop_b_s_def invert_defs Let_def ac_simps)

lemma hash_update_en_passant: "hash (update_en_passant m pos) = hash pos XOR ep_toggle m (en_passant pos)"
  by (simp add: update_en_passant_def ep_toggle_def invert_piece_def Let_def)

lemma update_castling_frame [simp]:
  "en_passant (update_castling_rights f pos) = en_passant pos"
  "move_ctr (update_castling_rights f pos) = move_ctr pos"
  "fifty_moves_ctr (update_castling_rights f pos) = fifty_moves_ctr pos"
  "history (update_castling_rights f pos) = history pos"
  by (simp_all add: update_castling_rights_def drop_w_l_def drop_w_s_def drop_b_l_def drop_b_s_def Let_def)

lemma update_en_passant_frame [simp]:
  "rights (update_en_passant m pos) = rights pos" "move_ctr (update_en_passant m pos) = move_ctr pos"
  "fifty_moves_ctr (update_en_passant m pos) = fifty_moves_ctr pos"
  "history (update_en_passant m pos) = history pos"
  by (simp_all add: update_en_passant_def Let_def)

lemma rights_update_castling:
  "rights (update_castling_rights f pos) =
     \<lparr>w_l_castling = w_l_castling (rights pos) \<and> f \<notin> {0, 4}, w_s_castling = w_s_castling (rights pos) \<and> f \<notin> {4, 7},
      b_l_castling = b_l_castling (rights pos) \<and> f \<notin> {56, 60}, b_s_castling = b_s_castling (rights pos) \<and> f \<notin> {60, 63}\<rparr>"
  by (auto simp: update_castling_rights_def drop_w_l_def drop_w_s_def drop_b_l_def drop_b_s_def Let_def)

lemma make_fields:
  "en_passant (play_move m pos) =
     (if mv_flag m = PawnLongMove then (mv_from m + mv_to m) div 2 else 255)"
  "rights (play_move m pos) =
     \<lparr>w_l_castling = w_l_castling (rights pos) \<and> mv_from m \<notin> {0, 4},
      w_s_castling = w_s_castling (rights pos) \<and> mv_from m \<notin> {4, 7},
      b_l_castling = b_l_castling (rights pos) \<and> mv_from m \<notin> {56, 60},
      b_s_castling = b_s_castling (rights pos) \<and> mv_from m \<notin> {60, 63}\<rparr>"
  "move_ctr (play_move m pos) = add_half (move_ctr pos)"
  "fifty_moves_ctr (play_move m pos) = (if is_irreversible m then 0 else add_half (fifty_moves_ctr pos))"
  "history (play_move m pos) = (if is_irreversible m then [] else history pos) @ [hash (play_move m pos)]"
  by (simp_all add: play_move_def update_clocks_def Let_def update_en_passant_def rights_update_castling)

lemma hash_excess_make:
  assumes "in_range m"
  shows "hash_excess (play_move m pos) =
    hash_excess pos XOR BlackMove XOR castling_toggles (mv_from m) XOR ep_toggle m (en_passant pos)"
proof -
  let ?k = "BlackMove XOR castling_toggles (mv_from m) XOR ep_toggle m (en_passant pos)"
  have "hash (play_move m pos) = hash (move_pieces m pos) XOR ?k"
    by (simp add: play_move_def update_clocks_def Let_def invert_move_def hash_update_en_passant
        hash_update_castling ac_simps)
  moreover have "piece_bitboards (pieces_of (play_move m pos)) = piece_bitboards (pieces_of (move_pieces m pos))"
    by (simp add: pieces_of_make)
  ultimately have "hash_excess (play_move m pos) = hash_excess (move_pieces m pos) XOR ?k"
    by (simp add: hash_excess_def ac_simps)
  then show ?thesis by (simp add: hash_excess_move_pieces [OF assms] ac_simps)
qed

end
