(* ===== verification/BoardSpec.thy ===== *)
theory BoardSpec
  imports PositionInv
begin

text \<open>
  The abstract specification of a move: the board as a map from squares to pieces, what a move
  does to it (\<open>abs_move\<close>), and the refinement \<open>abs_make\<close>: the bitboards that
  \<open>Position::apply_move\<close> leaves represent the abstract board after the move.
\<close>

section \<open>The abstract board\<close>

text \<open>
  What a move does to the map from squares to pieces. Taking off a piece that is not there
  does nothing: this is how castling behaves when the king or the rook is missing.
\<close>

type_synonym abs_board = "nat \<Rightarrow> (nat \<times> nat) option"

definition take_off :: "nat \<Rightarrow> nat \<Rightarrow> nat \<Rightarrow> abs_board \<Rightarrow> abs_board" where
  "take_off sq t s b = (if b sq = Some (s, t) then b(sq := None) else b)"

definition put_on :: "nat \<Rightarrow> nat \<Rightarrow> nat \<Rightarrow> abs_board \<Rightarrow> abs_board" where
  "put_on sq t s b = b(sq \<mapsto> (s, t))"

definition promoted :: "nat \<Rightarrow> nat \<Rightarrow> nat" where
  "promoted fl t =
     (if fl = PromoteToKnight then Knight else if fl = PromoteToBishop then Bishop
      else if fl = PromoteToRook then Rook else if fl = PromoteToQueen then Queen else t)"

definition abs_move :: "move \<Rightarrow> abs_board \<Rightarrow> abs_board" where
  "abs_move m b =
     (let b1 = put_on (mv_to m) (promoted (mv_flag m) (attacker_type m)) (attacker_side m)
                 (take_off (mv_from m) (attacker_type m) (attacker_side m) b)
      in if mv_flag m = WhiteLongCastling then put_on 3 Rook White (take_off 0 Rook White b1)
         else if mv_flag m = WhiteShortCastling then put_on 5 Rook White (take_off 7 Rook White b1)
         else if mv_flag m = BlackLongCastling then put_on 59 Rook Black (take_off 56 Rook Black b1)
         else if mv_flag m = BlackShortCastling then put_on 61 Rook Black (take_off 63 Rook Black b1)
         else b1)"

definition represents :: "boards \<Rightarrow> abs_board \<Rightarrow> bool" where
  "represents pb b \<longleftrightarrow>
     (\<forall>sq s t. sq < 64 \<longrightarrow> s < 2 \<longrightarrow> t < 6 \<longrightarrow> bit (pb s t) sq = (b sq = Some (s, t)))"

lemma represents_board: "disjoint_boards (piece_bitboards p) \<Longrightarrow> represents (piece_bitboards p) (board p)"
  unfolding represents_def using board_SomeI board_SomeD by blast

lemma representsD: "represents pb b \<Longrightarrow> sq < 64 \<Longrightarrow> s < 2 \<Longrightarrow> t < 6 \<Longrightarrow> bit (pb s t) sq = (b sq = Some (s, t))"
  unfolding represents_def by blast

lemma represents_remove:
  "represents pb b \<Longrightarrow> s < 2 \<Longrightarrow> t < 6 \<Longrightarrow> represents (upd_board pb s t (set_0 (pb s t) sq)) (take_off sq t s b)"
  by (auto simp: represents_def take_off_def bit_set_0)

lemma represents_add:
  "represents pb b \<Longrightarrow> vacant pb sq \<Longrightarrow> s < 2 \<Longrightarrow> t < 6 \<Longrightarrow>
    represents (upd_board pb s t (set_1 (pb s t) sq)) (put_on sq t s b)"
  unfolding represents_def
proof (intro allI impI)
  fix n s' t' assume r: "\<forall>n s t. n < 64 \<longrightarrow> s < 2 \<longrightarrow> t < 6 \<longrightarrow> bit (pb s t) n = (b n = Some (s, t))"
    and v: "vacant pb sq" and st: "s < 2" "t < 6" and n: "n < (64 :: nat)" "s' < (2 :: nat)" "t' < (6 :: nat)"
  show "bit (upd_board pb s t (set_1 (pb s t) sq) s' t') n = (put_on sq t s b n = Some (s', t'))"
  proof (cases "n = sq")
    case True
    then have "\<not> bit (pb s' t') n" using v n by (simp add: vacant_def)
    then show ?thesis using True st n by (auto simp: put_on_def bit_set_1)
  next
    case False
    then show ?thesis using r n by (auto simp: put_on_def bit_set_1)
  qed
qed

text \<open>Adding before the captured piece is removed: the square ends with the new piece.\<close>

lemma represents_capture:
  assumes "represents pb b" "s < 2" "t < 6" "s' < 2" "t' < 6" "s \<noteq> s'" "b sq = Some (s', t')"
  shows "represents (let pb2 = upd_board pb s t (set_1 (pb s t) sq) in upd_board pb2 s' t' (set_0 (pb2 s' t') sq))
    (put_on sq t s b)"
  using assms by (auto simp: represents_def put_on_def bit_set_1 bit_set_0 Let_def split: if_splits)

lemma represents_vacant: "represents pb b \<Longrightarrow> vacant pb sq \<Longrightarrow> sq < 64 \<Longrightarrow> s < 2 \<Longrightarrow> t < 6 \<Longrightarrow> b sq \<noteq> Some (s, t)"
  by (auto simp: represents_def vacant_def)

lemma represents_unique:
  assumes "represents (piece_bitboards p) b" "disjoint_boards (piece_bitboards p)" "sq < 64"
    and "\<And>s t. b sq = Some (s, t) \<Longrightarrow> s < 2 \<and> t < 6"
  shows "board p sq = b sq"
proof (cases "b sq")
  case None
  have "board p sq \<noteq> Some (s, t)" for s t
    using None board_SomeD [of p sq s t] representsD [OF assms(1,3), of s t] by auto
  then show ?thesis using None by (cases "board p sq") auto
next
  case (Some st)
  obtain s t where st: "st = (s, t)" by (cases st)
  then have b: "s < 2" "t < 6" using assms(4) Some by blast+
  then have "bit (piece_bitboards p s t) sq" using representsD [OF assms(1,3) b] Some st by simp
  from board_SomeI [OF assms(2) b this] show ?thesis using Some st by simp
qed

lemma represents_vacant_iff:
  assumes "represents pb b" "sq < 64" "\<And>s t. b sq = Some (s, t) \<Longrightarrow> s < 2 \<and> t < 6"
  shows "vacant pb sq \<longleftrightarrow> b sq = None"
proof (cases "b sq")
  case None
  then show ?thesis using representsD [OF assms(1,2)] by (simp add: vacant_def)
next
  case (Some st)
  obtain s t where st: "st = (s, t)" by (cases st)
  then have "s < 2" "t < 6" using assms(3) Some by blast+
  moreover from this have "bit (pb s t) sq" using representsD [OF assms(1,2)] Some st by blast
  ultimately have "\<not> vacant pb sq" unfolding vacant_def by blast
  then show ?thesis using Some by simp
qed

definition in_board :: "abs_board \<Rightarrow> bool" where
  "in_board b \<longleftrightarrow> (\<forall>sq s t. b sq = Some (s, t) \<longrightarrow> s < 2 \<and> t < 6)"

lemma in_board_steps:
  "in_board b \<Longrightarrow> in_board (take_off sq t s b)"
  "in_board b \<Longrightarrow> s < 2 \<Longrightarrow> t < 6 \<Longrightarrow> in_board (put_on sq t s b)"
  by (auto simp: in_board_def take_off_def put_on_def)

lemma in_board_board: "in_board (board p)"
  using board_SomeD by (auto simp: in_board_def)

text \<open>The pieces moved, before the special flags.\<close>

lemma represents_moved:
  assumes "wf_pieces (pieces_of pos)" "side < 2" "sound_move (pieces_of pos) side m" "mv_flag m \<noteq> EnPassantCapture"
  defines "p2 \<equiv> add_piece (mv_to m) (attacker_type m) (attacker_side m)
      (remove_piece (mv_from m) (attacker_type m) (attacker_side m) pos)"
  shows "represents (piece_bitboards (pieces_of
      (if defender_type m \<noteq> 255 then remove_piece (mv_to m) (defender_type m) (defender_side m) p2 else p2)))
    (put_on (mv_to m) (attacker_type m) (attacker_side m)
      (take_off (mv_from m) (attacker_type m) (attacker_side m) (board (pieces_of pos))))"
proof -
  let ?p = "pieces_of pos"
  let ?pb = "piece_bitboards ?p" and ?s = "attacker_side m" and ?t = "attacker_type m" and ?to = "mv_to m"
  let ?pb1 = "upd_board ?pb ?s ?t (set_0 (?pb ?s ?t) (mv_from m))"
  let ?b1 = "take_off (mv_from m) ?t ?s (board ?p)"
  have disj: "disjoint_boards ?pb" and sync: "synced ?p" using assms(1) by (auto simp: wf_pieces_def)
  have st: "?s < 2" "?t < 6" "?s = side" using assms(2,3) by (auto simp: sound_move_def)
  have r1: "represents ?pb1 ?b1" by (rule represents_remove [OF represents_board [OF disj] st(1,2)])
  show ?thesis
  proof (cases "defender_type m = 255")
    case True
    then have "vacant ?pb ?to" using assms(3,4) sync by (simp add: sound_move_def not_all_vacant)
    then have "represents (upd_board ?pb1 ?s ?t (set_1 (?pb1 ?s ?t) ?to)) (put_on ?to ?t ?s ?b1)"
      by (intro represents_add [OF r1 _ st(1,2)] vacant_sub [OF _ sub_boards_remove])
    then show ?thesis using True by (simp add: p2_def boards_add_piece boards_remove_piece)
  next
    case False
    let ?ds = "defender_side m" and ?dt = "defender_type m"
    have d: "?ds < 2" "?dt < 6" "?s \<noteq> ?ds" "bit (?pb ?ds ?dt) ?to" "?to < 64"
      using assms(2,3) False st inverse_side_less [OF assms(2)] inverse_side_neq [OF assms(2)]
      by (auto simp: sound_move_def)
    then have "board ?p ?to = Some (?ds, ?dt)" using board_SomeI [OF disj] by blast
    then have "?b1 ?to = Some (?ds, ?dt)" using d(3) by (auto simp: take_off_def)
    from represents_capture [OF r1 st(1,2) d(1,2,3) this] False show ?thesis
      by (simp only: p2_def boards_add_piece boards_remove_piece Let_def if_True simp_thms)
  qed
qed

text \<open>The position after the piece was moved and the victim removed, as in the first half of \<open>move_pieces\<close>.\<close>

definition moved :: "move \<Rightarrow> position \<Rightarrow> position" where
  "moved m pos =
     (let p2 = add_piece (mv_to m) (attacker_type m) (attacker_side m) (remove_piece (mv_from m) (attacker_type m) (attacker_side m) pos)
      in if defender_type m \<noteq> 255 then remove_piece (mv_to m) (defender_type m) (defender_side m) p2 else p2)"

definition abs_moved :: "move \<Rightarrow> abs_board \<Rightarrow> abs_board" where
  "abs_moved m b = put_on (mv_to m) (attacker_type m) (attacker_side m) (take_off (mv_from m) (attacker_type m) (attacker_side m) b)"

lemma abs_quiet:
  assumes "\<not> promotion_flag (mv_flag m)" "\<not> castling_flag (mv_flag m)" "mv_flag m \<noteq> EnPassantCapture"
  shows "special_flag m p = p" "abs_move m b = abs_moved m b"
  using assms by (auto simp: special_flag_def promotion_flag_def castling_flag_def promoted_def
      abs_move_def abs_moved_def Let_def flag_defs)

lemma abs_promotion:
  assumes r: "represents (piece_bitboards (pieces_of p)) (abs_moved m b)" and m: "promotion_flag (mv_flag m)"
    and pawn: "attacker_type m = Pawn" "attacker_side m = side" "side < 2" "mv_to m < 64"
  shows "represents (piece_bitboards (pieces_of (special_flag m p))) (abs_move m b)"
proof -
  let ?pb = "piece_bitboards (pieces_of p)"
  have "represents (piece_bitboards (pieces_of (add_piece (mv_to m) t side (remove_piece (mv_to m) Pawn side p))))
      (put_on (mv_to m) t side (take_off (mv_to m) Pawn side (abs_moved m b)))" if "t < 6" for t
    unfolding boards_add_piece boards_remove_piece
  proof (intro represents_add represents_remove r that pawn(3) piece_types_less)
    have "represents (upd_board ?pb side Pawn (set_0 (?pb side Pawn) (mv_to m))) (take_off (mv_to m) Pawn side (abs_moved m b))"
      by (intro represents_remove r pawn(3) piece_types_less)
    then show "vacant (upd_board ?pb side Pawn (set_0 (?pb side Pawn) (mv_to m))) (mv_to m)"
      using pawn by (subst represents_vacant_iff [where b = "take_off (mv_to m) Pawn side (abs_moved m b)"])
        (simp_all add: take_off_def abs_moved_def put_on_def)
  qed
  moreover have "put_on (mv_to m) t side (take_off (mv_to m) Pawn side (abs_moved m b)) =
      put_on (mv_to m) t side (take_off (mv_from m) Pawn side b)" for t
    using pawn by (simp add: abs_moved_def put_on_def take_off_def fun_eq_iff)
  ultimately show ?thesis
    using m pawn by (auto simp: special_flag_def promotion_flag_def flag_defs abs_move_def promoted_def)
qed

lemma abs_castling:
  assumes r: "represents (piece_bitboards (pieces_of p)) (abs_moved m b)" and m: "castling_flag (mv_flag m)"
    and v: "vacant (piece_bitboards (pieces_of p)) (rook_square (mv_flag m))" "attacker_side m < 2"
  shows "represents (piece_bitboards (pieces_of (special_flag m p))) (abs_move m b)"
proof -
  let ?r = "rook_square (mv_flag m)"
  have "represents (piece_bitboards (pieces_of (add_piece ?r Rook s (remove_piece q Rook s p))))
      (put_on ?r Rook s (take_off q Rook s (abs_moved m b)))" if "s < 2" for s q
    unfolding boards_add_piece boards_remove_piece
    by (intro represents_add represents_remove r that piece_types_less vacant_sub [OF v(1) sub_boards_remove])
  then show ?thesis
    using m v(2) by (auto simp: special_flag_def castling_flag_def flag_defs abs_move_def promoted_def abs_moved_def rook_square_def)
qed

lemma vacant_moved:
  assumes "vacant (piece_bitboards (pieces_of pos)) q" "mv_to m \<noteq> q" "defender_type m = 255"
  shows "vacant (piece_bitboards (pieces_of (moved m pos))) q"
  using assms by (auto simp: moved_def boards_add_piece boards_remove_piece vacant_def bit_set_1 bit_set_0)

lemma in_board_abs_move:
  "in_board b \<Longrightarrow> attacker_side m < 2 \<Longrightarrow> attacker_type m < 6 \<Longrightarrow> mv_to m < 64 \<Longrightarrow> in_board (abs_move m b)"
proof -
  assume a: "in_board b" "attacker_side m < 2" "attacker_type m < 6" "mv_to m < 64"
  then have "promoted (mv_flag m) (attacker_type m) < 6" by (auto simp: promoted_def)
  then show ?thesis unfolding abs_move_def Let_def using a by (auto intro!: in_board_steps)
qed

lemma abs_make:
  assumes "wf_pieces (pieces_of pos)" "side < 2" "sound_move (pieces_of pos) side m"
    "mv_flag m \<noteq> EnPassantCapture" "castling_clear (pieces_of pos) m" "sq < 64"
  shows "board (pieces_of (play_move m pos)) sq = abs_move m (board (pieces_of pos)) sq"
proof -
  have mp: "move_pieces m pos = special_flag m (moved m pos)" by (simp add: move_pieces_def moved_def Let_def)
  have r: "represents (piece_bitboards (pieces_of (moved m pos))) (abs_moved m (board (pieces_of pos)))"
    unfolding moved_def abs_moved_def Let_def by (rule represents_moved [OF assms(1-4)])
  have s: "attacker_side m = side" "attacker_type m < 6" "mv_to m < 64" using assms(3) by (simp_all add: sound_move_def)
  consider (no) "\<not> promotion_flag (mv_flag m)" "\<not> castling_flag (mv_flag m)"
    | (pr) "promotion_flag (mv_flag m)" | (ca) "castling_flag (mv_flag m)" by blast
  then have "represents (piece_bitboards (pieces_of (special_flag m (moved m pos)))) (abs_move m (board (pieces_of pos)))"
  proof cases
    case no
    then show ?thesis using r abs_quiet [OF no assms(4)] by simp
  next
    case pr
    then show ?thesis using assms(2,3) s by (intro abs_promotion [OF r pr _ s(1)]) (simp_all add: sound_move_def)
  next
    case ca
    have "synced (pieces_of pos)" using assms(1) by (simp add: wf_pieces_def)
    then have "vacant (piece_bitboards (pieces_of pos)) (rook_square (mv_flag m))" "mv_to m \<noteq> rook_square (mv_flag m)" "defender_type m = 255"
      using assms(5) ca by (auto simp: castling_clear_def not_all_vacant)
    then show ?thesis using s(1) assms(2) by (intro abs_castling [OF r ca] vacant_moved) simp_all
  qed
  moreover have "in_board (abs_move m (board (pieces_of pos)))" using s assms(2) by (intro in_board_abs_move in_board_board) simp_all
  moreover have "board (pieces_of (play_move m pos)) = board (pieces_of (special_flag m (moved m pos)))"
    by (simp add: board_def pieces_of_make mp fun_eq_iff)
  ultimately show ?thesis
    using represents_unique [OF _ _ assms(6)] disjoint_special_flag [OF assms(1-5)] by (auto simp: mp in_board_def)
qed

end
