(* ===== verification/Play.thy ===== *)
theory Play
  imports BoardSpec
begin

text \<open>
  Games: the positions that accepted moves reach from the start, their invariant, what the
  generator offers there, and the draws by repetition and by the fifty-move rule.
\<close>

section \<open>The start position\<close>

text \<open>An executable test of disjointness, for concrete placements.\<close>

definition disjoint_check :: "boards \<Rightarrow> bool" where
  "disjoint_check pb \<longleftrightarrow>
     list_all (\<lambda>(a, b). a = b \<or> pb (fst a) (snd a) AND pb (fst b) (snd b) = 0)
       (List.product (List.product [0..<2] [0..<6]) (List.product [0..<2] [0..<6]))"

lemma disjoint_checkI: "disjoint_check pb \<Longrightarrow> disjoint_boards pb"
  unfolding disjoint_check_def disjoint_boards_def list_all_iff
proof (intro allI impI)
  fix s t s' t' sq
  assume c: "\<forall>x \<in> set (List.product (List.product [0..<2] [0..<6]) (List.product [0..<2] [0..<6])).
      case x of (a, b) \<Rightarrow> a = b \<or> pb (fst a) (snd a) AND pb (fst b) (snd b) = 0"
    and b: "s < (2::nat)" "t < (6::nat)" "s' < (2::nat)" "t' < (6::nat)" "bit (pb s t) sq" "bit (pb s' t') sq"
  have "(s, t) = (s', t') \<or> pb s t AND pb s' t' = 0"
    using bspec [OF c, of "((s, t), (s', t'))"] b by simp
  then show "s = s' \<and> t = t'"
    using b by (auto simp: word_eq_0_bits bit_and_iff)
qed

lemma start_boards:
  obtains p where "Pieces_of_fen start_placement = Some p" "wf_pieces p"
proof -
  have "map_option disjoint_check (fen_loop start_placement 0 7 (piece_bitboards zero_pieces)) = Some True"
    by code_simp
  then obtain pb where pb: "fen_loop start_placement 0 7 (piece_bitboards zero_pieces) = Some pb"
    "disjoint_check pb" by auto
  then have "wf_pieces (update_bitboards (zero_pieces\<lparr>piece_bitboards := pb\<rparr>))"
    by (simp add: wf_pieces_def disjoint_checkI)
  with that pb show ?thesis by (simp add: Pieces_of_fen_def)
qed

lemma initial_position_wf: "initial_position = Some pos \<Longrightarrow> wf_pieces (pieces_of pos)"
  using start_boards by (metis initial_position_def option.map(2) option.sel position_of_pieces_def position.select_convs(1))

section \<open>Games\<close>

text \<open>
  One accepted move: generated in the position and kept by \<open>apply_move\<close>. A reachable position
  is one that accepted moves lead to from the default constructor's.
\<close>

inductive move_step :: "position \<Rightarrow> move \<Rightarrow> position \<Rightarrow> bool" where
  "m \<in> set (generate_moves pos) \<Longrightarrow> apply_move pos m = (True, pos') \<Longrightarrow> move_step pos m pos'"

inductive_cases move_stepE: "move_step pos m pos'"

inductive reachable :: "position \<Rightarrow> bool" where
  start: "initial_position = Some pos \<Longrightarrow> reachable pos"
| step: "reachable pos \<Longrightarrow> move_step pos m pos' \<Longrightarrow> reachable pos'"

text \<open>
  The en-passant square after a double step of White is on the third rank and Black is to
  move; the generator looks for White there, and for Black on the sixth.
\<close>

definition ep_dead :: "position \<Rightarrow> bool" where
  "ep_dead pos \<longleftrightarrow> en_passant pos = 255 \<or>
     (side_to_move pos = White \<and> 40 \<le> en_passant pos \<and> en_passant pos < 48) \<or>
     (side_to_move pos = Black \<and> 16 \<le> en_passant pos \<and> en_passant pos < 24)"

lemma side_less [simp]: "side_to_move pos < 2"
  by (simp add: side_to_move_def)

lemma ep_dead_no_candidates: "ep_dead pos \<Longrightarrow> en_passant_candidates p (side_to_move pos) (en_passant pos) cr = []"
  by (auto simp: ep_dead_def en_passant_candidates_def piece_color_defs)

lemma candidate_flag_en_passant:
  assumes "m \<in> set (candidates p side ep cr)" "mv_flag m = EnPassantCapture"
  shows "m \<in> set (en_passant_candidates p side ep cr)"
proof -
  have pr: False if "m \<in> set (pawn_results p ep cr side f t dt ds)" for f t dt ds
    using that assms(2) default_flag(3) [symmetric] by (elim pawn_resultsE) (auto dest: promotion_flag_bounds split: if_splits)
  have pc: False if "m \<in> set (piece_candidates p side ep cr t targets)" for t targets
    using that assms(2) by (elim piece_candidatesE) auto
  have "m \<notin> set (castling_candidates p side ep cr)"
    using assms(2) by (auto simp: castling_candidates_def castle_candidate_def flag_defs)
  moreover have "m \<notin> set (long_candidates p side ep cr)"
    using assms(2) by (auto simp: long_candidates_def in_if_legal Let_def flag_defs)
  ultimately show ?thesis
    using assms(1) by (auto simp: candidates_def single_candidates_def capture_candidates_def dest: pr pc)
qed

lemma candidate_flag_long:
  assumes "m \<in> set (candidates p side ep cr)" "mv_flag m = PawnLongMove"
  shows "m \<in> set (long_candidates p side ep cr)"
proof -
  have nl: "\<not> promotion_flag PawnLongMove" "PawnLongMove \<noteq> Default" by (simp_all add: promotion_flag_def flag_defs)
  have pr: False if "m \<in> set (pawn_results p ep cr side f t dt ds)" for f t dt ds
    using that assms(2) nl by (elim pawn_resultsE) (auto split: if_splits)
  have pc: False if "m \<in> set (piece_candidates p side ep cr t targets)" for t targets
    using that assms(2) nl by (elim piece_candidatesE) auto
  have "m \<notin> set (castling_candidates p side ep cr)"
    using assms(2) by (auto simp: castling_candidates_def castle_candidate_def flag_defs)
  moreover have "m \<notin> set (en_passant_candidates p side ep cr)"
    using assms(2) by (auto simp: en_passant_candidates_def ep_candidate_def in_if_legal Let_def flag_defs split: if_splits)
  ultimately show ?thesis
    using assms(1) by (auto simp: candidates_def single_candidates_def capture_candidates_def dest: pr pc)
qed

lemma long_candidate_squares:
  assumes "side < 2" "m \<in> set (long_candidates p side ep cr)"
  shows "if side = White then mv_from m div 8 = 1 \<and> mv_to m = mv_from m + 16
    else mv_from m div 8 = 6 \<and> mv_from m = mv_to m + 16"
proof -
  from assms(2) obtain t where t: "bit (pawn_long_mask p side) t"
    and m: "m = Move (origin side t 16 16) t Pawn side 255 255 PawnLongMove"
    by (auto simp: long_candidates_def in_if_legal Let_def)
  show ?thesis using pawn_long_maskD [OF t assms(1)] by (auto simp: m split: if_splits)
qed

lemma generate_moves_candidates:
  "m \<in> set (generate_moves pos) \<Longrightarrow>
     m \<in> set (candidates (pieces_of pos) (side_to_move pos) (en_passant pos) (rights pos))"
  by (simp add: generate_moves_def generated_in_candidates)

definition game_inv :: "position \<Rightarrow> bool" where
  "game_inv pos \<longleftrightarrow> wf_pieces (pieces_of pos) \<and> ep_dead pos"

lemma game_inv_moves:
  assumes "game_inv pos" "m \<in> set (generate_moves pos)"
  shows "sound_move (pieces_of pos) (side_to_move pos) m" "mv_flag m \<noteq> EnPassantCapture"
    "castling_clear (pieces_of pos) m" "attacker_side m = side_to_move pos"
proof -
  note c = generate_moves_candidates [OF assms(2)]
  have wf: "wf_pieces (pieces_of pos)" and ep: "ep_dead pos" using assms(1) by (auto simp: game_inv_def)
  show s: "sound_move (pieces_of pos) (side_to_move pos) m" by (rule sound_candidates [OF wf side_less c])
  then show "attacker_side m = side_to_move pos" by (simp add: sound_move_def)
  show "castling_clear (pieces_of pos) m" by (rule candidate_castling_clear [OF wf side_less c])
  show "mv_flag m \<noteq> EnPassantCapture"
    using candidate_flag_en_passant [OF c] ep_dead_no_candidates [OF ep] by auto
qed

lemma side_make: "move_ctr pos < 2 ^ 24 \<Longrightarrow> side_to_move (play_move m pos) = inverse_side (side_to_move pos)"
  by (auto simp: side_to_move_def make_fields add_half_def piece_color_defs mod_Suc)

lemma ep_dead_make:
  assumes "game_inv pos" "m \<in> set (generate_moves pos)" "move_ctr pos < 2 ^ 24"
  shows "ep_dead (play_move m pos)"
proof (cases "mv_flag m = PawnLongMove")
  case True
  then have "m \<in> set (long_candidates (pieces_of pos) (side_to_move pos) (en_passant pos) (rights pos))"
    using candidate_flag_long generate_moves_candidates [OF assms(2)] by blast
  from long_candidate_squares [OF side_less this]
  have sq: "if side_to_move pos = White then mv_from m div 8 = 1 \<and> mv_to m = mv_from m + 16
    else mv_from m div 8 = 6 \<and> mv_from m = mv_to m + 16" .
  have ep: "en_passant (play_move m pos) = (mv_from m + mv_to m) div 2" using True by (simp add: make_fields)
  consider (w) "side_to_move pos = White" | (b) "side_to_move pos = Black"
    by (cases "move_ctr pos mod 2 = 0") (simp_all add: side_to_move_def)
  then show ?thesis
  proof cases
    case w
    then have "en_passant (play_move m pos) = mv_from m + 8" "8 \<le> mv_from m" "mv_from m < 16"
      using sq ep by auto
    then show ?thesis using w by (simp add: ep_dead_def side_make [OF assms(3)])
  next
    case b
    then have "en_passant (play_move m pos) = mv_to m + 8" "32 \<le> mv_to m" "mv_to m < 40"
      using sq ep by (auto simp: piece_color_defs)
    then show ?thesis using b by (simp add: ep_dead_def side_make [OF assms(3)])
  qed
qed (simp add: ep_dead_def make_fields)

lemma game_inv_step:
  assumes "game_inv pos" "move_step pos m pos'" "move_ctr pos < 2 ^ 24"
  shows "game_inv pos'"
proof -
  from assms(2) have m: "m \<in> set (generate_moves pos)" and pos': "pos' = play_move m pos"
    by (auto elim!: move_stepE simp: apply_move_cases split: if_splits)
  have wf: "wf_pieces (pieces_of pos)" using assms(1) by (simp add: game_inv_def)
  note g = game_inv_moves [OF assms(1) m]
  show ?thesis
    unfolding game_inv_def pos'
    using wf_make [OF wf side_less g(1,2,3)] ep_dead_make [OF assms(1) m assms(3)] by simp
qed

lemma move_step_ctr: "move_step pos m pos' \<Longrightarrow> move_ctr pos' = add_half (move_ctr pos)"
  by (auto elim!: move_stepE simp: apply_move_cases make_fields split: if_splits)

lemma reachable_game_inv: "reachable pos \<Longrightarrow> move_ctr pos < 2 ^ 24 \<Longrightarrow> game_inv pos"
proof (induction rule: reachable.induct)
  case (start pos)
  then show ?case
    using initial_position_wf [OF start(1)]
    by (auto simp: game_inv_def ep_dead_def initial_position_def position_of_pieces_def Let_def)
next
  case (step pos m pos')
  then have "move_ctr pos < 2 ^ 24" using move_step_ctr by (auto simp: add_half_def split: if_splits)
  then show ?case using step game_inv_step by blast
qed

section \<open>Generated moves are accepted\<close>

text \<open>
  Attacks depend only on the pawns, knights and king of the attacking side.
\<close>

lemma attacked_cong:
  assumes "wf_pieces p" "wf_pieces q" "by_side < 2"
    and "piece_bitboards p by_side = piece_bitboards q by_side"
  shows "is_square_attacked p sq by_side = is_square_attacked q sq by_side"
proof -
  have b: "by_side = White \<or> by_side = Black" using assms(3) by (auto simp: piece_color_defs)
  have "is_square_attacked_by_pawns p sq by_side = is_square_attacked_by_pawns q sq by_side"
    using b assms(4) by (elim disjE)
      (simp_all only: is_square_attacked_by_pawns_def piece_color_defs refl if_True if_False zero_neq_one one_neq_zero)
  then show ?thesis
    by (simp only: is_square_attacked_eq [OF assms(1,3)] is_square_attacked_eq [OF assms(2,3)]
      is_square_attacked_by_knights_def is_square_attacked_by_king_def assms(4))
qed

text \<open>While a side may castle its king has not moved: it is at home, or captured.\<close>

definition home_king :: "position \<Rightarrow> bool" where
  "home_king pos \<longleftrightarrow>
     (w_l_castling (rights pos) \<or> w_s_castling (rights pos) \<longrightarrow>
        bits_of (piece_bitboards (pieces_of pos) White King) \<subseteq> {4}) \<and>
     (b_l_castling (rights pos) \<or> b_s_castling (rights pos) \<longrightarrow>
        bits_of (piece_bitboards (pieces_of pos) Black King) \<subseteq> {60})"

text \<open>The boards after a move: the mover's and the opponent's.\<close>

lemma boards_special_flag_opponent:
  assumes "mv_flag m \<noteq> EnPassantCapture" "attacker_side m = side" "side < 2"
    and "castling_flag (mv_flag m) \<Longrightarrow>
      side = (if mv_flag m = WhiteLongCastling \<or> mv_flag m = WhiteShortCastling then White else Black)"
  shows "piece_bitboards (pieces_of (special_flag m pos)) (inverse_side side) =
    piece_bitboards (pieces_of pos) (inverse_side side)"
    and "piece_bitboards (pieces_of (special_flag m pos)) side King = piece_bitboards (pieces_of pos) side King"
proof -
  note b = boards_add_piece boards_remove_piece upd_board_def
  have n: "inverse_side side \<noteq> side" "inverse_side White = Black" "inverse_side Black = White"
    using assms(3) inverse_side_neq by (simp_all add: inverse_side_def piece_color_defs)
  have "King \<noteq> Rook" "King \<noteq> Pawn" "King \<noteq> Knight" "King \<noteq> Bishop" "King \<noteq> Queen" "White \<noteq> Black"
    by (simp_all add: piece_type_defs piece_color_defs)
  with n assms show "piece_bitboards (pieces_of (special_flag m pos)) (inverse_side side) =
    piece_bitboards (pieces_of pos) (inverse_side side)"
    "piece_bitboards (pieces_of (special_flag m pos)) side King = piece_bitboards (pieces_of pos) side King"
    by (auto simp: special_flag_def b castling_flag_def flag_defs)
qed

lemma castling_flag_side:
  assumes "m \<in> set (candidates p side ep cr)" "castling_flag (mv_flag m)" "side < 2"
  shows "side = (if mv_flag m = WhiteLongCastling \<or> mv_flag m = WhiteShortCastling then White else Black)"
    and "attacker_type m = King" and "defender_type m = 255"
    and "mv_from m = (if side = White then 4 else 60)"
    and "if side = White then w_l_castling cr \<or> w_s_castling cr else b_l_castling cr \<or> b_s_castling cr"
    and "is_legal_move p m ep cr"
  using candidate_flag_castling [OF assms(1,2)] assms(3)
  by (auto simp: castling_candidates_def castle_candidate_def flag_defs less_2_cases_iff
      piece_color_defs split: if_splits)

lemma legal_after_flag: "is_legal_after_move p (m\<lparr>mv_flag := fl\<rparr>) b = is_legal_after_move p m b"
  by (simp add: is_legal_after_move_def make_move_def Let_def)

lemma candidate_legal:
  assumes "m \<in> set (candidates p side ep cr)" "\<not> castling_flag (mv_flag m)" "mv_flag m \<noteq> EnPassantCapture"
  shows "is_legal_after_move p m False"
proof -
  have legal: "is_legal_after_move p (Move f t at s dt ds fl) False"
    if "is_legal_move p (Move f t at s dt ds fl') ep cr" "\<not> castling_flag fl'" "fl' \<noteq> EnPassantCapture" for f t at s dt ds fl fl'
    using that legal_after_flag [where m = "Move f t at s dt ds fl'" and fl = fl and b = False and p = p]
    by (auto simp: is_legal_move_def castling_flag_def Move_def split: if_splits)
  have pr: ?thesis if "m \<in> set (pawn_results p ep cr side f t dt ds)" for f t dt ds
    using that by (auto simp: pawn_results_def in_if_legal promotions_def Let_def intro!: legal split: if_splits)
  have pc: ?thesis if "m \<in> set (piece_candidates p side ep cr t targets)" for t targets
    using that legal by (elim piece_candidatesE) auto
  have lg: ?thesis if "m \<in> set (long_candidates p side ep cr)"
    using that by (auto simp: long_candidates_def in_if_legal Let_def castling_flag_def flag_defs intro!: legal [of _ _ _ _ _ _ PawnLongMove])
  have "m \<notin> set (castling_candidates p side ep cr)"
    using assms(2) by (auto simp: castling_candidates_def castle_candidate_def castling_flag_def flag_defs)
  moreover have "m \<notin> set (en_passant_candidates p side ep cr)"
    using assms(3) by (auto simp: en_passant_candidates_def ep_candidate_def in_if_legal Let_def split: if_splits)
  ultimately show ?thesis
    using assms(1) by (auto simp: candidates_def single_candidates_def capture_candidates_def dest: pr pc lg)
qed

text \<open>The trial of the legality test moves the pieces as \<open>apply_move\<close> does before the flags.\<close>

lemma make_move_boards:
  fixes m :: move and pos :: position
  defines "p2 \<equiv> add_piece (mv_to m) (attacker_type m) (attacker_side m)
      (remove_piece (mv_from m) (attacker_type m) (attacker_side m) pos)"
  shows "piece_bitboards (pieces_of (if defender_type m \<noteq> 255
      then remove_piece (mv_to m) (defender_type m) (defender_side m) p2 else p2)) =
    make_move (piece_bitboards (pieces_of pos)) m False"
  by (simp add: make_move_def p2_def boards_add_piece boards_remove_piece Let_def)

lemma move_pieces_boards:
  assumes "mv_flag m \<noteq> EnPassantCapture" "attacker_side m = side" "side < 2"
    and "castling_flag (mv_flag m) \<Longrightarrow>
      side = (if mv_flag m = WhiteLongCastling \<or> mv_flag m = WhiteShortCastling then White else Black)"
  shows "piece_bitboards (pieces_of (move_pieces m pos)) (inverse_side side) =
      make_move (piece_bitboards (pieces_of pos)) m False (inverse_side side)"
    and "piece_bitboards (pieces_of (move_pieces m pos)) side King =
      make_move (piece_bitboards (pieces_of pos)) m False side King"
  unfolding move_pieces_def Let_def
  by (simp_all only: boards_special_flag_opponent [OF assms] make_move_boards)

lemma not_check_normal:
  assumes "game_inv pos" "m \<in> set (generate_moves pos)" "\<not> castling_flag (mv_flag m)"
  shows "\<not> is_check (pieces_of (play_move m pos)) (attacker_side m)"
proof -
  let ?p = "pieces_of pos" and ?q = "pieces_of (play_move m pos)" and ?side = "attacker_side m"
  let ?pm = "make_move (piece_bitboards ?p) m False"
  let ?t = "update_bitboards (?p\<lparr>piece_bitboards := ?pm\<rparr>)"
  note g = game_inv_moves [OF assms(1,2)]
  have wf: "wf_pieces ?p" using assms(1) by (simp add: game_inv_def)
  have side: "?side < 2" using g(4) by simp
  have "is_legal_after_move ?p m False"
    by (rule candidate_legal [OF generate_moves_candidates [OF assms(2)] assms(3) g(2)])
  then have legal: "\<not> is_square_attacked ?t (bsf (?pm ?side King)) (inverse_side ?side)"
    by (simp add: is_legal_after_move_def Let_def)
  have wft: "wf_pieces ?t"
    using disjoint_moved [OF wf side_less g(1) g(2) refl] by (simp add: wf_pieces_def make_move_boards)
  have wfq: "wf_pieces ?q" by (rule wf_make [OF wf side_less g(1,2,3)])
  have "piece_bitboards ?q (inverse_side ?side) = piece_bitboards ?t (inverse_side ?side)"
    and king: "piece_bitboards ?q ?side King = ?pm ?side King"
    using move_pieces_boards [OF g(2) refl side, of pos] assms(3) by (simp_all add: pieces_of_make)
  from attacked_cong [OF wfq wft inverse_side_less [OF side] this(1)] legal
  show ?thesis by (simp add: is_check_def king Let_def)
qed

lemma bsf_single: "bits_of bb = {n} \<Longrightarrow> bsf bb = n"
  using bsf_in [of bb] bits_of_empty_iff [of bb] unfolding bits_of_def by (metis insert_not_empty mem_Collect_eq singletonD)

lemma not_check_castling:
  assumes "game_inv pos" "home_king pos" "m \<in> set (generate_moves pos)" "castling_flag (mv_flag m)"
  shows "\<not> is_check (pieces_of (play_move m pos)) (attacker_side m)"
proof -
  let ?p = "pieces_of pos" and ?q = "pieces_of (play_move m pos)" and ?side = "attacker_side m"
  note g = game_inv_moves [OF assms(1,3)]
  note c = castling_flag_side [OF generate_moves_candidates [OF assms(3)] assms(4) side_less, folded g(4)]
  have wf: "wf_pieces ?p" using assms(1) by (simp add: game_inv_def)
  have side: "?side < 2" using g(4) by simp
  have inv: "inverse_side ?side \<noteq> ?side" by (rule inverse_side_neq [OF side])
  have home: "bits_of (piece_bitboards ?p ?side King) \<subseteq> {mv_from m}"
    using assms(2) c(4,5) side by (auto simp: home_king_def less_2_cases_iff piece_color_defs split: if_splits)
  have wfq: "wf_pieces ?q" by (rule wf_make [OF wf side_less g(1,2,3)])
  have b: "piece_bitboards ?q (inverse_side ?side) = piece_bitboards ?p (inverse_side ?side)"
    "piece_bitboards ?q ?side King = set_1 (set_0 (piece_bitboards ?p ?side King) (mv_from m)) (mv_to m)"
    using move_pieces_boards [OF g(2) refl side c(1), of pos] inv
    by (simp_all add: pieces_of_make make_move_def c(2,3) Let_def upd_board_def)
  have to: "mv_to m < 64" using g(1) by (simp add: sound_move_def)
  have "bits_of (piece_bitboards ?q ?side King) = {mv_to m}"
    unfolding b(2) using home to by (auto simp: bits_of_def bit_set_1 bit_set_0)
  then have king: "bsf (piece_bitboards ?q ?side King) = mv_to m" by (rule bsf_single)
  have "\<not> is_square_attacked ?p (mv_to m) (inverse_side ?side)"
    using c(6) candidate_flag_castling [OF generate_moves_candidates [OF assms(3)] assms(4)] side
    by (auto simp: castling_candidates_def castle_candidate_def is_legal_move_def flag_defs
        less_2_cases_iff piece_color_defs split: if_splits)
  then show ?thesis
    using attacked_cong [OF wfq wf inverse_side_less [OF side] b(1)] king by (simp add: is_check_def Let_def)
qed

lemma generated_accepted:
  assumes "game_inv pos" "home_king pos" "m \<in> set (generate_moves pos)"
  shows "apply_move pos m = (True, play_move m pos)"
  using not_check_normal [OF assms(1,3)] not_check_castling [OF assms] by (auto simp: apply_move_cases)

lemma home_king_make:
  assumes "game_inv pos" "home_king pos" "m \<in> set (generate_moves pos)"
  shows "home_king (play_move m pos)"
proof -
  let ?p = "pieces_of pos" and ?q = "pieces_of (play_move m pos)" and ?s = "attacker_side m"
  let ?k = "\<lambda>p s. bits_of (piece_bitboards p s King)"
  note g = game_inv_moves [OF assms(1,3)]
  have side: "?s < 2" using g(4) by simp
  have inv: "inverse_side ?s \<noteq> ?s" by (rule inverse_side_neq [OF side])
  have ca: "castling_flag (mv_flag m) \<Longrightarrow>
      ?s = (if mv_flag m = WhiteLongCastling \<or> mv_flag m = WhiteShortCastling then White else Black)"
    using castling_flag_side(1) [OF generate_moves_candidates [OF assms(3)] _ side_less] g(4) by simp
  note b = move_pieces_boards [OF g(2) refl side ca, of pos]
  have opp: "?k ?q (inverse_side ?s) \<subseteq> ?k ?p (inverse_side ?s)"
    using inv by (auto simp: pieces_of_make b make_move_def Let_def bits_of_def bit_set_0 upd_board_def split: if_splits)
  have dside: "defender_type m \<noteq> 255 \<Longrightarrow> defender_side m \<noteq> ?s"
    using g(1,4) inv by (auto simp: sound_move_def)
  have own: "attacker_type m \<noteq> King \<Longrightarrow> ?k ?q ?s = ?k ?p ?s"
    using dside by (auto simp: pieces_of_make b make_move_def Let_def upd_board_def)
  have moved: "attacker_type m = King \<Longrightarrow> mv_from m \<in> ?k ?p ?s \<or> castling_flag (mv_flag m)"
    using g(1,4) by (auto simp: sound_move_def bits_of_def)
  have castle: "castling_flag (mv_flag m) \<Longrightarrow> mv_from m = (if ?s = White then 4 else 60)"
    using castling_flag_side(4) [OF generate_moves_candidates [OF assms(3)] _ side_less] g(4) by simp
  have w: "?s = White \<or> ?s = Black" using side by (auto simp: piece_color_defs)
  show ?thesis
  proof (cases "attacker_type m = King")
    case True
    then show ?thesis
      using w opp moved castle assms(2) unfolding home_king_def make_fields castling.simps
      by (elim disjE) (auto simp: piece_color_defs)
  next
    case False
    then show ?thesis
      using w opp own assms(2) unfolding home_king_def make_fields castling.simps
      by (elim disjE) (auto simp: piece_color_defs)
  qed
qed

text \<open>The history holds the hashes since the last irreversible move, the current one last.\<close>

definition history_inv :: "position \<Rightarrow> bool" where
  "history_inv pos \<longleftrightarrow> length (history pos) = fifty_moves_ctr pos + 1 \<and> last (history pos) = hash pos \<and>
     fifty_moves_ctr pos \<le> move_ctr pos"

lemma history_inv_make: "history_inv pos \<Longrightarrow> move_ctr pos < 2 ^ 24 \<Longrightarrow> history_inv (play_move m pos)"
  by (auto simp: history_inv_def make_fields add_half_def)

definition play_inv :: "position \<Rightarrow> bool" where
  "play_inv pos \<longleftrightarrow> game_inv pos \<and> home_king pos \<and> history_inv pos"

lemma start_kings:
  "initial_position = Some pos \<Longrightarrow> home_king pos"
proof -
  assume i: "initial_position = Some pos"
  have "map_option (\<lambda>pb. (pb White King, pb Black King)) (fen_loop start_placement 0 7 (piece_bitboards zero_pieces))
      = Some (set_1 0 4, set_1 0 60)" by code_simp
  then have "piece_bitboards (pieces_of pos) White King = set_1 0 4"
    "piece_bitboards (pieces_of pos) Black King = set_1 0 60"
    using i by (auto simp: initial_position_def position_of_pieces_def Pieces_of_fen_def Let_def)
  then show ?thesis by (auto simp: home_king_def bits_of_def bit_set_1)
qed

lemma reachable_play_inv: "reachable pos \<Longrightarrow> move_ctr pos < 2 ^ 24 \<Longrightarrow> play_inv pos"
proof (induction rule: reachable.induct)
  case (start pos)
  have "history_inv pos"
    using start(1) by (auto simp: history_inv_def initial_position_def position_of_pieces_def Let_def)
  then show ?case
    using start reachable_game_inv [OF reachable.start [OF start(1)] start(2)] start_kings by (simp add: play_inv_def)
next
  case (step pos m pos')
  have c: "move_ctr pos < 2 ^ 24" using step move_step_ctr by (auto simp: add_half_def split: if_splits)
  then have i: "play_inv pos" using step by blast
  have m: "m \<in> set (generate_moves pos)" and p: "pos' = play_move m pos"
    using step(2) by (auto elim!: move_stepE simp: apply_move_cases split: if_splits)
  show ?case
    using i home_king_make [OF _ _ m] history_inv_make [OF _ c] game_inv_step [OF _ step(2) c]
    by (simp add: play_inv_def p)
qed

section \<open>Draws\<close>

lemma repetition_loop_count:
  "c < 3 \<Longrightarrow> repetition_loop h c hs \<longleftrightarrow> c + int (count_list hs h) \<ge> 3"
proof (induction hs arbitrary: c)
  case (Cons x hs)
  then show ?case by (cases "x = h") (auto simp: Let_def)
qed simp

lemma threefold_count:
  "is_threefold_repetition pos \<longleftrightarrow> history pos \<noteq> [] \<and> count_list (history pos) (last (history pos)) \<ge> 3"
  by (simp add: is_threefold_repetition_def repetition_loop_count)

lemma count_list_length: "count_list xs x \<le> length xs"
  by (induction xs) auto

lemma threefold_needs_two_halves:
  "history_inv pos \<Longrightarrow> is_threefold_repetition pos \<Longrightarrow> 2 \<le> fifty_moves_ctr pos"
  using count_list_length [of "history pos" "last (history pos)"]
  by (simp add: threefold_count history_inv_def)

section \<open>What the hash drifts by\<close>

text \<open>The hash that the constructor would compute for the pieces, the side and the rights.\<close>

definition fresh_hash :: "position \<Rightarrow> u64" where
  "fresh_hash pos = ZobristHash (pieces_of pos) (side_to_move pos = Black)
     (w_l_castling (rights pos)) (w_s_castling (rights pos)) (b_l_castling (rights pos)) (b_s_castling (rights pos))"

definition hash_drift :: "position \<Rightarrow> u64" where
  "hash_drift pos = hash pos XOR fresh_hash pos"

definition rights_key :: "castling \<Rightarrow> u64" where
  "rights_key cr = flags_hash False (w_l_castling cr) (w_s_castling cr) (b_l_castling cr) (b_s_castling cr)"

lemma fresh_hash_eq:
  "wf_pieces (pieces_of pos) \<Longrightarrow> fresh_hash pos =
     boards_hash (piece_bitboards (pieces_of pos)) XOR (if side_to_move pos = Black then BlackMove else 0) XOR rights_key (rights pos)"
  unfolding fresh_hash_def rights_key_def by (simp add: ZobristHash_eq flags_hash_def ac_simps)

lemma drift_excess:
  "wf_pieces (pieces_of pos) \<Longrightarrow> hash_drift pos =
     hash_excess pos XOR (if side_to_move pos = Black then BlackMove else 0) XOR rights_key (rights pos)"
  by (simp add: hash_drift_def fresh_hash_eq hash_excess_def ac_simps)

lemma hash_drift_make:
  assumes "game_inv pos" "m \<in> set (generate_moves pos)" "move_ctr pos < 2 ^ 24"
  shows "hash_drift (play_move m pos) = hash_drift pos XOR ep_toggle m (en_passant pos) XOR
    (castling_toggles (mv_from m) XOR rights_key (rights pos) XOR rights_key (rights (play_move m pos)))"
proof -
  note g = game_inv_moves [OF assms(1,2)]
  have wf: "wf_pieces (pieces_of pos)" using assms(1) by (simp add: game_inv_def)
  have wfq: "wf_pieces (pieces_of (play_move m pos))" by (rule wf_make [OF wf side_less g(1,2,3)])
  have r: "in_range m" by (rule sound_in_range [OF g(1) side_less g(2)])
  let ?k = "\<lambda>s. if s = Black then BlackMove else 0"
  have side: "?k (side_to_move (play_move m pos)) = ?k (side_to_move pos) XOR BlackMove"
    using side_make [OF assms(3), of m] side_less [of pos] by (auto simp: less_2_cases_iff piece_color_defs)
  show ?thesis
    unfolding drift_excess [OF wf] drift_excess [OF wfq] hash_excess_make [OF r] side by (simp add: ac_simps)
qed

end
