(* ===== verification/Fen.thy ===== *)
theory Fen
  imports Play
begin

text \<open>
  FEN text (\<^verbatim>\<open>Position::get_fen\<close> in \<^verbatim>\<open>chess_engine/position.cpp\<close> and
  \<^verbatim>\<open>chess_engine/fen.cpp\<close>). The round trip: reading back the placement field that
  \<open>get_fen\<close> writes gives the same piece boards. The other fields are written and never read.
\<close>

section \<open>Writing\<close>

definition flush_empty :: "nat \<Rightarrow> string" where
  "flush_empty e = (if e > 0 then to_string e else [])"

text \<open>The two \<^verbatim>\<open>switch\<close>es over the piece type, with their default.\<close>

definition piece_char :: "nat \<Rightarrow> nat \<Rightarrow> char" where
  "piece_char color type = (if type < 6 then to_char type (if color = White then White else Black) else CHR ''?'')"

fun fen_row :: "pieces \<Rightarrow> nat \<Rightarrow> nat list \<Rightarrow> nat \<Rightarrow> string" where
  "fen_row p y [] e = flush_empty e"
| "fen_row p y (x # xs) e =
     (let square = y * 8 + x; color = color_at p square; type = piece_at p square
      in if color = 255 then fen_row p y xs (e + 1)
         else flush_empty e @ [piece_char color type] @ fen_row p y xs 0)"

definition fen_placement :: "pieces \<Rightarrow> string" where
  "fen_placement p =
     concat (map (\<lambda>y. fen_row p y [0..<8] 0 @ (if y > 0 then ''/'' else [])) (rev [0..<8]))"

definition fen_rights :: "castling \<Rightarrow> string" where
  "fen_rights cr =
     (if \<not> w_l_castling cr \<and> \<not> w_s_castling cr \<and> \<not> b_l_castling cr \<and> \<not> b_s_castling cr then ''-''
      else (if w_s_castling cr then ''K'' else []) @ (if w_l_castling cr then ''Q'' else []) @
           (if b_s_castling cr then ''k'' else []) @ (if b_l_castling cr then ''q'' else []))"

definition fen_square :: "nat \<Rightarrow> string" where
  "fen_square ep = (if ep = 255 then ''-'' else [char_of (97 + ep mod 8), char_of (49 + ep div 8)])"

text \<open>The casts of the clocks to \<^verbatim>\<open>int\<close> drop the half.\<close>

definition get_fen :: "position \<Rightarrow> string" where
  "get_fen pos =
     fen_placement (pieces_of pos) @ '' '' @ (if side_to_move pos = White then ''w'' else ''b'') @
     '' '' @ fen_rights (rights pos) @ '' '' @ fen_square (en_passant pos) @
     '' '' @ to_string (fifty_moves_ctr pos div 2) @ '' '' @ to_string (move_ctr pos div 2 + 1)"

section \<open>Reading\<close>

text \<open>
  \<open>FEN::parse\<close> takes the first blank-separated field: leading white space is skipped, reading
  stops at the next.
\<close>

definition isspace :: "char \<Rightarrow> bool" where
  "isspace ch \<longleftrightarrow> byte ch = 32 \<or> (9 \<le> byte ch \<and> byte ch \<le> 13)"

definition FEN_parse :: "string \<Rightarrow> position option" where
  "FEN_parse fen = Position_of_fen (takeWhile (\<lambda>c. \<not> isspace c) (dropWhile isspace fen))"

definition FEN_to_string :: "position \<Rightarrow> string" where
  "FEN_to_string pos = get_fen pos"

definition FEN_is_valid :: "string \<Rightarrow> bool" where
  "FEN_is_valid fen = (if fen = [] then False else list_ex isalpha fen)"

section \<open>The round trip\<close>

definition put_piece :: "pieces \<Rightarrow> nat \<Rightarrow> boards \<Rightarrow> boards" where
  "put_piece p sq pb = (case board p sq of None \<Rightarrow> pb | Some (s, t) \<Rightarrow> upd_board pb s t (set_1 (pb s t) sq))"

lemma digit_facts:
  assumes "n < 10"
  shows "isdigit (char_of (48 + n))" "digit_value (char_of (48 + n)) = n" "char_of (48 + n) \<noteq> CHR ''/''"
proof -
  show "isdigit (char_of (48 + n))" "digit_value (char_of (48 + n)) = n"
    using assms by (simp_all add: isdigit_def digit_value_def digit_char)
  have "byte (char_of (48 + n) :: char) \<noteq> byte (CHR ''/'')" using digit_char [OF assms] by simp
  then show "char_of (48 + n) \<noteq> CHR ''/''" by (rule contrapos_nn) (simp only:)
qed

lemma piece_char_facts:
  assumes "s < 2" "t < 6"
  shows "piece_char s t \<noteq> CHR ''/''" "\<not> isdigit (piece_char s t)"
    "(if isupper (piece_char s t) then White else Black) = s"
    "piece_of_letter (tolower (piece_char s t)) = Some t"
proof -
  have "list_all (\<lambda>s. list_all (\<lambda>t. piece_char s t \<noteq> CHR ''/'' \<and> \<not> isdigit (piece_char s t) \<and>
      (if isupper (piece_char s t) then White else Black) = s \<and>
      piece_of_letter (tolower (piece_char s t)) = Some t) [0..<6]) [0..<2]"
    by code_simp
  then show "piece_char s t \<noteq> CHR ''/''" "\<not> isdigit (piece_char s t)"
    "(if isupper (piece_char s t) then White else Black) = s"
    "piece_of_letter (tolower (piece_char s t)) = Some t"
    using assms by (simp_all add: list_all_iff)
qed

text \<open>Reading the digit of a run of empty squares moves on by its length.\<close>

lemma fen_loop_flush: "e \<le> 8 \<Longrightarrow> e \<le> x \<Longrightarrow> x \<le> 8 \<Longrightarrow> fen_loop (flush_empty e @ rest) (x - e) y pb = fen_loop rest x y pb"
  using digit_facts [of e] by (auto simp: flush_empty_def to_string_digit)

lemma fen_loop_row:
  assumes "wf_pieces p" "y < 8"
  shows "x \<le> 8 \<Longrightarrow> e \<le> x \<Longrightarrow> fen_loop (fen_row p y [x..<8] e @ rest) (x - e) y pb =
    fen_loop rest 8 y (fold (put_piece p) (map (\<lambda>x. y * 8 + x) [x..<8]) pb)"
proof (induction "8 - x" arbitrary: x e pb)
  case 0
  then show ?case using fen_loop_flush [of e 8] by simp
next
  case (Suc k)
  then have x: "x < 8" by simp
  then have upt: "[x..<8] = x # [Suc x..<8]" by (rule upt_conv_Cons)
  let ?sq = "y * 8 + x"
  have sq: "?sq < 64" using x assms(2) by linarith
  show ?case
  proof (cases "board p ?sq")
    case None
    then have "color_at p ?sq = 255" using assms(1) by (simp add: color_at_board)
    then show ?thesis
      using Suc.hyps(1) [of "Suc x" "e + 1" pb] Suc.hyps(2) Suc.prems x
      by (simp add: upt put_piece_def None Let_def)
  next
    case (Some st)
    obtain s t where st: "st = (s, t)" by (cases st)
    with Some board_SomeD have b: "s < 2" "t < 6" by auto
    note f = piece_char_facts [OF b]
    have "fen_loop (fen_row p y [x..<8] e @ rest) (x - e) y pb =
        fen_loop (piece_char s t # fen_row p y [Suc x..<8] 0 @ rest) x y pb"
      using assms(1) b Suc.prems x
      by (simp add: upt Let_def color_at_board piece_at_board Some st fen_loop_flush)
    also have "\<dots> = fen_loop (fen_row p y [Suc x..<8] 0 @ rest) (Suc x) y (put_piece p ?sq pb)"
      using f sq x by (simp add: Let_def put_piece_def Some st)
    also have "\<dots> = fen_loop rest 8 y (fold (put_piece p) (map (\<lambda>x. y * 8 + x) [Suc x..<8]) (put_piece p ?sq pb))"
      using Suc.hyps(1) [of "Suc x" 0] Suc.hyps(2) x by simp
    finally show ?thesis by (simp add: upt)
  qed
qed

lemma fen_loop_rows:
  assumes "wf_pieces p" "n \<le> 8" "n > 0"
  shows "fen_loop (concat (map (\<lambda>y. fen_row p y [0..<8] 0 @ (if y > 0 then ''/'' else [])) (rev [0..<n]))) 0 (n - 1) pb =
    Some (fold (\<lambda>y. fold (put_piece p) (map (\<lambda>x. y * 8 + x) [0..<8])) (rev [0..<n]) pb)"
  using assms(2,3)
proof (induction n arbitrary: pb)
  case (Suc n)
  note row = fen_loop_row [OF assms(1), of n 0 0, simplified]
  show ?case
  proof (cases "n = 0")
    case True
    then show ?thesis using row [of "[]"] Suc.prems by simp
  next
    case False
    have "fen_loop (fen_row p n [0..<8] 0 @ ''/'' @ rest) 0 n pb =
        fen_loop rest 0 (n - 1) (fold (put_piece p) (map (\<lambda>x. n * 8 + x) [0..<8]) pb)" for rest
      using row [of "''/'' @ rest"] Suc.prems False by simp
    then show ?thesis using Suc.IH Suc.prems False by simp
  qed
qed simp

lemma bit_put_piece:
  "s < 2 \<Longrightarrow> t < 6 \<Longrightarrow> sq < 64 \<Longrightarrow> bit (put_piece p sq pb s t) n \<longleftrightarrow> bit (pb s t) n \<or> (n = sq \<and> board p n = Some (s, t))"
  by (auto simp: put_piece_def bit_set_1 split: option.splits)

lemma bit_put_pieces:
  "s < 2 \<Longrightarrow> t < 6 \<Longrightarrow> \<forall>sq \<in> set sqs. sq < 64 \<Longrightarrow>
     bit (fold (put_piece p) sqs pb s t) n \<longleftrightarrow> bit (pb s t) n \<or> (n \<in> set sqs \<and> board p n = Some (s, t))"
  by (induction sqs arbitrary: pb) (auto simp: bit_put_piece)

lemma fold_concat: "fold (\<lambda>y. fold f (g y)) ys s = fold f (concat (map g ys)) s"
  by (induction ys arbitrary: s) simp_all

lemma placement_boards:
  assumes "wf_pieces p"
  obtains pb where "fen_loop (fen_placement p) 0 7 (piece_bitboards zero_pieces) = Some pb"
    "\<And>s t. s < 2 \<Longrightarrow> t < 6 \<Longrightarrow> pb s t = piece_bitboards p s t"
proof -
  define sqs :: "nat list" where "sqs = concat (map (\<lambda>y. map (\<lambda>x. y * 8 + x) [0..<8]) (rev [0..<8]))"
  let ?pb = "fold (put_piece p) sqs (piece_bitboards zero_pieces)"
  have sqs: "set sqs = {..<64}"
  proof -
    have "n \<in> set sqs" if "n < 64" for n
      using that unfolding sqs_def by (auto intro!: bexI [of _ "n div 8"])
    moreover have "n < 64" if "n \<in> set sqs" for n using that unfolding sqs_def by auto
    ultimately show ?thesis by blast
  qed
  have "?pb s t = piece_bitboards p s t" if st: "s < 2" "t < 6" for s t
  proof (rule bit_word_eqI)
    fix n assume n: "n < LENGTH(64)"
    have "bit (?pb s t) n \<longleftrightarrow> n \<in> set sqs \<and> board p n = Some (s, t)"
      using bit_put_pieces [OF st, of sqs p "piece_bitboards zero_pieces" n] sqs by (simp add: zero_pieces_def)
    also have "\<dots> \<longleftrightarrow> bit (piece_bitboards p s t) n"
      using n sqs st assms board_SomeI [of p s t n] board_SomeD [of p n s t] by (auto simp: wf_pieces_def)
    finally show "bit (?pb s t) n = bit (piece_bitboards p s t) n" .
  qed
  moreover have "fen_loop (fen_placement p) 0 7 (piece_bitboards zero_pieces) = Some ?pb"
    using fen_loop_rows [OF assms, of 8] unfolding fen_placement_def fold_concat sqs_def [symmetric] by simp
  ultimately show ?thesis using that by blast
qed

text \<open>Nothing in the placement field is white space.\<close>

lemma to_string_digits: "ch \<in> set (to_string n) \<Longrightarrow> isdigit ch"
proof (induction n rule: to_string.induct)
  case (1 n)
  show ?case
  proof (cases "n < 10")
    case True
    then show ?thesis using "1.prems" digit_facts(1) by (simp add: to_string_digit)
  next
    case False
    have "n mod 10 < 10" by simp
    then show ?thesis
      using "1.prems" "1.IH" [OF False] False digit_facts(1) by (subst (asm) to_string.simps) auto
  qed
qed

lemma digit_no_space: "isdigit ch \<Longrightarrow> \<not> isspace ch"
  by (simp add: isdigit_def isspace_def)

lemma piece_char_no_space: "\<not> isspace (piece_char s t)"
proof (cases "t < 6")
  case True
  have "list_all (\<lambda>w. list_all (\<lambda>t. \<not> isspace (to_char t w)) [0..<6]) [White, Black]" by code_simp
  then show ?thesis using True by (simp add: list_all_iff piece_char_def)
next
  case False
  then show ?thesis by (simp add: piece_char_def isspace_def)
qed

lemma fen_row_no_space: "ch \<in> set (fen_row p y xs e) \<Longrightarrow> \<not> isspace ch"
  by (induction p y xs e rule: fen_row.induct)
    (auto simp: Let_def flush_empty_def piece_char_no_space split: if_splits dest: to_string_digits digit_no_space)

lemma placement_no_space: "ch \<in> set (fen_placement p) \<Longrightarrow> \<not> isspace ch"
  by (auto simp: fen_placement_def isspace_def dest: fen_row_no_space split: if_splits)

lemma fen_row_not_empty: "xs \<noteq> [] \<or> e > 0 \<Longrightarrow> fen_row p y xs e \<noteq> []"
  by (induction p y xs e rule: fen_row.induct)
    (auto simp: Let_def flush_empty_def to_string.simps [of "Suc _"] to_string.simps)

lemma takeWhile_field:
  "(\<And>c. c \<in> set xs \<Longrightarrow> P c) \<Longrightarrow> \<not> P b \<Longrightarrow> takeWhile P (xs @ b # ys) = xs"
  by (induction xs) auto

lemma get_fen_field: "\<exists>rest. get_fen pos = fen_placement (pieces_of pos) @ CHR '' '' # rest"
  by (auto simp: get_fen_def)

lemma FEN_parse_field:
  "FEN_parse (get_fen pos) = map_option position_of_pieces (Pieces_of_fen (fen_placement (pieces_of pos)))"
proof -
  let ?f = "fen_placement (pieces_of pos)"
  obtain rest where rest: "get_fen pos = ?f @ CHR '' '' # rest" using get_fen_field by blast
  have sp: "isspace (CHR '' '')" by (simp add: isspace_def)
  have ne: "?f \<noteq> []" using fen_row_not_empty [of "[0..<8]" 0 "pieces_of pos" 7]
    by (auto simp: fen_placement_def upt_rec)
  then have "dropWhile isspace (get_fen pos) = get_fen pos"
    using placement_no_space [of "hd ?f" "pieces_of pos"] rest by (cases ?f) auto
  moreover have "takeWhile (\<lambda>c. \<not> isspace c) (get_fen pos) = ?f"
    unfolding rest by (rule takeWhile_field) (use placement_no_space sp in auto)
  moreover have "takeWhile (\<lambda>c. c \<noteq> CHR '' '') ?f = ?f"
    using placement_no_space sp by (auto simp: takeWhile_eq_all_conv)
  ultimately show ?thesis by (simp only: FEN_parse_def Position_of_fen_def)
qed

end
