(* ===== verification/Server.thy ===== *)
theory Server
  imports Fen Complex_Main
begin

text \<open>
  The game server (\<^verbatim>\<open>game_room.cpp\<close>, \<^verbatim>\<open>server.cpp\<close>, \<^verbatim>\<open>player_interface.hpp\<close>): players, the queue,
  the rooms and the handlers of the commands. Sessions, rooms and the server are shared objects
  in the source; here one \<open>world\<close> record holds them, a player being known by a number (the
  identity of its session object) and a room by its index in \<open>_rooms\<close>, which never shrinks.
  Messages that the source sends are recorded in \<open>outbox\<close>, calls of the database in
  \<open>db_log\<close>, both in order. The server runs on one thread, so a run is a sequence of handler
  calls.

  Parameters: the result of \<open>login_or_register\<close>, which the database gives, and the order in which
  \<^verbatim>\<open>std::sort\<close> leaves the candidates (it sorts by rating and is not stable). Ratings are
  mathematical integers and the expected score of the rating formula a real number; the source
  has \<^verbatim>\<open>int\<close> and \<^verbatim>\<open>double\<close>.
\<close>

section \<open>State\<close>

record player =
  p_nick :: string
  p_rating :: int
  p_user_id :: int
  p_authorized :: bool
  p_room :: "nat option"
  p_in_queue :: bool

definition new_session :: player where
  "new_session = \<lparr>p_nick = [], p_rating = 1000, p_user_id = -1, p_authorized = False, p_room = None,
     p_in_queue = False\<rparr>"

record room =
  r_white :: "nat option"
  r_black :: "nat option"
  draw_offer_white :: bool
  draw_offer_black :: bool
  r_position :: position

datatype server_msg =
    StatusOk string
  | StatusError string
  | MatchFound string string string
  | ChatEvent string string
  | MoveEvent string string string string
  | CheckEvent string
  | GameOver string "string option"
  | RatingUpdate int
  | DrawOffer string
  | DrawDeclined string
  | OpponentDisconnected
  | QueueUpdate nat
  | Leaderboard "(int \<times> string \<times> int) list"

datatype db_call =
    SaveGame int int int string string
  | UpdateRating int int
  | UpdateStats int bool bool

record world =
  players :: "nat \<Rightarrow> player"
  all_players :: "nat list"
  queue :: "nat list"
  rooms :: "room list"
  outbox :: "(nat \<times> server_msg) list"
  db_log :: "db_call list"

definition send :: "nat \<Rightarrow> server_msg \<Rightarrow> world \<Rightarrow> world" where
  "send p msg w = w\<lparr>outbox := outbox w @ [(p, msg)]\<rparr>"

definition send_opt :: "nat option \<Rightarrow> server_msg \<Rightarrow> world \<Rightarrow> world" where
  "send_opt p msg w = (case p of None \<Rightarrow> w | Some q \<Rightarrow> send q msg w)"

definition set_player :: "nat \<Rightarrow> (player \<Rightarrow> player) \<Rightarrow> world \<Rightarrow> world" where
  "set_player p f w = w\<lparr>players := (players w)(p := f (players w p))\<rparr>"

definition set_room :: "nat \<Rightarrow> nat option \<Rightarrow> world \<Rightarrow> world" where
  "set_room p r = set_player p (\<lambda>pl. pl\<lparr>p_room := r\<rparr>)"

definition set_room_opt :: "nat option \<Rightarrow> nat option \<Rightarrow> world \<Rightarrow> world" where
  "set_room_opt p r w = (case p of None \<Rightarrow> w | Some q \<Rightarrow> set_room q r w)"

definition log_db :: "db_call \<Rightarrow> world \<Rightarrow> world" where
  "log_db c w = w\<lparr>db_log := db_log w @ [c]\<rparr>"

definition update_room :: "nat \<Rightarrow> (room \<Rightarrow> room) \<Rightarrow> world \<Rightarrow> world" where
  "update_room rid f w = w\<lparr>rooms := (rooms w)[rid := f (rooms w ! rid)]\<rparr>"

section \<open>The game room\<close>

definition algebraic_to_index :: "string \<Rightarrow> nat" where
  "algebraic_to_index sq =
     (if length sq < 2 then 255
      else
        let file = int (byte (sq ! 0)) - 97; rank = int (byte (sq ! 1)) - 49
        in if file < 0 \<or> file > 7 \<or> rank < 0 \<or> rank > 7 then 255 else nat (rank * 8 + file))"

definition has :: "room \<Rightarrow> nat \<Rightarrow> bool" where
  "has r p \<longleftrightarrow> Some p = r_white r \<or> Some p = r_black r"

definition opponent_of :: "room \<Rightarrow> nat \<Rightarrow> nat option" where
  "opponent_of r p = (if \<not> has r p then None else if Some p = r_white r then r_black r else r_white r)"

definition nick_opt :: "world \<Rightarrow> nat option \<Rightarrow> string" where
  "nick_opt w p = (case p of None \<Rightarrow> [] | Some q \<Rightarrow> p_nick (players w q))"

definition start_room :: "nat \<Rightarrow> world \<Rightarrow> world" where
  "start_room rid w =
     (let r = rooms w ! rid; fen = get_fen (r_position r);
          w1 = send_opt (r_white r) (MatchFound (nick_opt w (r_black r)) fen ''white'') w
      in send_opt (r_black r) (MatchFound (nick_opt w (r_white r)) fen ''black'') w1)"

definition broadcast :: "room \<Rightarrow> server_msg \<Rightarrow> world \<Rightarrow> world" where
  "broadcast r msg w = send_opt (r_black r) msg (send_opt (r_white r) msg w)"

definition on_chat :: "nat \<Rightarrow> nat \<Rightarrow> string \<Rightarrow> world \<Rightarrow> world" where
  "on_chat rid p txt w =
     (case opponent_of (rooms w ! rid) p of
        None \<Rightarrow> w
      | Some q \<Rightarrow> send q (ChatEvent (p_nick (players w p)) txt) w)"

subsection \<open>Ratings\<close>

definition lround :: "real \<Rightarrow> int" where
  "lround x = (if x \<ge> 0 then \<lfloor>x + 1/2\<rfloor> else \<lceil>x - 1/2\<rceil>)"

definition expected_score :: "int \<Rightarrow> int \<Rightarrow> real" where
  "expected_score Ra Rb = 1 / (1 + 10 powr ((of_int Rb - of_int Ra) / 400))"

definition new_winner_rating :: "int \<Rightarrow> int \<Rightarrow> int" where
  "new_winner_rating Ra Rb = lround (of_int Ra + 32 * (1 - expected_score Ra Rb))"

definition new_loser_rating :: "int \<Rightarrow> int \<Rightarrow> int" where
  "new_loser_rating Ra Rb = (let Eb = 1 - expected_score Ra Rb in lround (of_int Rb + 32 * (0 - Eb)))"

definition update_rating :: "nat \<Rightarrow> nat \<Rightarrow> world \<Rightarrow> world" where
  "update_rating winner loser w =
     (let Ra = p_rating (players w winner); Rb = p_rating (players w loser);
          nw = new_winner_rating Ra Rb; nl = new_loser_rating Ra Rb;
          w1 = set_player loser (\<lambda>pl. pl\<lparr>p_rating := nl\<rparr>) (set_player winner (\<lambda>pl. pl\<lparr>p_rating := nw\<rparr>) w);
          wid = p_user_id (players w1 winner); lid = p_user_id (players w1 loser);
          w2 = log_db (UpdateStats lid False False) (log_db (UpdateStats wid True False)
                 (log_db (UpdateRating lid nl) (log_db (UpdateRating wid nw) w1)));
          w3 = send winner (RatingUpdate (p_rating (players w2 winner))) w2
      in send loser (RatingUpdate (p_rating (players w3 loser))) w3)"

subsection \<open>The end of a game\<close>

definition user_id_opt :: "world \<Rightarrow> nat option \<Rightarrow> int" where
  "user_id_opt w p = (case p of None \<Rightarrow> -1 | Some q \<Rightarrow> p_user_id (players w q))"

definition end_game :: "nat \<Rightarrow> string \<Rightarrow> nat option \<Rightarrow> world \<Rightarrow> world" where
  "end_game rid result winner w =
     (let r = rooms w ! rid;
          w1 = (case winner of None \<Rightarrow> w
                | Some win \<Rightarrow> (case opponent_of r win of None \<Rightarrow> w | Some los \<Rightarrow> update_rating win los w));
          w2 = log_db (SaveGame (user_id_opt w1 (r_white r)) (user_id_opt w1 (r_black r)) (user_id_opt w1 winner)
                 result (get_fen (r_position r))) w1;
          w3 = broadcast r (GameOver result (map_option (\<lambda>q. p_nick (players w2 q)) winner)) w2
      in set_room_opt (r_black r) None (set_room_opt (r_white r) None w3))"

subsection \<open>Moves\<close>

definition promotion_matches :: "nat \<Rightarrow> string \<Rightarrow> bool" where
  "promotion_matches fl promotion =
     (if fl = PromoteToKnight then promotion = ''n''
      else if fl = PromoteToBishop then promotion = ''b''
      else if fl = PromoteToRook then promotion = ''r''
      else if fl = PromoteToQueen then promotion = ''q''
      else False)"

text \<open>The search loop: an early return for a missing promotion piece, or the first match.\<close>

fun find_move :: "move list \<Rightarrow> nat \<Rightarrow> nat \<Rightarrow> string \<Rightarrow> string + move option" where
  "find_move [] from_idx to_idx promotion = Inr None"
| "find_move (m # ms) from_idx to_idx promotion =
     (if mv_from m = from_idx \<and> mv_to m = to_idx then
        (if PromoteToKnight \<le> mv_flag m \<and> mv_flag m \<le> PromoteToQueen then
           (if promotion = [] then Inl ''Promotion piece required (n/b/r/q)''
            else if promotion_matches (mv_flag m) promotion then Inr (Some m)
            else find_move ms from_idx to_idx promotion)
         else Inr (Some m))
      else find_move ms from_idx to_idx promotion)"

definition after_move :: "nat \<Rightarrow> world \<Rightarrow> world" where
  "after_move rid w =
     (let r = rooms w ! rid; pos = r_position r in
      if is_checkmate pos then end_game rid ''checkmate'' (if side_to_move pos = White then r_black r else r_white r) w
      else if is_stalemate pos then end_game rid ''stalemate'' None w
      else if is_threefold_repetition pos then end_game rid ''threefold_repetition'' None w
      else if is_fifty_move_rule pos then end_game rid ''fifty_move_rule'' None w
      else if is_check (pieces_of pos) (side_to_move pos)
      then broadcast r (CheckEvent (if side_to_move pos = White then ''white'' else ''black'')) w
      else w)"

definition on_move :: "nat \<Rightarrow> nat \<Rightarrow> string \<Rightarrow> string \<Rightarrow> string \<Rightarrow> world \<Rightarrow> bool \<times> world" where
  "on_move rid p from_sq to_sq promotion w =
     (let r = rooms w ! rid; pos = r_position r; is_white_turn = (side_to_move pos = White) in
      if (Some p = r_white r \<and> \<not> is_white_turn) \<or> (Some p = r_black r \<and> is_white_turn)
      then (False, send p (StatusError ''Not your turn'') w)
      else
        let from_idx = algebraic_to_index from_sq; to_idx = algebraic_to_index to_sq in
        if from_idx = 255 \<or> to_idx = 255 then (False, send p (StatusError ''Invalid square format'') w)
        else
          case find_move (generate_moves pos) from_idx to_idx promotion of
            Inl err \<Rightarrow> (False, send p (StatusError err) w)
          | Inr None \<Rightarrow> (False, send p (StatusError ''Illegal move'') w)
          | Inr (Some m) \<Rightarrow>
              (case apply_move pos m of
                 (False, pos') \<Rightarrow>
                   (False, send p (StatusError ''Move failed'') (update_room rid (\<lambda>r. r\<lparr>r_position := pos'\<rparr>) w))
               | (True, pos') \<Rightarrow>
                   let w1 = update_room rid (\<lambda>r. r\<lparr>r_position := pos'\<rparr>) w;
                       w2 = broadcast r (MoveEvent from_sq to_sq (p_nick (players w1 p)) (get_fen pos')) w1
                   in (True, after_move rid w2)))"

subsection \<open>Draw offers and disconnection\<close>

definition on_draw_request :: "nat \<Rightarrow> nat \<Rightarrow> world \<Rightarrow> world" where
  "on_draw_request rid p w =
     (let r = rooms w ! rid;
          w1 = (if Some p = r_white r then update_room rid (\<lambda>r. r\<lparr>draw_offer_white := True\<rparr>) w
                else if Some p = r_black r then update_room rid (\<lambda>r. r\<lparr>draw_offer_black := True\<rparr>) w
                else w)
      in case opponent_of r p of None \<Rightarrow> w1 | Some q \<Rightarrow> send q (DrawOffer (p_nick (players w1 p))) w1)"

definition on_draw_accept :: "nat \<Rightarrow> nat \<Rightarrow> world \<Rightarrow> bool \<times> world" where
  "on_draw_accept rid p w =
     (let r = rooms w ! rid in
      if (Some p = r_white r \<and> draw_offer_black r) \<or> (Some p = r_black r \<and> draw_offer_white r)
      then (True, end_game rid ''draw_agreed'' None w)
      else (False, w))"

definition on_draw_decline :: "nat \<Rightarrow> nat \<Rightarrow> world \<Rightarrow> bool \<times> world" where
  "on_draw_decline rid p w =
     (let r = rooms w ! rid in
      if Some p = r_white r \<and> draw_offer_black r then
        (True, send_opt (r_black r) (DrawDeclined (p_nick (players w p)))
           (update_room rid (\<lambda>r. r\<lparr>draw_offer_black := False\<rparr>) w))
      else if Some p = r_black r \<and> draw_offer_white r then
        (True, send_opt (r_white r) (DrawDeclined (p_nick (players w p)))
           (update_room rid (\<lambda>r. r\<lparr>draw_offer_white := False\<rparr>) w))
      else (False, w))"

definition room_disconnect :: "nat \<Rightarrow> nat \<Rightarrow> world \<Rightarrow> world" where
  "room_disconnect rid who w =
     (let r = rooms w ! rid;
          w1 = (case opponent_of r who of
                  None \<Rightarrow> w
                | Some other \<Rightarrow> set_room other None (update_rating other who (send other OpponentDisconnected w)))
      in set_room_opt (r_black r) None (set_room_opt (r_white r) None w1))"

section \<open>The server\<close>

record user_info =
  u_id :: int
  u_nickname :: string
  u_rating :: int
  u_games_played :: int
  u_games_won :: int
  u_games_drawn :: int

text \<open>\<open>handle_auth\<close>; \<open>login\<close> is the answer of the database to the nickname and the password.\<close>

definition handle_auth :: "(string \<Rightarrow> string \<Rightarrow> user_info option) \<Rightarrow> nat \<Rightarrow> string \<Rightarrow> string \<Rightarrow> world \<Rightarrow> world" where
  "handle_auth login p nick password w =
     (if nick = [] then send p (StatusError ''nick required'') w
      else
        case login nick password of
          Some u \<Rightarrow>
            let w1 = set_player p (\<lambda>pl. pl\<lparr>p_authorized := True, p_nick := u_nickname u, p_rating := u_rating u,
                       p_user_id := u_id u\<rparr>) w;
                w2 = send p (StatusOk ''authorized'') w1
            in send p (RatingUpdate (p_rating (players w2 p))) w2
        | None \<Rightarrow> send p (StatusError ''Authentication failed'') w)"

definition broadcast_queue_size :: "world \<Rightarrow> world" where
  "broadcast_queue_size w =
     fold (\<lambda>p w'. if p_authorized (players w' p) then send p (QueueUpdate (length (queue w))) w' else w') (all_players w) w"

definition remove_from_queue :: "nat \<Rightarrow> world \<Rightarrow> world" where
  "remove_from_queue p w =
     (if p_in_queue (players w p)
      then broadcast_queue_size
             ((set_player p (\<lambda>pl. pl\<lparr>p_in_queue := False\<rparr>) w)\<lparr>queue := remove1 p (queue w)\<rparr>)
      else w)"

text \<open>The search for the candidate whose rating is closest to the first one's.\<close>

fun best_loop :: "int \<Rightarrow> int list \<Rightarrow> nat \<Rightarrow> int \<Rightarrow> nat \<Rightarrow> nat" where
  "best_loop first [] i best_diff best_idx = best_idx"
| "best_loop first (rt # rs) i best_diff best_idx =
     (let diff = \<bar>rt - first\<bar> in
      if diff < best_diff then best_loop first rs (i + 1) diff i
      else best_loop first rs (i + 1) best_diff best_idx)"

definition new_room :: "nat \<Rightarrow> nat \<Rightarrow> position \<Rightarrow> room" where
  "new_room white black pos = \<lparr>r_white = Some white, r_black = Some black, draw_offer_white = False,
     draw_offer_black = False, r_position = pos\<rparr>"

definition start_match :: "nat \<Rightarrow> nat \<Rightarrow> position \<Rightarrow> world \<Rightarrow> world" where
  "start_match white black pos w =
     (let w1 = remove_from_queue black (remove_from_queue white w);
          rid = length (rooms w1);
          w2 = w1\<lparr>rooms := rooms w1 @ [new_room white black pos]\<rparr>;
          w3 = set_room black (Some rid) (set_room white (Some rid) w2)
      in start_room rid w3)"

text \<open>\<open>pos\<close> is what the default constructor of \<open>Position\<close> gives the new room.\<close>

definition try_matchmake :: "((nat \<Rightarrow> int) \<Rightarrow> nat list \<Rightarrow> nat list) \<Rightarrow> position \<Rightarrow> world \<Rightarrow> world" where
  "try_matchmake srt pos w =
     (if length (queue w) < 2 then w
      else
        let rating = (\<lambda>p. p_rating (players w p));
            candidates = srt rating (queue w);
            first = candidates ! 0;
            best_diff = \<bar>rating (candidates ! 1) - rating first\<bar>;
            best_idx = best_loop (rating first) (map rating (drop 2 candidates)) 2 best_diff 1
        in start_match first (candidates ! best_idx) pos w)"

definition handle_queue :: "((nat \<Rightarrow> int) \<Rightarrow> nat list \<Rightarrow> nat list) \<Rightarrow> position \<Rightarrow> nat \<Rightarrow> world \<Rightarrow> world" where
  "handle_queue srt pos p w =
     (if \<not> p_authorized (players w p) then send p (StatusError ''not authorized'') w
      else if p_room (players w p) \<noteq> None then send p (StatusError ''already in game'') w
      else if p_in_queue (players w p) then send p (StatusOk ''already queued'') w
      else
        let w1 = set_player p (\<lambda>pl. pl\<lparr>p_in_queue := True\<rparr>) w;
            w2 = w1\<lparr>queue := queue w1 @ [p]\<rparr>
        in try_matchmake srt pos (broadcast_queue_size (send p (StatusOk ''queued'') w2)))"

definition room_leave :: "nat \<Rightarrow> world \<Rightarrow> world" where
  "room_leave p w = (case p_room (players w p) of None \<Rightarrow> w | Some rid \<Rightarrow> room_disconnect rid p w)"

definition handle_leave :: "nat \<Rightarrow> world \<Rightarrow> world" where
  "handle_leave p w = send p (StatusOk ''left'') (set_room p None (room_leave p (remove_from_queue p w)))"

definition handle_chat :: "nat \<Rightarrow> string \<Rightarrow> world \<Rightarrow> world" where
  "handle_chat p txt w =
     (if \<not> p_authorized (players w p) then send p (StatusError ''not authorized'') w
      else case p_room (players w p) of
             None \<Rightarrow> send p (StatusError ''not in game'') w
           | Some rid \<Rightarrow> send p (StatusOk ''sent'') (on_chat rid p txt w))"

definition handle_move :: "nat \<Rightarrow> string \<Rightarrow> string \<Rightarrow> string \<Rightarrow> world \<Rightarrow> world" where
  "handle_move p from_sq to_sq promotion w =
     (if \<not> p_authorized (players w p) then send p (StatusError ''not authorized'') w
      else case p_room (players w p) of
             None \<Rightarrow> send p (StatusError ''not in game'') w
           | Some rid \<Rightarrow> snd (on_move rid p from_sq to_sq promotion w))"

definition handle_draw :: "nat \<Rightarrow> string \<Rightarrow> world \<Rightarrow> world" where
  "handle_draw p cmd_action w =
     (if \<not> p_authorized (players w p) then send p (StatusError ''not authorized'') w
      else case p_room (players w p) of
             None \<Rightarrow> send p (StatusError ''not in game'') w
           | Some rid \<Rightarrow>
               let action = (if cmd_action = [] then ''offer'' else cmd_action) in
               if action = ''offer'' then send p (StatusOk ''draw offered'') (on_draw_request rid p w)
               else if action = ''accept'' then
                 (case on_draw_accept rid p w of
                    (True, w') \<Rightarrow> send p (StatusOk ''draw accepted'') w'
                  | (False, w') \<Rightarrow> send p (StatusError ''no draw offer to accept'') w')
               else if action = ''decline'' then
                 (case on_draw_decline rid p w of
                    (True, w') \<Rightarrow> send p (StatusOk ''draw declined'') w'
                  | (False, w') \<Rightarrow> send p (StatusError ''no draw offer to decline'') w')
               else send p (StatusError ''unknown draw action'') w)"

text \<open>\<open>handle_leaderboard\<close>; \<open>leaders\<close> is what the database answers for the ten best players: id, nickname, rating.\<close>

definition handle_leaderboard :: "(int \<times> string \<times> int) list \<Rightarrow> nat \<Rightarrow> world \<Rightarrow> world" where
  "handle_leaderboard leaders p w =
     (if \<not> p_authorized (players w p) then send p (StatusError ''not authorized'') w
      else send p (Leaderboard leaders) w)"

definition on_disconnect :: "nat \<Rightarrow> world \<Rightarrow> world" where
  "on_disconnect p w =
     (let w1 = room_leave p (remove_from_queue p w)
      in broadcast_queue_size (w1\<lparr>all_players := filter (\<lambda>q. q \<noteq> p) (all_players w1)\<rparr>))"

text \<open>An accepted connection: a new session object.\<close>

definition accept :: "nat \<Rightarrow> world \<Rightarrow> world" where
  "accept p w = w\<lparr>players := (players w)(p := new_session), all_players := all_players w @ [p]\<rparr>"

section \<open>The sessions\<close>

text \<open>
  \<open>handle_command\<close> of \<^verbatim>\<open>tcp_session.cpp\<close> and \<^verbatim>\<open>websocket_session.cpp\<close>: the dispatch
  on the parsed command. \<open>Invalid\<close> is a command that did not parse.
\<close>

datatype command =
    Invalid
  | Ping
  | Auth string string
  | QueueCmd
  | Leave
  | Chat string
  | MoveCmd string string string
  | Draw string
  | LeaderboardCmd
  | OtherCmd

definition handle_command ::
    "(string \<Rightarrow> string \<Rightarrow> user_info option) \<Rightarrow> (int \<times> string \<times> int) list \<Rightarrow> ((nat \<Rightarrow> int) \<Rightarrow> nat list \<Rightarrow> nat list) \<Rightarrow> position
      \<Rightarrow> nat \<Rightarrow> command \<Rightarrow> world \<Rightarrow> world" where
  "handle_command login leaders srt pos p cmd w =
     (case cmd of
        Invalid \<Rightarrow> send p (StatusError ''Invalid format'') w
      | Ping \<Rightarrow> send p (StatusOk ''pong'') w
      | Auth nick password \<Rightarrow> handle_auth login p nick password w
      | LeaderboardCmd \<Rightarrow> handle_leaderboard leaders p w
      | _ \<Rightarrow>
          if \<not> p_authorized (players w p) then send p (StatusError ''Not authorized'') w
          else (case cmd of
                  QueueCmd \<Rightarrow> handle_queue srt pos p w
                | Leave \<Rightarrow> handle_leave p w
                | Chat txt \<Rightarrow> handle_chat p txt w
                | MoveCmd from_sq to_sq promotion \<Rightarrow> handle_move p from_sq to_sq promotion w
                | Draw action \<Rightarrow> handle_draw p action w
                | _ \<Rightarrow> send p (StatusError ''Unknown command'') w))"

end
