(* ===== verification/Protocol.thy ===== *)
theory Protocol
  imports JsonOk Server
begin

text \<open>
  The wire protocol (\<^verbatim>\<open>protocol.hpp\<close>, \<^verbatim>\<open>command.hpp\<close>, \<^verbatim>\<open>command.cpp\<close>): the requests, their
  JSON form and back, the factory, the responses and events, and \<open>ProtocolParser::parse\<close>, which
  makes of a received line the command the sessions dispatch.
\<close>

section \<open>Requests\<close>

datatype message =
    AuthRequest string string
  | MoveRequest string string string
  | ChatRequest string
  | DrawRequest string
  | QueueRequest
  | LeaveRequest
  | PingRequest

text \<open>The members are assigned in the order of the source; an optional one only when it is not empty.\<close>

definition opt_member :: "string \<Rightarrow> string \<Rightarrow> (string \<times> json) list" where
  "opt_member k s = (if s \<noteq> [] then [(k, JString s)] else [])"

fun to_json :: "message \<Rightarrow> json" where
  "to_json (AuthRequest nick password) =
     json_object ([(''type'', JString ''auth''), (''nick'', JString nick)] @ opt_member ''password'' password)"
| "to_json (MoveRequest from_sq to_sq promotion) =
     json_object ([(''type'', JString ''move''), (''from'', JString from_sq), (''to'', JString to_sq)] @
       opt_member ''promotion'' promotion)"
| "to_json (ChatRequest tx) = json_object [(''type'', JString ''chat''), (''text'', JString tx)]"
| "to_json (DrawRequest action) = json_object [(''type'', JString ''draw''), (''action'', JString action)]"
| "to_json QueueRequest = json_object [(''type'', JString ''queue'')]"
| "to_json LeaveRequest = json_object [(''type'', JString ''leave'')]"
| "to_json PingRequest = json_object [(''type'', JString ''ping'')]"

text \<open>
  \<open>from_json\<close> of each request: the request with its members as read, and the returned flag. A
  request of another type leaves the default-constructed members.
\<close>

definition wrong_type :: "json \<Rightarrow> string \<Rightarrow> bool" where
  "wrong_type j t \<longleftrightarrow> \<not> json_contains j ''type'' \<or> json_at j ''type'' \<noteq> JString t"

definition auth_from_json :: "json \<Rightarrow> (message \<times> bool) res" where
  "auth_from_json j =
     (if wrong_type j ''auth'' then Inr (AuthRequest [] [], False)
      else bind_res (value_string j ''nick'' []) (\<lambda>nick.
           bind_res (value_string j ''password'' []) (\<lambda>password.
           Inr (AuthRequest nick password, nick \<noteq> []))))"

definition move_from_json :: "json \<Rightarrow> (message \<times> bool) res" where
  "move_from_json j =
     (if wrong_type j ''move'' then Inr (MoveRequest [] [] [], False)
      else bind_res (value_string j ''from'' []) (\<lambda>from_sq.
           bind_res (value_string j ''to'' []) (\<lambda>to_sq.
           bind_res (value_string j ''promotion'' []) (\<lambda>promotion.
           Inr (MoveRequest from_sq to_sq promotion, from_sq \<noteq> [] \<and> to_sq \<noteq> [])))))"

definition chat_from_json :: "json \<Rightarrow> (message \<times> bool) res" where
  "chat_from_json j =
     (if wrong_type j ''chat'' then Inr (ChatRequest [], False)
      else bind_res (value_string j ''text'' []) (\<lambda>tx. Inr (ChatRequest tx, tx \<noteq> [])))"

definition draw_from_json :: "json \<Rightarrow> (message \<times> bool) res" where
  "draw_from_json j =
     (if wrong_type j ''draw'' then Inr (DrawRequest [], False)
      else bind_res (value_string j ''action'' []) (\<lambda>action. Inr (DrawRequest action, action \<noteq> [])))"

definition queue_from_json :: "json \<Rightarrow> (message \<times> bool) res" where
  "queue_from_json j = Inr (QueueRequest, \<not> wrong_type j ''queue'')"

definition leave_from_json :: "json \<Rightarrow> (message \<times> bool) res" where
  "leave_from_json j = Inr (LeaveRequest, \<not> wrong_type j ''leave'')"

definition ping_from_json :: "json \<Rightarrow> (message \<times> bool) res" where
  "ping_from_json j = Inr (PingRequest, \<not> wrong_type j ''ping'')"

text \<open>\<open>MessageFactory::create\<close> drops the flag of \<open>from_json\<close>.\<close>

definition made :: "(message \<times> bool) res \<Rightarrow> message option res" where
  "made r = bind_res r (\<lambda>(msg, _). Inr (Some msg))"

definition create :: "json \<Rightarrow> message option res" where
  "create j =
     (if \<not> json_contains j ''type'' then Inr None
      else bind_res (json_string (json_at j ''type'')) (\<lambda>type.
        if type = ''auth'' then made (auth_from_json j)
        else if type = ''move'' then made (move_from_json j)
        else if type = ''chat'' then made (chat_from_json j)
        else if type = ''draw'' then made (draw_from_json j)
        else if type = ''queue'' then made (queue_from_json j)
        else if type = ''leave'' then made (leave_from_json j)
        else if type = ''ping'' then made (ping_from_json j)
        else Inr None))"

section \<open>Commands\<close>

record game_command =
  gc_type :: string
  gc_from :: string
  gc_to :: string
  gc_nick :: string
  gc_password :: string
  gc_text :: string
  gc_action :: string
  gc_promotion :: string
  gc_player_id :: int
  gc_is_valid :: bool

definition empty_command :: game_command where
  "empty_command = \<lparr>gc_type = [], gc_from = [], gc_to = [], gc_nick = [], gc_password = [], gc_text = [],
     gc_action = [], gc_promotion = [], gc_player_id = 0, gc_is_valid = False\<rparr>"

fun from_protocol_message :: "message \<Rightarrow> game_command" where
  "from_protocol_message (AuthRequest nick password) =
     empty_command\<lparr>gc_type := ''auth'', gc_nick := nick, gc_password := password, gc_is_valid := True\<rparr>"
| "from_protocol_message (MoveRequest from_sq to_sq promotion) =
     empty_command\<lparr>gc_type := ''move'', gc_from := from_sq, gc_to := to_sq, gc_promotion := promotion, gc_is_valid := True\<rparr>"
| "from_protocol_message (ChatRequest tx) = empty_command\<lparr>gc_type := ''chat'', gc_text := tx, gc_is_valid := True\<rparr>"
| "from_protocol_message (DrawRequest action) =
     empty_command\<lparr>gc_type := ''draw'', gc_action := action, gc_is_valid := True\<rparr>"
| "from_protocol_message QueueRequest = empty_command\<lparr>gc_type := ''queue'', gc_is_valid := True\<rparr>"
| "from_protocol_message LeaveRequest = empty_command\<lparr>gc_type := ''leave'', gc_is_valid := True\<rparr>"
| "from_protocol_message PingRequest = empty_command\<lparr>gc_type := ''ping'', gc_is_valid := True\<rparr>"

definition blank :: "char \<Rightarrow> bool" where
  "blank c \<longleftrightarrow> byte c = 10 \<or> byte c = 13 \<or> byte c = 32"

text \<open>The two loops that trim the line: from its end, then from its start.\<close>

definition trim :: "string \<Rightarrow> string" where
  "trim raw = dropWhile blank (rev (dropWhile blank (rev raw)))"

definition parse_command :: "(string \<Rightarrow> u64) \<Rightarrow> string \<Rightarrow> game_command" where
  "parse_command strtod raw =
     (case json_parse strtod False (trim raw) of
        Inl _ \<Rightarrow> empty_command
      | Inr j \<Rightarrow>
          (case create j of
             Inr (Some msg) \<Rightarrow> from_protocol_message msg
           | Inr None \<Rightarrow> empty_command
           | Inl _ \<Rightarrow> empty_command))"

text \<open>\<open>ProtocolParser::serialize_json\<close> and \<open>serialize\<close>: the compact text and a newline.\<close>

definition serialize_json :: "(u64 \<Rightarrow> string) \<Rightarrow> json \<Rightarrow> string res" where
  "serialize_json ftoa j = bind_res (json_dump ftoa compact_layout 0 j) (\<lambda>t. Inr (t @ [CHR 0x0A]))"

definition serialize :: "(u64 \<Rightarrow> string) \<Rightarrow> string \<Rightarrow> string \<Rightarrow> string res" where
  "serialize ftoa status msg = serialize_json ftoa (json_object [(''status'', JString status), (''message'', JString msg)])"

text \<open>The tests on \<open>cmd.is_valid\<close> and \<open>cmd.type\<close> in \<open>handle_command\<close> of the sessions, in their order.\<close>

definition command_of :: "game_command \<Rightarrow> command" where
  "command_of c =
     (if \<not> gc_is_valid c then Invalid
      else if gc_type c = ''ping'' then Ping
      else if gc_type c = ''auth'' then Auth (gc_nick c) (gc_password c)
      else if gc_type c = ''leaderboard'' then LeaderboardCmd
      else if gc_type c = ''queue'' then QueueCmd
      else if gc_type c = ''leave'' then Leave
      else if gc_type c = ''chat'' then Chat (gc_text c)
      else if gc_type c = ''move'' then MoveCmd (gc_from c) (gc_to c) (gc_promotion c)
      else if gc_type c = ''draw'' then Draw (gc_action c)
      else OtherCmd)"

section \<open>Responses\<close>

record status_response =
  sr_status :: string
  sr_message :: string
  sr_data :: json

definition status_ok :: "string \<Rightarrow> json \<Rightarrow> status_response" where
  "status_ok msg d = \<lparr>sr_status = ''ok'', sr_message = msg, sr_data = d\<rparr>"

definition status_error :: "string \<Rightarrow> json \<Rightarrow> status_response" where
  "status_error msg d = \<lparr>sr_status = ''error'', sr_message = msg, sr_data = d\<rparr>"

definition status_to_json :: "status_response \<Rightarrow> json" where
  "status_to_json r =
     json_object ([(''status'', JString (sr_status r)), (''message'', JString (sr_message r))] @
       (if \<not> json_empty (sr_data r) then [(''data'', sr_data r)] else []))"

definition status_from_json :: "json \<Rightarrow> status_response res" where
  "status_from_json j =
     bind_res (value_string j ''status'' ''error'') (\<lambda>s.
     bind_res (value_string j ''message'' []) (\<lambda>msg.
     bind_res (value_json j ''data'' (JObject [])) (\<lambda>d.
     Inr \<lparr>sr_status = s, sr_message = msg, sr_data = d\<rparr>)))"

section \<open>Events\<close>

record game_event =
  ev_name :: string
  ev_data :: json

definition event_to_json :: "game_event \<Rightarrow> json" where
  "event_to_json e = json_object [(''type'', JString ''event''), (''event'', JString (ev_name e)), (''data'', ev_data e)]"

definition event_from_json :: "json \<Rightarrow> game_event res" where
  "event_from_json j =
     bind_res (value_string j ''event'' []) (\<lambda>name.
     bind_res (value_json j ''data'' (JObject [])) (\<lambda>d.
     Inr \<lparr>ev_name = name, ev_data = d\<rparr>))"

definition make_match_found_event :: "string \<Rightarrow> string \<Rightarrow> string \<Rightarrow> game_event" where
  "make_match_found_event opponent fen you_are =
     \<lparr>ev_name = ''match_found'',
      ev_data = json_object [(''opponent'', JString opponent),
        (''board'', json_object [(''fen'', JString fen), (''you_are'', JString you_are)])]\<rparr>"

definition make_move_event :: "string \<Rightarrow> string \<Rightarrow> string \<Rightarrow> string \<Rightarrow> game_event" where
  "make_move_event from_sq to_sq by_nick fen =
     \<lparr>ev_name = ''move'',
      ev_data = json_object [(''from'', JString from_sq), (''to'', JString to_sq), (''by'', JString by_nick), (''fen'', JString fen)]\<rparr>"

definition make_game_over_event :: "string \<Rightarrow> string \<Rightarrow> game_event" where
  "make_game_over_event result winner =
     \<lparr>ev_name = ''game_over'', ev_data = json_object ((''result'', JString result) # opt_member ''winner'' winner)\<rparr>"

definition make_chat_event :: "string \<Rightarrow> string \<Rightarrow> game_event" where
  "make_chat_event from_nick tx =
     \<lparr>ev_name = ''chat'', ev_data = json_object [(''from'', JString from_nick), (''text'', JString tx)]\<rparr>"

definition make_draw_offer_event :: "string \<Rightarrow> game_event" where
  "make_draw_offer_event from_nick = \<lparr>ev_name = ''draw_offer'', ev_data = json_object [(''from'', JString from_nick)]\<rparr>"

definition make_rating_update_event :: "int \<Rightarrow> game_event" where
  "make_rating_update_event rating = \<lparr>ev_name = ''rating_update'', ev_data = json_object [(''rating'', JInt rating)]\<rparr>"

definition make_check_event :: "string \<Rightarrow> game_event" where
  "make_check_event side = \<lparr>ev_name = ''check'', ev_data = json_object [(''side'', JString side)]\<rparr>"

definition make_opponent_disconnected_event :: game_event where
  "make_opponent_disconnected_event = \<lparr>ev_name = ''opponent_disconnected'', ev_data = JNull\<rparr>"


section \<open>Reading what was built\<close>

lemma map_of_object [simp]: "json_object ms = JObject ms' \<Longrightarrow> map_of ms' k = map_of (rev ms) k"
  by (auto simp: json_object_def map_of_json_object)

lemma contains_object [simp]: "json_contains (json_object ms) k \<longleftrightarrow> map_of (rev ms) k \<noteq> None"
  by (simp add: json_contains_def json_object_def map_of_json_object)

lemma at_object [simp]: "json_at (json_object ms) k = (case map_of (rev ms) k of Some v \<Rightarrow> v | None \<Rightarrow> JNull)"
  by (simp add: json_at_def json_object_def map_of_json_object)

lemma value_object [simp]:
  "json_value (json_object ms) k d conv = (case map_of (rev ms) k of Some v \<Rightarrow> conv v | None \<Rightarrow> Inr d)"
  by (simp add: json_value_def json_object_def map_of_json_object)

lemmas from_json_defs = auth_from_json_def move_from_json_def chat_from_json_def draw_from_json_def
  queue_from_json_def leave_from_json_def ping_from_json_def

lemma create_to_json: "create (to_json m) = Inr (Some m)"
  by (cases m) (simp_all add: create_def made_def from_json_defs wrong_type_def value_string_def json_string_def opt_member_def)

section \<open>Texts of messages\<close>

fun message_texts :: "message \<Rightarrow> string list" where
  "message_texts (AuthRequest nick password) = [nick, password]"
| "message_texts (MoveRequest from_sq to_sq promotion) = [from_sq, to_sq, promotion]"
| "message_texts (ChatRequest tx) = [tx]"
| "message_texts (DrawRequest action) = [action]"
| "message_texts _ = []"

lemma utf8_text_ascii: "list_all (\<lambda>c. byte c < 0x80) s \<Longrightarrow> utf8_text s"
proof (induction s)
  case (Cons c s)
  then show ?case using utf8_text_append [OF ascii_text, of c s] by simp
qed simp

lemma put_member_printable:
  "printable (JObject ms) \<Longrightarrow> utf8_text k \<Longrightarrow> printable v \<Longrightarrow> printable (JObject (put_member k v ms))"
  using sorted_put_member [of ms k v] set_put_member_le [of k v ms] by auto

lemma printable_put_members:
  "printable (JObject acc) \<Longrightarrow> (\<And>m. m \<in> set ms \<Longrightarrow> utf8_text (fst m) \<and> printable (snd m)) \<Longrightarrow>
     printable (JObject (put_members ms acc))"
proof (induction ms arbitrary: acc)
  case (Cons m ms)
  obtain k v where m: "m = (k, v)" by (cases m)
  have "utf8_text k" "printable v" using Cons.prems(2) [of m] m by simp_all
  note * = put_member_printable [OF Cons.prems(1) this]
  show ?case using Cons.IH [OF *] Cons.prems(2) m by (simp del: printable.simps)
qed simp

lemma printable_object:
  "list_all (\<lambda>(k, v). list_all (\<lambda>c. byte c < 0x80) k \<and> printable v) ms \<Longrightarrow> printable (json_object ms)"
  unfolding json_object_def
  by (rule printable_put_members) (fastforce simp: list_all_iff intro: utf8_text_ascii [unfolded list_all_iff])+

lemma printable_to_json: "list_all utf8_text (message_texts m) \<Longrightarrow> printable (to_json m)"
  by (cases m) (auto intro!: printable_object utf8_text_ascii simp: opt_member_def)

lemma good_compact: "good_layout compact_layout"
  by (simp add: good_layout_def compact_layout_def)

lemma trim_object_text: "trim ((CHR ''{'' # t @ [CHR ''}'']) @ [CHR 0x0A]) = CHR ''{'' # t @ [CHR ''}'']"
  by (simp add: trim_def blank_def)

lemma dump_object_braces:
  "json_dump ftoa compact_layout n (JObject ms) = Inr t \<Longrightarrow> \<exists>t'. t = CHR ''{'' # t' @ [CHR ''}'']"
  by (cases "ms = []") (auto simp: bind_res_Inr newline_def indent_def compact_layout_def intro: exI [of _ "[]"])

lemma request_round_trip:
  assumes "list_all utf8_text (message_texts m)"
  shows "\<exists>line. serialize_json ftoa (to_json m) = Inr line \<and> parse_command strtod line = from_protocol_message m"
proof -
  obtain t where t: "json_dump ftoa compact_layout 0 (to_json m) = Inr t" "json_parse strtod False t = Inr (to_json m)"
    using json_round [OF good_compact printable_to_json [OF assms]] by blast
  obtain ms where "to_json m = JObject ms" by (cases m) (auto simp: json_object_def)
  then obtain t' where t': "t = CHR ''{'' # t' @ [CHR ''}'']" 
    using dump_object_braces [of ftoa 0 ms t] t(1) by (auto simp del: json_dump.simps)
  have "serialize_json ftoa (to_json m) = Inr (t @ [CHR 0x0A])" using t(1) by (simp add: serialize_json_def)
  moreover have "trim (t @ [CHR 0x0A]) = t" unfolding t' by (rule trim_object_text)
  ultimately show ?thesis using t(2) by (simp add: parse_command_def create_to_json)
qed

end
