(* ===== verification/Client.thy ===== *)
theory Client
  imports Protocol
begin

text \<open>
  The console client (\<^verbatim>\<open>client.cpp\<close>): the board and the feed that it shows, what it does with a
  line from the server and with a line from the console, and how it cuts what it reads from the
  socket into lines. A cell of the board is the UTF-8 text of a glyph. Writing outside the board
  is undefined in the source; here it gives \<open>None\<close>. \<open>std::isdigit\<close>, \<open>std::tolower\<close> and the white
  space of \<open>operator>>\<close> are those of the C locale. Threads, the socket and the terminal are not
  modelled: what the socket delivers is a list of chunks, one for each read.
\<close>

section \<open>The board\<close>

type_synonym cells = "string list list"

definition empty_cell :: string where
  "empty_cell = [CHR 0xC2, CHR 0xB7]"

definition chess_glyph :: "nat \<Rightarrow> string" where
  "chess_glyph b = [CHR 0xE2, CHR 0x99, char_of b]"

definition glyph_of_letter :: "char \<Rightarrow> string" where
  "glyph_of_letter ch =
     (if ch = CHR ''P'' then chess_glyph 0x99
      else if ch = CHR ''N'' then chess_glyph 0x98
      else if ch = CHR ''B'' then chess_glyph 0x97
      else if ch = CHR ''R'' then chess_glyph 0x96
      else if ch = CHR ''Q'' then chess_glyph 0x95
      else if ch = CHR ''K'' then chess_glyph 0x94
      else if ch = CHR ''p'' then chess_glyph 0x9F
      else if ch = CHR ''n'' then chess_glyph 0x9E
      else if ch = CHR ''b'' then chess_glyph 0x9D
      else if ch = CHR ''r'' then chess_glyph 0x9C
      else if ch = CHR ''q'' then chess_glyph 0x9B
      else if ch = CHR ''k'' then chess_glyph 0x9A
      else empty_cell)"

definition cell :: "cells \<Rightarrow> nat \<Rightarrow> nat \<Rightarrow> string" where
  "cell b y x = b ! y ! x"

definition put_cell :: "int \<Rightarrow> int \<Rightarrow> string \<Rightarrow> cells \<Rightarrow> cells option" where
  "put_cell y x g b =
     (if 0 \<le> y \<and> y < 8 \<and> 0 \<le> x \<and> x < 8 then Some (b[nat y := (b ! nat y)[nat x := g]]) else None)"

text \<open>The loop over the empty cells of a digit, then the loop over the characters.\<close>

fun put_empty :: "nat \<Rightarrow> int \<Rightarrow> int \<Rightarrow> cells \<Rightarrow> cells option" where
  "put_empty 0 y x b = Some b"
| "put_empty (Suc n) y x b =
     (case put_cell y x empty_cell b of None \<Rightarrow> None | Some b' \<Rightarrow> put_empty n y (x + 1) b')"

fun fen_cells :: "string \<Rightarrow> int \<Rightarrow> int \<Rightarrow> cells \<Rightarrow> cells option" where
  "fen_cells [] y x b = Some b"
| "fen_cells (ch # cs) y x b =
     (if ch = CHR ''/'' then fen_cells cs (y - 1) 0 b
      else if isdigit ch then
        (case put_empty (byte ch - 48) y x b of
           None \<Rightarrow> None
         | Some b' \<Rightarrow> fen_cells cs y (x + int (byte ch - 48)) b')
      else
        (case put_cell y x (glyph_of_letter ch) b of
           None \<Rightarrow> None
         | Some b' \<Rightarrow> fen_cells cs y (x + 1) b'))"

definition update_board_from_fen :: "string \<Rightarrow> cells \<Rightarrow> cells option" where
  "update_board_from_fen fen b = fen_cells (takeWhile (\<lambda>c. c \<noteq> CHR '' '') fen) 7 0 b"

section \<open>The user interface\<close>

record client_ui =
  ui_board :: cells
  ui_feed :: "string list"
  ui_nick :: string
  ui_status :: string

definition kFeedMax :: nat where "kFeedMax = 18"

function pop_feed :: "string list \<Rightarrow> string list" where
  "pop_feed q = (if length q > kFeedMax then pop_feed (tl q) else q)"
  by pat_completeness auto

termination by (relation "measure length") (auto simp: kFeedMax_def)

declare pop_feed.simps [simp del]

definition push_feed :: "string \<Rightarrow> client_ui \<Rightarrow> client_ui" where
  "push_feed msg ui = ui\<lparr>ui_feed := pop_feed (ui_feed ui @ [msg])\<rparr>"

definition reset_board :: "client_ui \<Rightarrow> client_ui" where
  "reset_board ui = ui\<lparr>ui_board :=
     [map glyph_of_letter ''rnbqkbnr'', map glyph_of_letter ''pppppppp'',
      replicate 8 empty_cell, replicate 8 empty_cell, replicate 8 empty_cell, replicate 8 empty_cell,
      map glyph_of_letter ''PPPPPPPP'', map glyph_of_letter ''RNBQKBNR'']\<rparr>"

text \<open>The row and the column of a square, when it is one.\<close>

definition sq_to_idx :: "string \<Rightarrow> (nat \<times> nat) option" where
  "sq_to_idx sq =
     (if length sq \<noteq> 2 then None
      else
        let file = byte (tolower (sq ! 0)); rank = byte (sq ! 1)
        in if file < 97 \<or> file > 104 \<or> rank < 49 \<or> rank > 56 then None
           else Some (8 - (rank - 48), file - 97))"

definition set_cell :: "nat \<times> nat \<Rightarrow> string \<Rightarrow> client_ui \<Rightarrow> client_ui" where
  "set_cell p g ui = ui\<lparr>ui_board := (ui_board ui)[fst p := (ui_board ui ! fst p)[snd p := g]]\<rparr>"

definition apply_client_move :: "string \<Rightarrow> string \<Rightarrow> client_ui \<Rightarrow> client_ui" where
  "apply_client_move from_sq to_sq ui =
     (case (sq_to_idx from_sq, sq_to_idx to_sq) of
        (Some p, Some q) \<Rightarrow> set_cell p empty_cell (set_cell q (cell (ui_board ui) (fst p) (snd p)) ui)
      | _ \<Rightarrow> push_feed (''[warn] bad move coords: '' @ from_sq @ '' -> '' @ to_sq) ui)"

text \<open>What \<open>render\<close> writes to the terminal.\<close>

definition esc_seq :: "string \<Rightarrow> string" where
  "esc_seq s = CHR 0x1B # s"

definition render_row :: "cells \<Rightarrow> nat \<Rightarrow> string" where
  "render_row b r = to_string (1 + r) @ '' | '' @ concat (map (\<lambda>c. cell b r c @ ''  '') [0..<8]) @ ''|'' @ [CHR 0x0A]"

definition render :: "client_ui \<Rightarrow> string" where
  "render ui =
     (let nl = [CHR 0x0A]; rule_line = ''----------------------------------------'' @ nl;
          start = (if length (ui_feed ui) > kFeedMax then length (ui_feed ui) - kFeedMax else 0)
      in esc_seq ''[2J'' @ esc_seq ''[H'' @ esc_seq ''[3J'' @
         ''Chess Client | nick: '' @ ui_nick ui @ '' | status: '' @ ui_status ui @ nl @ nl @
         ''    a  b  c  d  e  f  g  h '' @ nl @ ''  +------------------------+'' @ nl @
         concat (map (render_row (ui_board ui)) (rev [0..<8])) @
         ''  +------------------------+'' @ nl @ nl @ ''Chat / Events'' @ nl @ rule_line @
         concat (map (\<lambda>m. m @ nl) (drop start (ui_feed ui))) @ rule_line @ nl @
         ''Commands: /queue | /leave | /chat <text> | /move <from> <to> | /draw | /draw accept | /draw decline | /quit'' @ nl @
         ''> '')"

section \<open>Lines from the server\<close>

text \<open>
  The outcome of the code in the \<open>try\<close> block: it returned, it threw, with the changes made so far,
  or it wrote outside the board.
\<close>

datatype outcome = Returned client_ui | Threw client_ui | Undefined

definition with_value :: "'a res \<Rightarrow> ('a \<Rightarrow> client_ui \<Rightarrow> outcome) \<Rightarrow> client_ui \<Rightarrow> outcome" where
  "with_value r f ui = (case r of Inl _ \<Rightarrow> Threw ui | Inr x \<Rightarrow> f x ui)"

definition show_fen :: "string \<Rightarrow> client_ui \<Rightarrow> client_ui option" where
  "show_fen fen ui = map_option (\<lambda>b. ui\<lparr>ui_board := b\<rparr>) (update_board_from_fen fen (ui_board ui))"

text \<open>The values that a range-based \<open>for\<close> visits.\<close>

definition json_items :: "json \<Rightarrow> json list" where
  "json_items j = (case j of JArray vs \<Rightarrow> vs | JObject ms \<Rightarrow> map snd ms | JNull \<Rightarrow> [] | _ \<Rightarrow> [j])"

fun list_players :: "nat \<Rightarrow> json list \<Rightarrow> client_ui \<Rightarrow> outcome" where
  "list_players rank [] ui = Returned ui"
| "list_players rank (p # ps) ui =
     with_value (value_string p ''nickname'' ''?'') (\<lambda>name.
     with_value (value_int p ''rating'' 0) (\<lambda>rating ui.
       list_players (rank + 1) ps
         (push_feed (''#'' @ to_string rank @ '' '' @ name @ '' ('' @ to_string_int rating @ '')'') ui))) ui"

definition move_event :: "json \<Rightarrow> client_ui \<Rightarrow> outcome" where
  "move_event d =
     with_value (value_string d ''from'' []) (\<lambda>from_sq.
     with_value (value_string d ''to'' []) (\<lambda>to_sq.
     with_value (value_string d ''by'' ''?'') (\<lambda>by_nick.
     with_value (value_string d ''fen'' []) (\<lambda>fen ui.
       case (if fen \<noteq> [] then show_fen fen ui else Some (apply_client_move from_sq to_sq ui)) of
         None \<Rightarrow> Undefined
       | Some ui' \<Rightarrow> Returned (push_feed (''[move] '' @ by_nick @ '': '' @ from_sq @ '' -> '' @ to_sq) ui')))))"

definition match_found_event :: "json \<Rightarrow> client_ui \<Rightarrow> outcome" where
  "match_found_event d ui =
     with_value (value_string d ''opponent'' ''?'') (\<lambda>opponent ui1.
       let ui2 = push_feed (''[match] opponent: '' @ opponent) ui1
       in if json_contains d ''board'' \<and> json_contains (json_at d ''board'') ''fen''
          then with_value (json_string (json_at (json_at d ''board'') ''fen'')) (\<lambda>fen ui3.
                 case show_fen fen ui3 of None \<Rightarrow> Undefined | Some ui4 \<Rightarrow> Returned ui4) ui2
          else Returned ui2) (ui\<lparr>ui_status := ''in_game''\<rparr>)"

definition game_over_event :: "json \<Rightarrow> client_ui \<Rightarrow> outcome" where
  "game_over_event d ui =
     with_value (value_string d ''result'' []) (\<lambda>result.
       if result = ''checkmate'' then
         with_value (value_string d ''winner'' []) (\<lambda>winner ui1.
           Returned (push_feed (''[game] checkmate! '' @ winner @ '' wins!'') ui1))
       else (\<lambda>ui1. Returned (push_feed
         (if result = ''stalemate'' then ''[game] stalemate! Game drawn.''
          else if result = ''draw_agreed'' then ''[game] draw agreed!''
          else if result = ''threefold_repetition'' then ''[game] threefold repetition! Game drawn.''
          else if result = ''fifty_move_rule'' then ''[game] fifty move rule! Game drawn.''
          else ''[game] game over: '' @ result) ui1))) (ui\<lparr>ui_status := ''menu''\<rparr>)"

definition on_event :: "string \<Rightarrow> json \<Rightarrow> client_ui \<Rightarrow> outcome" where
  "on_event event d ui =
     (if event = ''chat'' then
        with_value (value_string d ''from'' ''?'') (\<lambda>from_nick.
        with_value (value_string d ''text'' []) (\<lambda>tx ui. Returned (push_feed (from_nick @ '': '' @ tx) ui))) ui
      else if event = ''move'' then move_event d ui
      else if event = ''match_found'' then match_found_event d ui
      else if event = ''game_over'' then game_over_event d ui
      else if event = ''opponent_disconnected'' then
        Returned (push_feed ''[game] opponent disconnected, you win'' (ui\<lparr>ui_status := ''menu''\<rparr>))
      else if event = ''draw_offer'' then
        with_value (value_string d ''from'' ''?'') (\<lambda>from_nick ui.
          Returned (push_feed (''[draw] offer from '' @ from_nick @ '' (use /draw accept or /draw decline)'') ui)) ui
      else if event = ''draw_agreed'' then
        Returned (push_feed ''[game] draw agreed, rating unchanged'' (ui\<lparr>ui_status := ''menu''\<rparr>))
      else if event = ''draw_declined'' then
        with_value (value_string d ''by'' ''?'') (\<lambda>by_nick ui. Returned (push_feed (''[draw] declined by '' @ by_nick) ui)) ui
      else if event = ''rating_update'' then
        with_value (value_int d ''rating'' 0) (\<lambda>rating ui. Returned (push_feed (''[rating] now: '' @ to_string_int rating) ui)) ui
      else if event = ''leaderboard'' then
        with_value (value_json d ''players'' (JArray [])) (\<lambda>players ui. list_players 1 (json_items players) ui)
          (push_feed ''[leaderboard] top players:'' ui)
      else if event = ''check'' then
        with_value (value_string d ''side'' []) (\<lambda>side ui.
          Returned (push_feed (''[check] '' @ side @ '' king is in check!'') ui)) ui
      else Returned (push_feed (''[event] '' @ event) ui))"

definition handle_json :: "string \<Rightarrow> json \<Rightarrow> client_ui \<Rightarrow> outcome" where
  "handle_json line jn ui =
     (if json_contains jn ''status'' \<and> json_contains jn ''message'' then
        with_value (value_string jn ''status'' ''info'') (\<lambda>status.
        with_value (value_string jn ''message'' []) (\<lambda>msg ui. Returned (push_feed (''['' @ status @ ''] '' @ msg) ui))) ui
      else
        with_value (value_string jn ''type'' []) (\<lambda>type.
          if type = ''event'' then
            with_value (value_string jn ''event'' []) (\<lambda>event.
            with_value (value_json jn ''data'' (JObject [])) (\<lambda>d. on_event event d))
          else (\<lambda>ui. Returned (push_feed (''[raw] '' @ line) ui))) ui)"

definition process_incoming_line :: "(string \<Rightarrow> u64) \<Rightarrow> string \<Rightarrow> client_ui \<Rightarrow> client_ui option" where
  "process_incoming_line strtod line ui =
     (case json_parse strtod False line of
        Inl _ \<Rightarrow> Some (push_feed (''[raw] '' @ line) ui)
      | Inr jn \<Rightarrow>
          (case handle_json line jn ui of
             Returned ui' \<Rightarrow> Some ui'
           | Threw ui' \<Rightarrow> Some (push_feed (''[raw] '' @ line) ui')
           | Undefined \<Rightarrow> None))"

section \<open>Reading from the socket\<close>

text \<open>
  \<open>read_until\<close> into a new buffer, then \<open>std::getline\<close>: reads fill the buffer until it holds a line
  feed, the line up to it is taken, and what follows it in the buffer is lost with the buffer.
\<close>

fun read_line :: "string \<Rightarrow> string list \<Rightarrow> (string \<times> string list) option" where
  "read_line buf [] = None"
| "read_line buf (chunk # chunks) =
     (let buf' = buf @ chunk
      in if CHR 0x0A \<in> set buf' then Some (takeWhile (\<lambda>c. c \<noteq> CHR 0x0A) buf', chunks)
         else read_line buf' chunks)"

lemma read_line_length: "read_line buf chunks = Some (line, rest) \<Longrightarrow> length rest < length chunks"
  by (induction buf chunks rule: read_line.induct) (auto simp: Let_def split: if_splits)

definition process_line_if :: "(string \<Rightarrow> u64) \<Rightarrow> string \<Rightarrow> client_ui \<Rightarrow> client_ui option" where
  "process_line_if strtod line ui = (if line \<noteq> [] then process_incoming_line strtod line ui else Some ui)"

text \<open>\<open>drain_incoming\<close>: reads while something is available; the flag says whether a line was processed.\<close>

function drain_incoming :: "(string \<Rightarrow> u64) \<Rightarrow> string list \<Rightarrow> bool \<Rightarrow> client_ui \<Rightarrow> (bool \<times> client_ui) option" where
  "drain_incoming strtod chunks got_any ui =
     (case read_line [] chunks of
        None \<Rightarrow> Some (got_any, ui)
      | Some (line, rest) \<Rightarrow>
          (case process_line_if strtod line ui of
             None \<Rightarrow> None
           | Some ui' \<Rightarrow> drain_incoming strtod rest (got_any \<or> line \<noteq> []) ui'))"
  by pat_completeness auto

termination
  by (relation "measure (\<lambda>(_, chunks, _, _). length chunks)") (auto dest: read_line_length)

declare drain_incoming.simps [simp del]

text \<open>
  \<open>send_and_process_one\<close>: \<open>Inl\<close> when the payload cannot be written as text (the exception leaves
  \<open>main\<close>); else the line sent, whether the call returned true, and the interface. \<open>wrote\<close> is whether the
  socket took the line, \<open>chunks\<close> what it delivers afterwards.
\<close>

definition send_and_process_one ::
    "(u64 \<Rightarrow> string) \<Rightarrow> (string \<Rightarrow> u64) \<Rightarrow> json \<Rightarrow> bool \<Rightarrow> string list \<Rightarrow> client_ui \<Rightarrow> (string \<times> bool \<times> client_ui) option res" where
  "send_and_process_one ftoa strtod payload wrote chunks ui =
     bind_res (serialize_json ftoa payload) (\<lambda>sent. Inr (
       if \<not> wrote then Some (sent, False, ui)
       else
         case read_line [] chunks of
           None \<Rightarrow> Some (sent, False, ui)
         | Some (line, rest) \<Rightarrow>
             (case process_line_if strtod line ui of
                None \<Rightarrow> None
              | Some ui1 \<Rightarrow> map_option (\<lambda>(_, ui2). (sent, True, ui2)) (drain_incoming strtod rest False ui1))))"

section \<open>Lines from the console\<close>

datatype client_action = Quit | Request json | NoRequest

text \<open>\<open>iss >> s\<close>: the next word and the rest.\<close>

definition next_word :: "string \<Rightarrow> string \<times> string" where
  "next_word s = (let t = dropWhile isspace s in (takeWhile (Not \<circ> isspace) t, dropWhile (Not \<circ> isspace) t))"

definition auth_request :: "string \<Rightarrow> string \<Rightarrow> json" where
  "auth_request nick password =
     json_object [(''type'', JString ''auth''), (''nick'', JString nick), (''password'', JString password)]"

definition draw_request :: "string \<Rightarrow> json" where
  "draw_request action = json_object [(''type'', JString ''draw''), (''action'', JString action)]"

definition client_input :: "string \<Rightarrow> client_ui \<Rightarrow> client_action \<times> client_ui" where
  "client_input line ui =
     (if line = ''/quit'' then (Quit, ui)
      else if line = ''/queue'' then (Request (json_object [(''type'', JString ''queue'')]), ui\<lparr>ui_status := ''waiting''\<rparr>)
      else if line = ''/leaderboard'' then (Request (json_object [(''type'', JString ''leaderboard'')]), ui)
      else if line = ''/leave'' then (Request (json_object [(''type'', JString ''leave'')]), ui\<lparr>ui_status := ''menu''\<rparr>)
      else if take 6 line = ''/chat '' then
        (Request (json_object [(''type'', JString ''chat''), (''text'', JString (drop 6 line))]),
         push_feed (''me: '' @ drop 6 line) ui)
      else if take 6 line = ''/move '' then
        (let (from_sq, rest) = next_word (drop 6 line); (to_sq, _) = next_word rest
         in if from_sq = [] \<or> to_sq = [] then (NoRequest, push_feed ''[hint] usage: /move e2 e4'' ui)
            else (Request (json_object [(''type'', JString ''move''), (''from'', JString from_sq), (''to'', JString to_sq)]), ui))
      else if line = ''/draw'' then (Request (draw_request ''offer''), ui)
      else if line = ''/draw accept'' then (Request (draw_request ''accept''), ui)
      else if line = ''/draw decline'' then (Request (draw_request ''decline''), ui)
      else (NoRequest, push_feed ''[hint] unknown command'' ui))"

text \<open>
  One pass of the loop of \<open>main\<close> for a line of the console: the lines sent, whether the loop goes on, and
  the interface. \<open>client_start\<close> is what \<open>main\<close> does before the loop, \<open>None\<close> when it returns with an error.
\<close>

definition client_turn ::
    "(u64 \<Rightarrow> string) \<Rightarrow> (string \<Rightarrow> u64) \<Rightarrow> string \<Rightarrow> bool \<Rightarrow> string list \<Rightarrow> client_ui \<Rightarrow>
      (string list \<times> bool \<times> client_ui) option res" where
  "client_turn ftoa strtod line wrote chunks ui =
     (case client_input line ui of
        (Quit, ui') \<Rightarrow> Inr (Some ([], False, ui'))
      | (NoRequest, ui') \<Rightarrow> Inr (Some ([], True, ui'))
      | (Request j, ui') \<Rightarrow>
          bind_res (send_and_process_one ftoa strtod j wrote chunks ui') (\<lambda>r.
            Inr (map_option (\<lambda>(sent, go_on, ui''). ([sent], go_on, ui'')) r)))"

definition client_start ::
    "(u64 \<Rightarrow> string) \<Rightarrow> (string \<Rightarrow> u64) \<Rightarrow> string \<Rightarrow> string \<Rightarrow> bool \<Rightarrow> string list \<Rightarrow> client_ui option option res" where
  "client_start ftoa strtod nick password wrote chunks =
     (let ui = reset_board \<lparr>ui_board = replicate 8 (replicate 8 []), ui_feed = [], ui_nick = nick, ui_status = ''connected''\<rparr>
      in if nick = [] then Inr (Some None)
         else bind_res (send_and_process_one ftoa strtod (auth_request nick password) wrote chunks ui) (\<lambda>r.
           Inr (map_option (\<lambda>(_, ok, ui').
             if \<not> ok then None
             else Some (push_feed ''[hint] type commands in console, UI refreshes automatically''
                          (ui'\<lparr>ui_status := ''menu''\<rparr>))) r)))"

text \<open>\<open>InputQueue\<close>, filled by the input thread; each operation holds the mutex.\<close>

definition input_push :: "string \<Rightarrow> string list \<Rightarrow> string list" where
  "input_push s q = q @ [s]"

definition input_pop :: "string list \<Rightarrow> (string \<times> string list) option" where
  "input_pop q = (case q of [] \<Rightarrow> None | s # q' \<Rightarrow> Some (s, q'))"

end
