(* ===== verification/ClientBoard.thy ===== *)
theory ClientBoard
  imports Client
begin

text \<open>
  What the client draws from the FEN that the server sends: the picture of the position. A digit
  of the text and the squares it stands for, a letter and its square are both sequences of
  assignments to cells, so the loop over the text is a loop over the squares.
\<close>

definition glyph_at :: "pieces \<Rightarrow> nat \<Rightarrow> string" where
  "glyph_at p sq =
     (if color_at p sq = 255 then empty_cell else glyph_of_letter (piece_char (color_at p sq) (piece_at p sq)))"

definition picture :: "pieces \<Rightarrow> cells" where
  "picture p = map (\<lambda>y. map (\<lambda>x. glyph_at p (y * 8 + x)) [0..<8]) [0..<8]"

definition is_board :: "cells \<Rightarrow> bool" where
  "is_board b \<longleftrightarrow> length b = 8 \<and> list_all (\<lambda>r. length r = 8) b"

definition put_at :: "nat \<Rightarrow> nat \<Rightarrow> string \<Rightarrow> cells \<Rightarrow> cells" where
  "put_at y x g b = b[y := (b ! y)[x := g]]"

lemma is_board_row: "is_board b \<Longrightarrow> y < 8 \<Longrightarrow> length (b ! y) = 8"
  by (simp add: is_board_def list_all_length)

lemma is_board_put_at [simp]: "is_board b \<Longrightarrow> y < 8 \<Longrightarrow> is_board (put_at y x g b)"
  by (auto simp: put_at_def is_board_def list_all_length nth_list_update)

lemma cell_put_at:
  "is_board b \<Longrightarrow> y < 8 \<Longrightarrow> x < 8 \<Longrightarrow> cell (put_at y x g b) y' x' = (if y' = y \<and> x' = x then g else cell b y' x')"
  by (auto simp: put_at_def cell_def nth_list_update is_board_row is_board_def list_all_length)

lemma put_cell_in: "y < 8 \<Longrightarrow> x < 8 \<Longrightarrow> put_cell (int y) (int x) g b = Some (put_at y x g b)"
  by (simp add: put_cell_def put_at_def)

lemma put_empty_run:
  "y < 8 \<Longrightarrow> x + n \<le> 8 \<Longrightarrow> put_empty n (int y) (int x) b = Some (fold (\<lambda>x. put_at y x empty_cell) [x..<x + n] b)"
proof (induction n arbitrary: x b)
  case (Suc n)
  have "put_empty (Suc n) (int y) (int x) b = put_empty n (int y) (int (Suc x)) (put_at y x empty_cell b)"
    using Suc.prems by (simp add: put_cell_in add.commute)
  also have "\<dots> = Some (fold (\<lambda>x. put_at y x empty_cell) [Suc x..<Suc x + n] (put_at y x empty_cell b))"
    using Suc.prems by (intro Suc.IH) simp_all
  also have "\<dots> = Some (fold (\<lambda>x. put_at y x empty_cell) [x..<x + Suc n] b)"
    using upt_conv_Cons [of x "x + Suc n"] by (simp del: upt_Suc)
  finally show ?case .
qed simp

definition draw_square :: "pieces \<Rightarrow> nat \<Rightarrow> nat \<Rightarrow> cells \<Rightarrow> cells" where
  "draw_square p y x = put_at y x (glyph_at p (y * 8 + x))"

text \<open>A run of empty squares before \<open>x\<close>, written as a digit.\<close>

lemma fen_cells_flush:
  assumes "y < 8" "x \<le> 8" "e \<le> x" "\<And>i. x - e \<le> i \<Longrightarrow> i < x \<Longrightarrow> color_at p (y * 8 + i) = 255"
  shows "fen_cells (flush_empty e @ rest) (int y) (int (x - e)) b =
    fen_cells rest (int y) (int x) (fold (draw_square p y) [x - e..<x] b)"
proof (cases "e = 0")
  case False
  have e: "e < 10" using assms(2,3) by simp
  have "fold (\<lambda>x. put_at y x empty_cell) [x - e..<x] b = fold (draw_square p y) [x - e..<x] b"
    by (rule fold_cong) (simp_all add: draw_square_def glyph_at_def assms(4))
  then show ?thesis
    using False e digit_facts [OF e] digit_char [OF e] put_empty_run [of y "x - e" e b] assms(1,2,3)
    by (simp add: flush_empty_def to_string_digit of_nat_diff)
qed (simp add: flush_empty_def)

lemma fen_cells_row:
  assumes "wf_pieces p" "y < 8"
  shows "x \<le> 8 \<Longrightarrow> e \<le> x \<Longrightarrow> (\<And>i. x - e \<le> i \<Longrightarrow> i < x \<Longrightarrow> color_at p (y * 8 + i) = 255) \<Longrightarrow>
    fen_cells (fen_row p y [x..<8] e @ rest) (int y) (int (x - e)) b =
    fen_cells rest (int y) 8 (fold (draw_square p y) [x - e..<8] b)"
proof (induction "8 - x" arbitrary: x e b)
  case 0
  then show ?case using fen_cells_flush [of y 8 e p rest b] assms(2) by simp
next
  case (Suc k)
  then have x: "x < 8" by simp
  then have upt: "[x..<8] = x # [Suc x..<8]" by (rule upt_conv_Cons)
  show ?case
  proof (cases "board p (y * 8 + x)")
    case None
    then have c: "color_at p (y * 8 + x) = 255" using assms(1) by (simp add: color_at_board)
    have "color_at p (y * 8 + i) = 255" if "Suc x - (e + 1) \<le> i" "i < Suc x" for i
      using that Suc.prems(3) [of i] c by (cases "i = x") auto
    then have "fen_cells (fen_row p y [Suc x..<8] (e + 1) @ rest) (int y) (int (Suc x - (e + 1))) b =
        fen_cells rest (int y) 8 (fold (draw_square p y) [Suc x - (e + 1)..<8] b)"
      using Suc.hyps(1) [of "Suc x" "e + 1" b] Suc.hyps(2) Suc.prems x by simp
    then show ?thesis by (simp add: upt Let_def c)
  next
    case (Some st)
    obtain s t where st: "st = (s, t)" by (cases st)
    with Some board_SomeD have b: "s < 2" "t < 6" by auto
    note f = piece_char_facts [OF b]
    have g: "glyph_of_letter (piece_char s t) = glyph_at p (y * 8 + x)"
      using assms(1) Some st b by (simp add: glyph_at_def color_at_board piece_at_board)
    let ?b1 = "fold (draw_square p y) [x - e..<x] b"
    have "fen_cells (fen_row p y [x..<8] e @ rest) (int y) (int (x - e)) b =
        fen_cells (flush_empty e @ piece_char s t # fen_row p y [Suc x..<8] 0 @ rest) (int y) (int (x - e)) b"
      using assms(1) b by (simp add: upt Let_def color_at_board piece_at_board Some st)
    also have "\<dots> = fen_cells (piece_char s t # fen_row p y [Suc x..<8] 0 @ rest) (int y) (int x) ?b1"
      using fen_cells_flush [OF assms(2) _ Suc.prems(2,3)] x by simp
    also have "\<dots> = fen_cells (fen_row p y [Suc x..<8] 0 @ rest) (int y) (int (Suc x)) (draw_square p y x ?b1)"
      using f(1,2) x assms(2) by (simp add: put_cell_in draw_square_def g add.commute)
    also have "\<dots> = fen_cells rest (int y) 8 (fold (draw_square p y) [Suc x..<8] (draw_square p y x ?b1))"
      using Suc.hyps(1) [of "Suc x" 0] Suc.hyps(2) x by simp
    also have "fold (draw_square p y) [Suc x..<8] (draw_square p y x ?b1) = fold (draw_square p y) [x - e..<8] b"
    proof -
      have "[x - e..<8] = [x - e..<x] @ x # [Suc x..<8]"
        using x Suc.prems(2) upt_add_eq_append [of "x - e" x "8 - x"] by (simp add: upt)
      then show ?thesis by simp
    qed
    finally show ?thesis .
  qed
qed

lemma fen_cells_rows:
  assumes "wf_pieces p" "n \<le> 8" "n > 0"
  shows "fen_cells (concat (map (\<lambda>y. fen_row p y [0..<8] 0 @ (if y > 0 then ''/'' else [])) (rev [0..<n]))) (int (n - 1)) 0 b =
    Some (fold (\<lambda>y. fold (draw_square p y) [0..<8]) (rev [0..<n]) b)"
  using assms(2,3)
proof (induction n arbitrary: b)
  case (Suc n)
  note row = fen_cells_row [OF assms(1), of n 0 0, simplified]
  show ?case
  proof (cases "n = 0")
    case True
    then show ?thesis using row [of "[]" b] Suc.prems by simp
  next
    case False
    have "fen_cells (fen_row p n [0..<8] 0 @ ''/'' @ rest) (int n) 0 b =
        fen_cells rest (int (n - 1)) 0 (fold (draw_square p n) [0..<8] b)" for rest
      using row [of "''/'' @ rest" b] Suc.prems False by (simp add: of_nat_diff)
    then show ?thesis using Suc.IH Suc.prems False by simp
  qed
qed simp

lemma draw_row:
  "is_board b \<Longrightarrow> y < 8 \<Longrightarrow> list_all (\<lambda>x. x < 8) xs \<Longrightarrow> is_board (fold (draw_square p y) xs b) \<and>
     (\<forall>y' x'. cell (fold (draw_square p y) xs b) y' x' =
        (if y' = y \<and> x' \<in> set xs then glyph_at p (y * 8 + x') else cell b y' x'))"
  by (induction xs arbitrary: b) (auto simp: draw_square_def cell_put_at)

lemma draw_rows:
  "is_board b \<Longrightarrow> list_all (\<lambda>y. y < 8) ys \<Longrightarrow>
     is_board (fold (\<lambda>y. fold (draw_square p y) [0..<8]) ys b) \<and>
     (\<forall>y' x'. x' < 8 \<longrightarrow> cell (fold (\<lambda>y. fold (draw_square p y) [0..<8]) ys b) y' x' =
        (if y' \<in> set ys then glyph_at p (y' * 8 + x') else cell b y' x'))"
proof (induction ys arbitrary: b)
  case (Cons y ys)
  have "list_all (\<lambda>x. x < 8) [0..<8]" by (simp add: list_all_iff)
  then show ?case using Cons draw_row [of b y "[0..<8]" p] by auto
qed simp

lemma is_board_eqI:
  "is_board b \<Longrightarrow> is_board b' \<Longrightarrow> (\<And>y x. y < 8 \<Longrightarrow> x < 8 \<Longrightarrow> cell b y x = cell b' y x) \<Longrightarrow> b = b'"
  by (rule nth_equalityI) (auto simp: is_board_def cell_def list_all_length intro!: nth_equalityI)

lemma cell_picture: "y < 8 \<Longrightarrow> x < 8 \<Longrightarrow> cell (picture p) y x = glyph_at p (y * 8 + x)"
  by (simp add: cell_def picture_def)

lemma is_board_picture [simp]: "is_board (picture p)"
  by (simp add: is_board_def picture_def list_all_iff)

lemma client_draws_placement:
  assumes "wf_pieces (pieces_of pos)" "is_board b"
  shows "update_board_from_fen (get_fen pos) b = Some (picture (pieces_of pos))"
proof -
  let ?p = "pieces_of pos" and ?b = "fold (\<lambda>y. fold (draw_square (pieces_of pos) y) [0..<8]) (rev [0..<8]) b"
  obtain rest where rest: "get_fen pos = fen_placement ?p @ CHR '' '' # rest" using get_fen_field by blast
  have "takeWhile (\<lambda>c. c \<noteq> CHR '' '') (get_fen pos) = fen_placement ?p"
    unfolding rest by (rule takeWhile_field) (use placement_no_space [of "CHR '' ''"] in \<open>auto simp: isspace_def\<close>)
  then have "update_board_from_fen (get_fen pos) b = Some ?b"
    using fen_cells_rows [OF assms(1), of 8 b] by (simp only: update_board_from_fen_def fen_placement_def) simp
  moreover have "list_all (\<lambda>y. y < 8) (rev [0..<8])" by (simp add: list_all_iff)
  then have "?b = picture ?p"
    using draw_rows [OF assms(2), of "rev [0..<8]" ?p] by (intro is_board_eqI) (auto simp: cell_picture)
  ultimately show ?thesis by simp
qed

end
