(* ===== verification/ServerInv.thy ===== *)
theory ServerInv
  imports Server "HOL-Library.Multiset"
begin

text \<open>
  The invariant of the server: who may be queued, who is in a room, and with whom; every
  command of every session keeps it. Also the rating formula and what a move does to a room.
\<close>

section \<open>What the operations leave alone\<close>

text \<open>The part of a world that messages and database calls do not touch.\<close>

definition core :: "world \<Rightarrow> (nat \<Rightarrow> player) \<times> nat list \<times> nat list \<times> room list" where
  "core w = (players w, all_players w, queue w, rooms w)"

lemma send_fields [simp]:
  "players (send p m w) = players w" "all_players (send p m w) = all_players w"
  "queue (send p m w) = queue w" "rooms (send p m w) = rooms w"
  by (simp_all add: send_def)

lemma send_opt_fields [simp]:
  "players (send_opt p m w) = players w" "all_players (send_opt p m w) = all_players w"
  "queue (send_opt p m w) = queue w" "rooms (send_opt p m w) = rooms w"
  by (simp_all add: send_opt_def split: option.splits)

lemma broadcast_fields [simp]:
  "players (broadcast r m w) = players w" "all_players (broadcast r m w) = all_players w"
  "queue (broadcast r m w) = queue w" "rooms (broadcast r m w) = rooms w"
  by (simp_all add: broadcast_def)

lemma log_db_fields [simp]:
  "players (log_db c w) = players w" "all_players (log_db c w) = all_players w"
  "queue (log_db c w) = queue w" "rooms (log_db c w) = rooms w"
  by (simp_all add: log_db_def)

lemma set_player_fields [simp]:
  "players (set_player p f w) q = (if q = p then f (players w p) else players w q)"
  "all_players (set_player p f w) = all_players w"
  "queue (set_player p f w) = queue w" "rooms (set_player p f w) = rooms w"
  by (simp_all add: set_player_def)

lemma set_room_fields [simp]:
  "players (set_room p r w) q = (if q = p then (players w p)\<lparr>p_room := r\<rparr> else players w q)"
  "all_players (set_room p r w) = all_players w"
  "queue (set_room p r w) = queue w" "rooms (set_room p r w) = rooms w"
  by (simp_all add: set_room_def)

lemma set_room_opt_fields [simp]:
  "players (set_room_opt p r w) q = (if Some q = p then (players w q)\<lparr>p_room := r\<rparr> else players w q)"
  "all_players (set_room_opt p r w) = all_players w"
  "queue (set_room_opt p r w) = queue w" "rooms (set_room_opt p r w) = rooms w"
  by (simp_all add: set_room_opt_def split: option.splits)

lemma update_room_fields [simp]:
  "players (update_room rid f w) = players w" "all_players (update_room rid f w) = all_players w"
  "queue (update_room rid f w) = queue w"
  by (simp_all add: update_room_def)

lemma start_room_fields [simp]:
  "players (start_room rid w) = players w" "all_players (start_room rid w) = all_players w"
  "queue (start_room rid w) = queue w" "rooms (start_room rid w) = rooms w"
  by (simp_all add: start_room_def Let_def)

lemma on_chat_fields [simp]:
  "players (on_chat rid p m w) = players w" "all_players (on_chat rid p m w) = all_players w"
  "queue (on_chat rid p m w) = queue w" "rooms (on_chat rid p m w) = rooms w"
  by (simp_all add: on_chat_def split: option.splits)

lemma update_rating_fields [simp]:
  "p_room (players (update_rating a b w) q) = p_room (players w q)"
  "p_in_queue (players (update_rating a b w) q) = p_in_queue (players w q)"
  "p_authorized (players (update_rating a b w) q) = p_authorized (players w q)"
  "p_nick (players (update_rating a b w) q) = p_nick (players w q)"
  "p_user_id (players (update_rating a b w) q) = p_user_id (players w q)"
  "all_players (update_rating a b w) = all_players w" "queue (update_rating a b w) = queue w"
  "rooms (update_rating a b w) = rooms w"
  by (simp_all add: update_rating_def Let_def)

lemma end_game_fields [simp]:
  "p_room (players (end_game rid res win w) q) = (if has (rooms w ! rid) q then None else p_room (players w q))"
  "p_in_queue (players (end_game rid res win w) q) = p_in_queue (players w q)"
  "p_authorized (players (end_game rid res win w) q) = p_authorized (players w q)"
  "all_players (end_game rid res win w) = all_players w" "queue (end_game rid res win w) = queue w"
  "rooms (end_game rid res win w) = rooms w"
  by (auto simp: end_game_def Let_def has_def split: option.splits)

lemma room_disconnect_fields [simp]:
  "p_room (players (room_disconnect rid p w) q) =
     (if has (rooms w ! rid) q \<or> opponent_of (rooms w ! rid) p = Some q then None else p_room (players w q))"
  "p_in_queue (players (room_disconnect rid p w) q) = p_in_queue (players w q)"
  "p_authorized (players (room_disconnect rid p w) q) = p_authorized (players w q)"
  "all_players (room_disconnect rid p w) = all_players w" "queue (room_disconnect rid p w) = queue w"
  "rooms (room_disconnect rid p w) = rooms w"
  by (auto simp: room_disconnect_def Let_def has_def split: option.splits)

lemma fold_send_fields:
  "players (fold (\<lambda>p w'. if P p w' then send p m w' else w') ps w) = players w \<and>
   all_players (fold (\<lambda>p w'. if P p w' then send p m w' else w') ps w) = all_players w \<and>
   queue (fold (\<lambda>p w'. if P p w' then send p m w' else w') ps w) = queue w \<and>
   rooms (fold (\<lambda>p w'. if P p w' then send p m w' else w') ps w) = rooms w"
  by (induction ps arbitrary: w) simp_all

lemma broadcast_queue_size_fields [simp]:
  "players (broadcast_queue_size w) = players w" "all_players (broadcast_queue_size w) = all_players w"
  "queue (broadcast_queue_size w) = queue w" "rooms (broadcast_queue_size w) = rooms w"
  using fold_send_fields [of "\<lambda>p w'. p_authorized (players w' p)"] by (simp_all add: broadcast_queue_size_def)

lemma remove_from_queue_fields [simp]:
  "p_room (players (remove_from_queue p w) q) = p_room (players w q)"
  "p_authorized (players (remove_from_queue p w) q) = p_authorized (players w q)"
  "p_rating (players (remove_from_queue p w) q) = p_rating (players w q)"
  "p_nick (players (remove_from_queue p w) q) = p_nick (players w q)"
  "p_in_queue (players (remove_from_queue p w) q) = (p_in_queue (players w q) \<and> q \<noteq> p)"
  "all_players (remove_from_queue p w) = all_players w" "rooms (remove_from_queue p w) = rooms w"
  "queue (remove_from_queue p w) = (if p_in_queue (players w p) then remove1 p (queue w) else queue w)"
  by (auto simp: remove_from_queue_def)

section \<open>The invariant\<close>

text \<open>
  The queue holds each waiting player once, and never two players between requests; a player
  with a room is one of its two distinct players, and the other one is in it too.
\<close>

definition queue_inv :: "world \<Rightarrow> bool" where
  "queue_inv w \<longleftrightarrow> distinct (queue w) \<and> (\<forall>p. p_in_queue (players w p) \<longleftrightarrow> p \<in> set (queue w)) \<and>
     (\<forall>p \<in> set (queue w). p_room (players w p) = None \<and> p_authorized (players w p))"

definition room_inv :: "world \<Rightarrow> bool" where
  "room_inv w \<longleftrightarrow> (\<forall>p rid. p_room (players w p) = Some rid \<longrightarrow>
     rid < length (rooms w) \<and> has (rooms w ! rid) p \<and> p_authorized (players w p) \<and>
     (\<exists>q. q \<noteq> p \<and> opponent_of (rooms w ! rid) p = Some q \<and> p_room (players w q) = Some rid))"

definition world_inv :: "world \<Rightarrow> bool" where
  "world_inv w \<longleftrightarrow> queue_inv w \<and> room_inv w \<and> length (queue w) \<le> 1"

lemma opponent_has: "opponent_of r p = Some q \<Longrightarrow> has r q"
  by (auto simp: opponent_of_def has_def split: if_splits)

text \<open>Steps that touch no player's queue mark, room or authorization, and no room's players.\<close>

definition same_links :: "world \<Rightarrow> world \<Rightarrow> bool" where
  "same_links w w' \<longleftrightarrow> queue w' = queue w \<and>
     (\<forall>p. p_in_queue (players w' p) = p_in_queue (players w p) \<and> p_room (players w' p) = p_room (players w p) \<and>
          (p_authorized (players w p) \<longrightarrow> p_authorized (players w' p))) \<and>
     map (\<lambda>r. (r_white r, r_black r)) (rooms w') = map (\<lambda>r. (r_white r, r_black r)) (rooms w)"

lemma same_links_room:
  assumes "same_links w w'" "rid < length (rooms w)"
  shows "r_white (rooms w' ! rid) = r_white (rooms w ! rid)" "r_black (rooms w' ! rid) = r_black (rooms w ! rid)"
    "length (rooms w') = length (rooms w)"
proof -
  have m: "map (\<lambda>r. (r_white r, r_black r)) (rooms w') = map (\<lambda>r. (r_white r, r_black r)) (rooms w)"
    using assms(1) by (simp add: same_links_def)
  then show l: "length (rooms w') = length (rooms w)" by (rule map_eq_imp_length_eq)
  have "(\<lambda>r. (r_white r, r_black r)) (rooms w' ! rid) = (\<lambda>r. (r_white r, r_black r)) (rooms w ! rid)"
    using arg_cong [OF m, of "\<lambda>xs. xs ! rid"] assms(2) l by (metis nth_map)
  then show "r_white (rooms w' ! rid) = r_white (rooms w ! rid)" "r_black (rooms w' ! rid) = r_black (rooms w ! rid)"
    by simp_all
qed

lemma same_links_inv:
  assumes "same_links w w'" "world_inv w"
  shows "world_inv w'"
proof -
  have q: "queue_inv w'" "length (queue w') \<le> 1"
    using assms by (auto simp: same_links_def world_inv_def queue_inv_def)
  have "room_inv w'"
    unfolding room_inv_def
  proof (intro allI impI)
    fix p rid assume "p_room (players w' p) = Some rid"
    then have r: "p_room (players w p) = Some rid" using assms(1) by (simp add: same_links_def)
    then obtain q where q: "rid < length (rooms w)" "has (rooms w ! rid) p" "p_authorized (players w p)" "q \<noteq> p"
      "opponent_of (rooms w ! rid) p = Some q" "p_room (players w q) = Some rid"
      using assms(2) unfolding world_inv_def room_inv_def by blast
    then show "rid < length (rooms w') \<and> has (rooms w' ! rid) p \<and> p_authorized (players w' p) \<and>
      (\<exists>q. q \<noteq> p \<and> opponent_of (rooms w' ! rid) p = Some q \<and> p_room (players w' q) = Some rid)"
      using same_links_room [OF assms(1) q(1)] assms(1)
      by (auto simp: has_def opponent_of_def same_links_def)
  qed
  with q show ?thesis by (simp add: world_inv_def)
qed

section \<open>Every command keeps the invariant\<close>

lemma same_links_refl_core:
  "players w' = players w \<Longrightarrow> queue w' = queue w \<Longrightarrow> rooms w' = rooms w \<Longrightarrow> same_links w w'"
  by (simp add: same_links_def)

lemma same_links_send [simp, intro]: "same_links w (send p m w)"
  by (rule same_links_refl_core) simp_all

lemma same_links_trans: "same_links u v \<Longrightarrow> same_links v w \<Longrightarrow> same_links u w"
  by (simp add: same_links_def)

lemma same_links_update_room:
  "(\<And>r. r_white (f r) = r_white r \<and> r_black (f r) = r_black r) \<Longrightarrow> same_links w (update_room rid f w)"
proof -
  assume f: "\<And>r. r_white (f r) = r_white r \<and> r_black (f r) = r_black r"
  have "map (\<lambda>r. (r_white r, r_black r)) ((rooms w)[rid := f (rooms w ! rid)]) = map (\<lambda>r. (r_white r, r_black r)) (rooms w)"
  proof (intro nth_equalityI)
    fix i assume "i < length (map (\<lambda>r. (r_white r, r_black r)) ((rooms w)[rid := f (rooms w ! rid)]))"
    then show "map (\<lambda>r. (r_white r, r_black r)) ((rooms w)[rid := f (rooms w ! rid)]) ! i =
        map (\<lambda>r. (r_white r, r_black r)) (rooms w) ! i"
      using f by (cases "i = rid") auto
  qed simp
  then show ?thesis by (simp add: same_links_def update_room_def)
qed

lemma room_members:
  assumes "world_inv w" "p_room (players w p) = Some rid" "has (rooms w ! rid) q"
  shows "p_room (players w q) = Some rid"
proof -
  obtain q' where "has (rooms w ! rid) p" "opponent_of (rooms w ! rid) p = Some q'" "p_room (players w q') = Some rid"
    using assms(1,2) unfolding world_inv_def room_inv_def by blast
  then have "q = p \<or> q = q'" using assms(3) unfolding opponent_of_def has_def by (metis option.inject)
  then show ?thesis using assms(2) \<open>p_room (players w q') = Some rid\<close> by auto
qed

text \<open>Ending a game takes both players out of their room.\<close>

lemma clear_room_inv:
  assumes "world_inv w" "p_room (players w p0) = Some rid"
    and "queue w' = queue w" "rooms w' = rooms w"
    and "\<And>p. p_in_queue (players w' p) = p_in_queue (players w p)"
    and "\<And>p. p_authorized (players w' p) = p_authorized (players w p)"
    and "\<And>p. p_room (players w' p) = (if has (rooms w ! rid) p then None else p_room (players w p))"
  shows "world_inv w'"
proof -
  have q: "queue_inv w'" "length (queue w') \<le> 1"
    using assms by (auto simp: world_inv_def queue_inv_def)
  have "room_inv w'"
    unfolding room_inv_def
  proof (intro allI impI)
    fix p rid' assume "p_room (players w' p) = Some rid'"
    then have r: "p_room (players w p) = Some rid'" "\<not> has (rooms w ! rid) p"
      using assms(7) by (auto split: if_splits)
    then obtain q where q: "rid' < length (rooms w)" "has (rooms w ! rid') p" "p_authorized (players w p)" "q \<noteq> p"
      "opponent_of (rooms w ! rid') p = Some q" "p_room (players w q) = Some rid'"
      using assms(1) unfolding world_inv_def room_inv_def by blast
    have "\<not> has (rooms w ! rid) q"
      using room_members [OF assms(1,2), of q] q r by auto
    then show "rid' < length (rooms w') \<and> has (rooms w' ! rid') p \<and> p_authorized (players w' p) \<and>
      (\<exists>q. q \<noteq> p \<and> opponent_of (rooms w' ! rid') p = Some q \<and> p_room (players w' q) = Some rid')"
      using q assms(4,6,7) by auto
  qed
  with q show ?thesis by (simp add: world_inv_def)
qed

lemma end_game_inv:
  "world_inv w \<Longrightarrow> p_room (players w p) = Some rid \<Longrightarrow> world_inv (end_game rid res win w)"
  by (rule clear_room_inv [of w p rid]) simp_all

lemma room_disconnect_inv:
  assumes "world_inv w" "p_room (players w p) = Some rid"
  shows "world_inv (room_disconnect rid p w)"
proof (rule clear_room_inv [OF assms])
  fix q show "p_room (players (room_disconnect rid p w) q) = (if has (rooms w ! rid) q then None else p_room (players w q))"
    using opponent_has by auto
qed simp_all

lemma remove_from_queue_inv:
  assumes "world_inv w"
  shows "world_inv (remove_from_queue p w)"
proof -
  have "length (remove1 p (queue w)) \<le> length (queue w)" by (simp add: length_remove1)
  then show ?thesis
    using assms unfolding world_inv_def queue_inv_def room_inv_def by auto
qed

lemma set_room_None_inv:
  "world_inv w \<Longrightarrow> p_room (players w p) = None \<Longrightarrow> world_inv (set_room p None w)"
  by (erule same_links_inv [rotated]) (auto simp: same_links_def)

lemma room_leave_inv: "world_inv w \<Longrightarrow> world_inv (room_leave p w)"
  by (auto simp: room_leave_def room_disconnect_inv split: option.splits)

lemma room_leave_room: "world_inv w \<Longrightarrow> p_room (players (room_leave p w) p) = None"
proof (cases "p_room (players w p)")
  case (Some rid)
  assume "world_inv w"
  then have "has (rooms w ! rid) p" using Some unfolding world_inv_def room_inv_def by blast
  then show ?thesis using Some by (simp add: room_leave_def)
qed (simp add: room_leave_def)

lemma handle_leave_inv: "world_inv w \<Longrightarrow> world_inv (handle_leave p w)"
  unfolding handle_leave_def
  by (intro same_links_inv [OF same_links_send] set_room_None_inv room_leave_inv remove_from_queue_inv room_leave_room)

lemma on_disconnect_inv: "world_inv w \<Longrightarrow> world_inv (on_disconnect p w)"
proof -
  assume "world_inv w"
  then have i: "world_inv (room_leave p (remove_from_queue p w))" by (intro room_leave_inv remove_from_queue_inv)
  show ?thesis
    by (rule same_links_inv [OF _ i]) (auto simp: same_links_def on_disconnect_def Let_def)
qed

lemma handle_auth_inv: "world_inv w \<Longrightarrow> world_inv (handle_auth login p nick pw w)"
  by (erule same_links_inv [rotated]) (auto simp: same_links_def handle_auth_def Let_def split: option.splits)

lemma handle_chat_inv: "world_inv w \<Longrightarrow> world_inv (handle_chat p txt w)"
  by (erule same_links_inv [rotated]) (auto simp: same_links_def handle_chat_def split: option.splits)

lemma handle_leaderboard_inv: "world_inv w \<Longrightarrow> world_inv (handle_leaderboard leaders p w)"
  by (erule same_links_inv [rotated]) (auto simp: same_links_def handle_leaderboard_def)

lemma after_move_inv:
  "world_inv w \<Longrightarrow> p_room (players w p) = Some rid \<Longrightarrow> world_inv (after_move rid w)"
  unfolding after_move_def Let_def
  by (auto intro: end_game_inv same_links_inv [OF same_links_refl_core])

lemma on_move_inv:
  assumes "world_inv w" "p_room (players w p) = Some rid"
  shows "world_inv (snd (on_move rid p f t pr w))"
proof -
  have pos: "world_inv (update_room rid (\<lambda>r. r\<lparr>r_position := pos'\<rparr>) w)" for pos'
    by (rule same_links_inv [OF same_links_update_room assms(1)]) simp
  have bc: "world_inv (broadcast r m (update_room rid (\<lambda>r. r\<lparr>r_position := pos'\<rparr>) w))" for r m pos'
    by (rule same_links_inv [OF same_links_refl_core pos]) simp_all
  have "world_inv (after_move rid (broadcast r m (update_room rid (\<lambda>r. r\<lparr>r_position := pos'\<rparr>) w)))" for r m pos'
    by (rule after_move_inv [OF bc, where p = p]) (simp add: assms(2))
  then show ?thesis
    using assms(1) pos
    by (auto simp: on_move_def Let_def intro: same_links_inv [OF same_links_send]
        split: sum.splits option.splits prod.splits bool.splits)
qed

lemma handle_move_inv: "world_inv w \<Longrightarrow> world_inv (handle_move p f t pr w)"
  by (auto simp: handle_move_def intro: on_move_inv same_links_inv [OF same_links_send] split: option.splits)

lemma draw_request_links: "same_links w (on_draw_request rid p w)"
proof -
  have "same_links w (update_room rid (\<lambda>r. r\<lparr>draw_offer_white := True\<rparr>) w)"
    "same_links w (update_room rid (\<lambda>r. r\<lparr>draw_offer_black := True\<rparr>) w)" "same_links w w"
    by (rule same_links_update_room same_links_refl_core; simp)+
  then show ?thesis
    by (auto simp: on_draw_request_def Let_def intro: same_links_trans [OF _ same_links_send] split: option.splits)
qed

lemma draw_decline_links: "same_links w (snd (on_draw_decline rid p w))"
proof -
  have u: "same_links w (update_room rid (\<lambda>r. r\<lparr>draw_offer_white := False\<rparr>) w)"
    "same_links w (update_room rid (\<lambda>r. r\<lparr>draw_offer_black := False\<rparr>) w)" "same_links w w"
    by (rule same_links_update_room same_links_refl_core; simp)+
  have "same_links v (send_opt q m v)" for v q m by (rule same_links_refl_core) simp_all
  then show ?thesis using u by (auto simp: on_draw_decline_def Let_def intro: same_links_trans)
qed

lemma world_inv_send: "world_inv w \<Longrightarrow> world_inv (send p m w)"
  by (rule same_links_inv [OF same_links_send])

lemma handle_draw_inv:
  assumes "world_inv w"
  shows "world_inv (handle_draw p action w)"
proof (cases "p_room (players w p)")
  case None
  then show ?thesis using assms by (simp add: handle_draw_def world_inv_send)
next
  case (Some rid)
  obtain b w1 where a: "on_draw_accept rid p w = (b, w1)" by (metis surj_pair)
  obtain c w2 where d: "on_draw_decline rid p w = (c, w2)" by (metis surj_pair)
  have "world_inv (snd (on_draw_accept rid p w))"
    using assms Some by (auto simp: on_draw_accept_def Let_def intro: end_game_inv)
  moreover have "world_inv (snd (on_draw_decline rid p w))"
    by (rule same_links_inv [OF draw_decline_links assms])
  moreover have "world_inv (on_draw_request rid p w)"
    by (rule same_links_inv [OF draw_request_links assms])
  ultimately show ?thesis
    using assms by (simp add: handle_draw_def Some Let_def a d world_inv_send split: bool.split)
qed

section \<open>Matchmaking\<close>

definition sorts :: "((nat \<Rightarrow> int) \<Rightarrow> nat list \<Rightarrow> nat list) \<Rightarrow> bool" where
  "sorts srt \<longleftrightarrow> (\<forall>f xs. mset (srt f xs) = mset xs \<and> sorted (map f (srt f xs)))"

text \<open>
  The candidates are sorted by rating, so the one next to the first is already the closest: the
  loop never finds a better one.
\<close>

lemma best_loop_sorted:
  "\<forall>r \<in> set rs. d \<le> \<bar>r - first\<bar> \<Longrightarrow> best_loop first rs i d k = k"
  by (induction rs arbitrary: i) (auto simp: Let_def)

lemma matchmake_pair:
  assumes "sorts srt" "2 \<le> length (queue w)"
  defines "c \<equiv> srt (\<lambda>p. p_rating (players w p)) (queue w)"
  shows "try_matchmake srt pos w = start_match (c ! 0) (c ! 1) pos w"
proof -
  let ?r = "\<lambda>p. p_rating (players w p)"
  have m: "mset c = mset (queue w)" and s: "sorted (map ?r c)" using assms(1) by (auto simp: sorts_def c_def)
  have "length c = length (queue w)" using m by (metis size_mset)
  then obtain a b cs where c: "c = a # b # cs" using assms(2)
    by (cases c; cases "tl c") auto
  have "\<forall>r \<in> set (map ?r cs). \<bar>?r b - ?r a\<bar> \<le> \<bar>r - ?r a\<bar>" using s c by auto
  then have "best_loop (?r a) (map ?r cs) 2 \<bar>?r b - ?r a\<bar> 1 = 1" by (rule best_loop_sorted)
  then show ?thesis using assms(2) c by (simp add: try_matchmake_def Let_def c_def [symmetric])
qed

lemma start_match_inv:
  assumes "room_inv w" "queue_inv w" "set (queue w) = {a, b}" "a \<noteq> b"
  shows "world_inv (start_match a b pos w)"
proof -
  let ?w = "start_match a b pos w"
  have ab: "p_room (players w a) = None" "p_room (players w b) = None" "p_in_queue (players w a)" "p_in_queue (players w b)"
    "p_authorized (players w a)" "p_authorized (players w b)"
    using assms(2,3) by (auto simp: queue_inv_def)
  have q: "queue ?w = []"
  proof -
    have "distinct (queue w)" using assms(2) by (simp add: queue_inv_def)
    then have "set (remove1 b (remove1 a (queue w))) = {}" using assms(3) by (simp add: set_remove1_eq distinct_remove1)
    then show ?thesis using ab assms(4) by (simp add: start_match_def Let_def)
  qed
  have iq: "p_in_queue (players ?w p) = False" for p
    using assms(2,3) ab by (auto simp: start_match_def Let_def queue_inv_def)
  have rooms: "rooms ?w = rooms w @ [new_room a b pos]" by (simp add: start_match_def Let_def)
  have pr: "p_room (players ?w p) = (if p = a \<or> p = b then Some (length (rooms w)) else p_room (players w p))"
    and pa: "p_authorized (players ?w p) = p_authorized (players w p)" for p
    by (auto simp: start_match_def Let_def)
  have "room_inv ?w"
    unfolding room_inv_def
  proof (intro allI impI)
    fix p rid assume r: "p_room (players ?w p) = Some rid"
    show "rid < length (rooms ?w) \<and> has (rooms ?w ! rid) p \<and> p_authorized (players ?w p) \<and>
      (\<exists>q. q \<noteq> p \<and> opponent_of (rooms ?w ! rid) p = Some q \<and> p_room (players ?w q) = Some rid)"
    proof (cases "p = a \<or> p = b")
      case True
      then show ?thesis
        using r ab assms(4) by (auto simp: pr pa rooms nth_append new_room_def has_def opponent_of_def)
    next
      case False
      then have "p_room (players w p) = Some rid" using r by (simp add: pr)
      then obtain q where q: "rid < length (rooms w)" "has (rooms w ! rid) p" "p_authorized (players w p)" "q \<noteq> p"
        "opponent_of (rooms w ! rid) p = Some q" "p_room (players w q) = Some rid"
        using assms(1) unfolding room_inv_def by blast
      moreover from this have "q \<noteq> a" "q \<noteq> b" using ab by auto
      ultimately show ?thesis by (auto simp: pr pa rooms nth_append)
    qed
  qed
  then show ?thesis using q iq by (auto simp: world_inv_def queue_inv_def)
qed

lemma room_inv_cong:
  "room_inv w \<Longrightarrow> rooms w' = rooms w \<Longrightarrow> (\<And>p. p_room (players w' p) = p_room (players w p)) \<Longrightarrow>
    (\<And>p. p_authorized (players w' p) = p_authorized (players w p)) \<Longrightarrow> room_inv w'"
  by (simp add: room_inv_def)

lemma handle_queue_inv:
  assumes "sorts srt" "world_inv w"
  shows "world_inv (handle_queue srt pos p w)"
proof -
  consider (out) "\<not> p_authorized (players w p) \<or> p_room (players w p) \<noteq> None \<or> p_in_queue (players w p)"
    | (ok) "p_authorized (players w p)" "p_room (players w p) = None" "\<not> p_in_queue (players w p)" by blast
  then show ?thesis
  proof cases
    case out
    then show ?thesis using assms(2) by (auto simp: handle_queue_def intro: same_links_inv [OF same_links_send])
  next
    case ok
    define v where "v = broadcast_queue_size (send p (StatusOk ''queued'')
      ((set_player p (\<lambda>pl. pl\<lparr>p_in_queue := True\<rparr>) w)\<lparr>queue := queue w @ [p]\<rparr>))"
    have h: "handle_queue srt pos p w = try_matchmake srt pos v" using ok by (simp add: handle_queue_def v_def Let_def)
    have nq: "p \<notin> set (queue w)" using assms(2) ok by (auto simp: world_inv_def queue_inv_def)
    have vq: "queue v = queue w @ [p]" by (simp add: v_def)
    have qi: "queue_inv v" using assms(2) ok nq by (auto simp: v_def world_inv_def queue_inv_def)
    have ri: "room_inv v" by (rule room_inv_cong [of w]) (use assms(2) in \<open>simp_all add: v_def world_inv_def\<close>)
    show ?thesis
    proof (cases "queue w")
      case Nil
      then show ?thesis using h vq qi ri by (simp add: try_matchmake_def world_inv_def)
    next
      case (Cons a as)
      then have "as = []" using assms(2) by (cases as) (auto simp: world_inv_def)
      then have q2: "queue v = [a, p]" "a \<noteq> p" using vq Cons nq by auto
      let ?c = "srt (\<lambda>p. p_rating (players v p)) (queue v)"
      have m: "mset ?c = {#a, p#}" using assms(1) q2 by (simp add: sorts_def)
      then have "length ?c = 2" by (metis add_2_eq_Suc' add_mset_add_single size_mset size_single size_union Suc_1 one_add_one)
      then obtain x y where c: "?c = [x, y]" by (cases ?c; cases "tl ?c") auto
      have "set ?c = {a, p}" using m by (metis set_mset_mset set_mset_add_mset_insert set_mset_empty)
      then have xy: "set (queue v) = {x, y}" "x \<noteq> y" using c q2 by (auto simp: doubleton_eq_iff)
      show ?thesis
        using start_match_inv [OF ri qi xy] matchmake_pair [OF assms(1), of v pos] c q2 by (simp add: h)
    qed
  qed
qed

lemma handle_command_inv:
  assumes "sorts srt" "world_inv w"
  shows "world_inv (handle_command login leaders srt pos p cmd w)"
  using assms handle_auth_inv handle_queue_inv handle_leave_inv handle_chat_inv handle_move_inv handle_draw_inv
    handle_leaderboard_inv
  by (auto simp: handle_command_def intro: same_links_inv [OF same_links_send] split: command.splits)

text \<open>A connection: a session object that no room and no player list refers to yet.\<close>

definition fresh_session :: "world \<Rightarrow> nat \<Rightarrow> bool" where
  "fresh_session w p \<longleftrightarrow> p \<notin> set (all_players w) \<and> p \<notin> set (queue w) \<and> p_room (players w p) = None \<and>
     (\<forall>r \<in> set (rooms w). \<not> has r p)"

lemma accept_inv:
  assumes "world_inv w" "fresh_session w p"
  shows "world_inv (accept p w)"
proof -
  have q: "queue_inv (accept p w)" "length (queue (accept p w)) \<le> 1"
    using assms by (auto simp: world_inv_def queue_inv_def accept_def fresh_session_def new_session_def)
  have "room_inv (accept p w)"
    unfolding room_inv_def
  proof (intro allI impI)
    fix x rid assume "p_room (players (accept p w) x) = Some rid"
    then have x: "x \<noteq> p" "p_room (players w x) = Some rid" by (auto simp: accept_def new_session_def split: if_splits)
    then obtain q where q: "rid < length (rooms w)" "has (rooms w ! rid) x" "p_authorized (players w x)" "q \<noteq> x"
      "opponent_of (rooms w ! rid) x = Some q" "p_room (players w q) = Some rid"
      using assms(1) unfolding world_inv_def room_inv_def by blast
    moreover from this have "q \<noteq> p" using assms(2) by (auto simp: fresh_session_def)
    ultimately show "rid < length (rooms (accept p w)) \<and> has (rooms (accept p w) ! rid) x \<and>
      p_authorized (players (accept p w) x) \<and>
      (\<exists>q. q \<noteq> x \<and> opponent_of (rooms (accept p w) ! rid) x = Some q \<and> p_room (players (accept p w) q) = Some rid)"
      using x by (auto simp: accept_def)
  qed
  with q show ?thesis by (simp add: world_inv_def)
qed

text \<open>The runs of the server; at each command the database may answer something else.\<close>

inductive server_run :: "((nat \<Rightarrow> int) \<Rightarrow> nat list \<Rightarrow> nat list) \<Rightarrow> position \<Rightarrow> world \<Rightarrow> bool"
  for srt pos where
  boot: "server_run srt pos \<lparr>players = (\<lambda>_. new_session), all_players = [], queue = [], rooms = [],
     outbox = [], db_log = []\<rparr>"
| connect: "server_run srt pos w \<Longrightarrow> fresh_session w p \<Longrightarrow> server_run srt pos (accept p w)"
| cmd: "server_run srt pos w \<Longrightarrow> server_run srt pos (handle_command login leaders srt pos p c w)"
| disconnect: "server_run srt pos w \<Longrightarrow> server_run srt pos (on_disconnect p w)"

lemma server_run_inv: "server_run srt pos w \<Longrightarrow> sorts srt \<Longrightarrow> world_inv w"
proof (induction rule: server_run.induct)
  case boot
  then show ?case by (simp add: world_inv_def queue_inv_def room_inv_def new_session_def)
qed (auto intro: accept_inv handle_command_inv on_disconnect_inv)

section \<open>The rating formula\<close>

lemma lround_near: "\<bar>of_int (lround x) - x\<bar> \<le> 1 / 2"
proof (cases "0 \<le> x")
  case True
  then show ?thesis unfolding lround_def if_P [OF True] by linarith
next
  case False
  then show ?thesis unfolding lround_def if_not_P [OF False] by linarith
qed

lemma expected_score_bounds: "0 < expected_score Ra Rb" "expected_score Ra Rb < 1"
proof -
  have "0 < (10 :: real) powr ((of_int Rb - of_int Ra) / 400)" by simp
  then show "0 < expected_score Ra Rb" "expected_score Ra Rb < 1"
    by (simp_all add: expected_score_def divide_less_eq add_pos_pos)
qed

lemma rating_bounds:
  "Ra \<le> new_winner_rating Ra Rb \<and> new_winner_rating Ra Rb \<le> Ra + 32"
  "Rb - 32 \<le> new_loser_rating Ra Rb \<and> new_loser_rating Ra Rb \<le> Rb"
  "\<bar>new_winner_rating Ra Rb + new_loser_rating Ra Rb - (Ra + Rb)\<bar> \<le> 1"
proof -
  define y where "y = 32 * (1 - expected_score Ra Rb)"
  have y: "0 < y" "y < 32" using expected_score_bounds [of Ra Rb] by (simp_all add: y_def)
  have w: "new_winner_rating Ra Rb = lround (of_int Ra + y)" by (simp add: new_winner_rating_def y_def)
  have l: "new_loser_rating Ra Rb = lround (of_int Rb - y)"
    by (simp add: new_loser_rating_def y_def Let_def algebra_simps)
  have nw: "\<bar>of_int (new_winner_rating Ra Rb) - (of_int Ra + y)\<bar> \<le> 1 / 2" unfolding w by (rule lround_near)
  have nl: "\<bar>of_int (new_loser_rating Ra Rb) - (of_int Rb - y)\<bar> \<le> 1 / 2" unfolding l by (rule lround_near)
  have "(of_int Ra :: real) < of_int (new_winner_rating Ra Rb) + 1" using nw y by linarith
  moreover have "(of_int (new_winner_rating Ra Rb) :: real) < of_int Ra + 33" using nw y by linarith
  ultimately show "Ra \<le> new_winner_rating Ra Rb \<and> new_winner_rating Ra Rb \<le> Ra + 32" by linarith
  have "(of_int Rb :: real) < of_int (new_loser_rating Ra Rb) + 33" using nl y by linarith
  moreover have "(of_int (new_loser_rating Ra Rb) :: real) < of_int Rb + 1" using nl y by linarith
  ultimately show "Rb - 32 \<le> new_loser_rating Ra Rb \<and> new_loser_rating Ra Rb \<le> Rb" by linarith
  show "\<bar>new_winner_rating Ra Rb + new_loser_rating Ra Rb - (Ra + Rb)\<bar> \<le> 1" using nw nl by linarith
qed

section \<open>What a move command does to the room\<close>

lemma find_moveD:
  "find_move ms f t pr = Inr (Some m) \<Longrightarrow> m \<in> set ms \<and> mv_from m = f \<and> mv_to m = t \<and>
     (PromoteToKnight \<le> mv_flag m \<and> mv_flag m \<le> PromoteToQueen \<longrightarrow> promotion_matches (mv_flag m) pr)"
  by (induction ms f t pr rule: find_move.induct) (auto split: if_splits)

lemma after_move_rooms [simp]: "rooms (after_move rid w) = rooms w"
  by (simp add: after_move_def Let_def)

lemma update_room_rooms: "rooms (update_room rid f w) = (rooms w)[rid := f (rooms w ! rid)]"
  by (simp add: update_room_def)

lemma on_move_true:
  assumes "on_move rid p f t pr w = (True, w')" "rid < length (rooms w)" "has (rooms w ! rid) p"
    "r_white (rooms w ! rid) \<noteq> r_black (rooms w ! rid)"
  shows "\<exists>m pos'. move_step (r_position (rooms w ! rid)) m pos' \<and>
    mv_from m = algebraic_to_index f \<and> mv_to m = algebraic_to_index t \<and>
    Some p = (if side_to_move (r_position (rooms w ! rid)) = White then r_white (rooms w ! rid) else r_black (rooms w ! rid)) \<and>
    rooms w' = (rooms w)[rid := (rooms w ! rid)\<lparr>r_position := pos'\<rparr>]"
proof -
  let ?r = "rooms w ! rid" let ?pos = "r_position ?r"
  from assms(1) obtain m pos' where m: "find_move (generate_moves ?pos) (algebraic_to_index f) (algebraic_to_index t) pr = Inr (Some m)"
    and a: "apply_move ?pos m = (True, pos')"
    and turn: "\<not> ((Some p = r_white ?r \<and> side_to_move ?pos \<noteq> White) \<or> (Some p = r_black ?r \<and> side_to_move ?pos = White))"
    and w': "w' = after_move rid (broadcast ?r (MoveEvent f t (p_nick (players (update_room rid (\<lambda>r. r\<lparr>r_position := pos'\<rparr>) w) p))
      (get_fen pos')) (update_room rid (\<lambda>r. r\<lparr>r_position := pos'\<rparr>) w))"
    by (auto simp: on_move_def Let_def split: if_splits sum.splits option.splits prod.splits bool.splits)
  have "move_step ?pos m pos'" using find_moveD [OF m] a by (auto intro: move_step.intros)
  moreover have "Some p = (if side_to_move ?pos = White then r_white ?r else r_black ?r)"
    using turn assms(3) by (auto simp: has_def)
  ultimately show ?thesis using find_moveD [OF m] by (auto simp: w' update_room_rooms)
qed

lemma on_move_false:
  assumes "on_move rid p f t pr w = (False, w')"
  shows "core w' = core w" "\<exists>e. outbox w' = outbox w @ [(p, StatusError e)]"
proof -
  have r: "apply_move pos m = (False, pos') \<Longrightarrow> pos' = pos" for pos m pos'
    by (auto simp: apply_move_cases split: if_splits)
  have id: "update_room rid (\<lambda>r. r\<lparr>r_position := r_position (rooms w ! rid)\<rparr>) w = w"
    by (simp add: update_room_def)
  from assms obtain e where "w' = send p (StatusError e) w"
    by (auto simp: on_move_def Let_def id split: if_splits sum.splits option.splits prod.splits bool.splits dest!: r)
  then show "core w' = core w" "\<exists>e. outbox w' = outbox w @ [(p, StatusError e)]"
    by (auto simp: core_def send_def)
qed

text \<open>Every room's position is reachable from the start of a game.\<close>

definition room_ok :: "room \<Rightarrow> bool" where
  "room_ok r \<longleftrightarrow> reachable (r_position r) \<and> r_white r \<noteq> r_black r"

definition rooms_ok :: "world \<Rightarrow> bool" where
  "rooms_ok w \<longleftrightarrow> (\<forall>r \<in> set (rooms w). room_ok r)"

lemma rooms_ok_cong: "rooms_ok w \<Longrightarrow> rooms w' = rooms w \<Longrightarrow> rooms_ok w'"
  by (simp add: rooms_ok_def)

lemma rooms_ok_update:
  assumes "rooms_ok w" "rid < length (rooms w)" "room_ok (f (rooms w ! rid))"
  shows "rooms_ok (update_room rid f w)"
  using assms set_update_subset_insert [of "rooms w" rid "f (rooms w ! rid)"]
  by (auto simp: rooms_ok_def update_room_rooms)

lemma room_ok_at: "rooms_ok w \<Longrightarrow> rid < length (rooms w) \<Longrightarrow> room_ok (rooms w ! rid)"
  by (simp add: rooms_ok_def)

lemma core_rooms: "core w' = core w \<Longrightarrow> rooms w' = rooms w"
  by (simp add: core_def)

lemma on_move_ok:
  assumes "world_inv w" "rooms_ok w" "p_room (players w p) = Some rid"
  shows "rooms_ok (snd (on_move rid p f t pr w))"
proof -
  have rid: "rid < length (rooms w)" "has (rooms w ! rid) p"
    using assms(1,3) unfolding world_inv_def room_inv_def by blast+
  note ok = room_ok_at [OF assms(2) rid(1)]
  obtain b w' where r: "on_move rid p f t pr w = (b, w')" by (metis surj_pair)
  show ?thesis
  proof (cases b)
    case False
    then show ?thesis
      using rooms_ok_cong [OF assms(2) core_rooms [OF on_move_false(1) [of rid p f t pr w w']]] r by simp
  next
    case True
    have ne: "r_white (rooms w ! rid) \<noteq> r_black (rooms w ! rid)" using ok by (simp add: room_ok_def)
    have "on_move rid p f t pr w = (True, w')" using r True by simp
    from on_move_true [OF this rid ne] obtain m pos' where "move_step (r_position (rooms w ! rid)) m pos'"
      and w': "rooms w' = (rooms w)[rid := (rooms w ! rid)\<lparr>r_position := pos'\<rparr>]"
      by blast
    then have "room_ok ((rooms w ! rid)\<lparr>r_position := pos'\<rparr>)"
      using ok by (auto simp: room_ok_def intro: reachable.step)
    then show ?thesis
      using assms(2) set_update_subset_insert [of "rooms w" rid "(rooms w ! rid)\<lparr>r_position := pos'\<rparr>"]
      by (auto simp: r rooms_ok_def w')
  qed
qed

lemma draws_ok:
  assumes "rooms_ok w" "rid < length (rooms w)"
  shows "rooms_ok (on_draw_request rid p w)" "rooms_ok (snd (on_draw_accept rid p w))"
    "rooms_ok (snd (on_draw_decline rid p w))"
proof -
  note ok = room_ok_at [OF assms]
  have u: "rooms_ok (update_room rid (\<lambda>r. r\<lparr>draw_offer_white := b\<rparr>) w)"
    "rooms_ok (update_room rid (\<lambda>r. r\<lparr>draw_offer_black := b\<rparr>) w)" for b
    by (rule rooms_ok_update [OF assms]; use ok in \<open>simp add: room_ok_def\<close>)+
  have "rooms_ok v \<Longrightarrow> rooms_ok (send q m v)" "rooms_ok v \<Longrightarrow> rooms_ok (send_opt q' m v)" for v q q' m
    by (simp_all add: rooms_ok_def)
  then show "rooms_ok (on_draw_request rid p w)" "rooms_ok (snd (on_draw_accept rid p w))"
    "rooms_ok (snd (on_draw_decline rid p w))"
    using assms(1) u
    by (auto simp: on_draw_request_def on_draw_accept_def on_draw_decline_def Let_def split: option.splits
        intro: rooms_ok_cong)
qed

lemma handle_draw_ok:
  assumes "world_inv w" "rooms_ok w"
  shows "rooms_ok (handle_draw p action w)"
proof (cases "p_room (players w p)")
  case None
  then show ?thesis using assms(2) by (simp add: handle_draw_def rooms_ok_def)
next
  case (Some rid)
  then have rid: "rid < length (rooms w)" using assms(1) unfolding world_inv_def room_inv_def by blast
  obtain b w1 where a: "on_draw_accept rid p w = (b, w1)" by (metis surj_pair)
  obtain c w2 where d: "on_draw_decline rid p w = (c, w2)" by (metis surj_pair)
  show ?thesis
    using draws_ok [OF assms(2) rid, of p] assms(2)
    by (simp add: handle_draw_def Some Let_def a d rooms_ok_def split: bool.split)
qed

lemma rooms_room_leave [simp]: "rooms (room_leave p w) = rooms w"
  by (simp add: room_leave_def split: option.splits)

lemma start_match_ok:
  "rooms_ok w \<Longrightarrow> a \<noteq> b \<Longrightarrow> reachable pos \<Longrightarrow> rooms_ok (start_match a b pos w)"
  by (simp add: rooms_ok_def start_match_def Let_def room_ok_def new_room_def)

lemma handle_queue_ok:
  assumes "sorts srt" "world_inv w" "rooms_ok w" "reachable pos"
  shows "rooms_ok (handle_queue srt pos p w)"
proof (cases "p_authorized (players w p) \<and> p_room (players w p) = None \<and> \<not> p_in_queue (players w p)")
  case False
  then show ?thesis using assms(3) by (auto simp: handle_queue_def rooms_ok_def)
next
  case True
  define v where "v = broadcast_queue_size (send p (StatusOk ''queued'')
      ((set_player p (\<lambda>pl. pl\<lparr>p_in_queue := True\<rparr>) w)\<lparr>queue := queue w @ [p]\<rparr>))"
  have h: "handle_queue srt pos p w = try_matchmake srt pos v" using True by (simp add: handle_queue_def v_def Let_def)
  have v: "rooms_ok v" "queue v = queue w @ [p]" using assms(3) by (simp_all add: v_def rooms_ok_def)
  have d: "distinct (queue v)" using assms(2) True v by (auto simp: world_inv_def queue_inv_def)
  show ?thesis
  proof (cases "2 \<le> length (queue v)")
    case False
    then have "try_matchmake srt pos v = v" unfolding try_matchmake_def by (simp only: not_le if_True)
    then show ?thesis using v(1) by (simp add: h)
  next
    case True
    let ?c = "srt (\<lambda>p. p_rating (players v p)) (queue v)"
    have m: "mset ?c = mset (queue v)" using assms(1) by (simp add: sorts_def)
    then have "distinct ?c" "2 \<le> length ?c"
      using d True by (metis mset_eq_imp_distinct_iff, metis size_mset)
    then have "(?c ! 0 = ?c ! 1) = (0 = (1 :: nat))" by (intro nth_eq_iff_index_eq) linarith+
    then have "?c ! 0 \<noteq> ?c ! 1" by simp
    then show ?thesis
      using start_match_ok [OF v(1) _ assms(4)] matchmake_pair [OF assms(1) True] by (simp add: h)
  qed
qed

lemma handle_command_ok:
  assumes "sorts srt" "world_inv w" "rooms_ok w" "reachable pos"
  shows "rooms_ok (handle_command login leaders srt pos p cmd w)"
proof -
  have mv: "rooms_ok (handle_move p f t pr w)" for f t pr
    using on_move_ok [OF assms(2,3)] rooms_ok_cong [OF assms(3)] by (auto simp: handle_move_def split: option.splits)
  have others: "rooms (handle_auth login p nick pw w) = rooms w" "rooms (handle_leave p w) = rooms w"
    "rooms (handle_chat p tx w) = rooms w" "rooms (handle_leaderboard leaders p w) = rooms w" for nick pw tx
    by (simp_all add: handle_auth_def handle_leave_def handle_chat_def handle_leaderboard_def Let_def split: option.splits)
  show ?thesis
    using assms(3) mv others handle_queue_ok [OF assms] handle_draw_ok [OF assms(2,3)]
    by (auto simp: handle_command_def rooms_ok_def split: command.splits)
qed

lemma server_run_ok:
  "server_run srt pos w \<Longrightarrow> sorts srt \<Longrightarrow> reachable pos \<Longrightarrow> rooms_ok w"
proof (induction rule: server_run.induct)
  case (cmd w login leaders p c)
  then show ?case using server_run_inv handle_command_ok by blast
qed (auto simp: rooms_ok_def accept_def on_disconnect_def Let_def)

end
