(* ===== verification/JsonLine.thy ===== *)
theory JsonLine
  imports Protocol
begin

text \<open>
  A value in the compact layout is written on one line: every byte of its text is at least
  \<^verbatim>\<open>0x20\<close>. This is what makes the line feed after a message its end for the reader.
\<close>

definition one_line :: "string \<Rightarrow> bool" where
  "one_line t \<longleftrightarrow> (\<forall>c \<in> set t. 0x20 \<le> byte c)"

lemma one_line_simps [simp]:
  "one_line []" "one_line (c # t) \<longleftrightarrow> 0x20 \<le> byte c \<and> one_line t" "one_line (s @ t) \<longleftrightarrow> one_line s \<and> one_line t"
  by (auto simp: one_line_def)

lemma one_line_no_lf: "one_line t \<Longrightarrow> CHR 0x0A \<notin> set t"
  by (auto simp: one_line_def)

lemma one_line_concat: "(\<And>x. x \<in> set xs \<Longrightarrow> one_line (f x)) \<Longrightarrow> one_line (concat (map f xs))"
  by (auto simp: one_line_def)

lemma codepoint_bytes_line:
  assumes "0x20 \<le> cp" "scalar_value cp"
  shows "one_line (codepoint_bytes cp)"
proof -
  consider "cp < 0x80" | "0x80 \<le> cp" "cp \<le> 0x7FF" | "0x800 \<le> cp" "cp \<le> 0xFFFF" | "0x10000 \<le> cp" "cp \<le> 0x10FFFF"
    using assms(2) by (fastforce simp: scalar_value_def)
  then show ?thesis
  proof cases
    case 1
    then show ?thesis using assms(1) by (simp add: codepoint_bytes_1 byte_char_of)
  next
    case 2
    then have "cp div 64 < 32" by simp
    then show ?thesis using 2 by (simp add: codepoint_bytes_2 byte_char_of)
  next
    case 3
    then have "cp div 4096 < 16" by simp
    then show ?thesis using 3 by (simp add: codepoint_bytes_3 byte_char_of)
  next
    case 4
    then have "cp div 262144 < 5" by simp
    then show ?thesis using 4 by (simp add: codepoint_bytes_4 byte_char_of)
  qed
qed

lemma hex_lower_line: "n < 16 \<Longrightarrow> 0x20 \<le> byte (hex_lower n)"
proof -
  have "list_all (\<lambda>n. 0x20 \<le> byte (hex_lower n)) [0..<16]" by code_simp
  then show "n < 16 \<Longrightarrow> ?thesis" by (simp add: list_all_iff)
qed

lemma u_escape_line: "one_line (u_escape n)"
  by (simp add: u_escape_def hex4_def hex_lower_line)

lemma escaped_line: "scalar_value cp \<Longrightarrow> one_line (escaped ea cp)"
proof (cases "escape_codepoint ea cp")
  case None
  then show "scalar_value cp \<Longrightarrow> ?thesis" using escape_codepoint_None [OF None] by (simp add: escaped_def codepoint_bytes_line)
next
  case (Some t)
  then have "one_line t" by (auto simp: escape_codepoint_def u_escape_line split: if_splits)
  then show ?thesis by (simp add: escaped_def Some)
qed

lemma dump_escaped_line:
  assumes "dump_escaped Strict ea s = Inr t"
  shows "one_line t"
proof -
  obtain cps where cps: "list_all scalar_value cps" "s = concat (map codepoint_bytes cps)"
    using dump_escaped_only_text [OF assms] by (auto simp: utf8_text_def)
  then have "t = concat (map (escaped ea) cps)" using dump_escaped_text [OF cps(1), of ea] assms by simp
  then show ?thesis using cps(1) by (auto simp: list_all_iff intro!: one_line_concat escaped_line)
qed

lemma to_string_line: "one_line (to_string n)"
  by (auto simp: one_line_def isdigit_def dest!: to_string_digits)

lemma dump_integer_line: "- (2 ^ 63) \<le> n \<Longrightarrow> n < 2 ^ 64 \<Longrightarrow> one_line (dump_integer n)"
  by (simp add: dump_integer to_string_line)

abbreviation compact :: "layout \<Rightarrow> bool" where
  "compact L \<equiv> \<not> pretty L \<and> handler L = Strict"

lemma json_dump_line:
  "compact L \<Longrightarrow> (\<And>w. one_line (ftoa w)) \<Longrightarrow> json_ok j \<Longrightarrow> json_dump ftoa L cur j = Inr t \<Longrightarrow> one_line t"
  "compact L \<Longrightarrow> (\<And>w. one_line (ftoa w)) \<Longrightarrow> (\<And>m. m \<in> set ms \<Longrightarrow> utf8_text (fst m) \<and> json_ok (snd m)) \<Longrightarrow>
     dump_members ftoa L cur ms = Inr t \<Longrightarrow> one_line t"
  "compact L \<Longrightarrow> (\<And>w. one_line (ftoa w)) \<Longrightarrow> (\<And>v. v \<in> set vs \<Longrightarrow> json_ok v) \<Longrightarrow>
     dump_elements ftoa L cur vs = Inr t \<Longrightarrow> one_line t"
proof (induction ftoa L cur j and ftoa L cur ms and ftoa L cur vs arbitrary: t and t and t
    rule: json_dump_dump_members_dump_elements.induct)
  case (3 ftoa L current n)
  then show ?case using dump_integer_line by auto
next
  case (4 ftoa L current w)
  then show ?case by (auto simp: dump_float_def)
next
  case (5 ftoa L current s)
  then show ?case using dump_escaped_line by (auto simp: bind_res_Inr)
next
  case (6 ftoa L current vs)
  then show ?case by (cases "vs = []") (auto simp: bind_res_Inr newline_def indent_def)
next
  case (7 ftoa L current ms)
  then show ?case by (cases "ms = []") (auto simp: bind_res_Inr newline_def indent_def)
next
  case (9 ftoa L current k v ms)
  have kv: "json_ok v" using "9.prems"(3) [of "(k, v)"] by simp
  obtain key tv where kt: "dump_escaped (handler L) (ascii L) k = Inr key" "json_dump ftoa L current v = Inr tv"
    using "9.prems"(4) by (auto simp: bind_res_Inr)
  have l: "one_line key" "one_line tv" using dump_escaped_line kt(1) "9.prems"(1) "9.IH"(1) [OF "9.prems"(1,2) kv kt(2)] by auto
  show ?case
  proof (cases "ms = []")
    case True
    then show ?thesis using "9.prems"(1,4) kt l by (auto simp: Let_def indent_def)
  next
    case False
    then obtain rest where r: "dump_members ftoa L current ms = Inr rest"
      using "9.prems"(4) kt by (auto simp: bind_res_Inr Let_def)
    have "one_line rest" using "9.IH"(2) [OF refl False "9.prems"(1,2) _ r] kt "9.prems"(3) by simp
    then show ?thesis using False "9.prems"(1,4) kt l r by (auto simp: Let_def indent_def newline_def)
  qed
next
  case (11 ftoa L current v vs)
  obtain tv where tv: "json_dump ftoa L current v = Inr tv" using "11.prems"(4) by (auto simp: bind_res_Inr)
  have l: "one_line tv" using "11.IH"(1) [OF "11.prems"(1,2) _ tv] "11.prems"(3) by simp
  show ?case
  proof (cases "vs = []")
    case True
    then show ?thesis using "11.prems"(1,4) tv l by (auto simp: indent_def)
  next
    case False
    then obtain rest where r: "dump_elements ftoa L current vs = Inr rest" using "11.prems"(4) tv by (auto simp: bind_res_Inr)
    have "one_line rest" using "11.IH"(2) [OF False "11.prems"(1,2) _ r] "11.prems"(3) by simp
    then show ?thesis using False "11.prems"(1,4) tv l r by (auto simp: indent_def newline_def)
  qed
qed (auto split: if_splits)

text \<open>A message and its frame.\<close>

lemma compact_layout_compact: "compact compact_layout"
  by (simp add: compact_layout_def)

lemma serialize_json_frame:
  assumes "\<And>w. one_line (ftoa w)" "json_ok j"
  obtains t where "serialize_json ftoa j = Inr (t @ [CHR 0x0A])" "one_line t" "json_dump ftoa compact_layout 0 j = Inr t"
proof -
  obtain t where t: "json_dump ftoa compact_layout 0 j = Inr t"
    using json_ok_dumps(1) [OF _ assms(2), of compact_layout] compact_layout_compact by blast
  have "one_line t" by (rule json_dump_line(1) [OF compact_layout_compact assms t])
  then show ?thesis using that t by (simp add: serialize_json_def)
qed

end
