(* ===== verification/ProtocolProps.thy ===== *)
theory ProtocolProps
  imports Protocol
begin

text \<open>The properties of the JSON library and of the wire protocol, with their witnesses.\<close>

section \<open>Which lines are commands\<close>

text \<open>The members that the request of each type reads.\<close>

definition request_fields :: "(string \<times> string list) list" where
  "request_fields =
     [(''auth'', [''nick'', ''password'']), (''move'', [''from'', ''to'', ''promotion'']), (''chat'', [''text'']),
      (''draw'', [''action'']), (''queue'', []), (''leave'', []), (''ping'', [])]"

definition missing_or_string :: "(string \<times> json) list \<Rightarrow> string \<Rightarrow> bool" where
  "missing_or_string ms f \<longleftrightarrow> (case map_of ms f of None \<Rightarrow> True | Some (JString s) \<Rightarrow> True | _ \<Rightarrow> False)"

lemma value_string_cases:
  "(\<exists>s. value_string (JObject ms) f [] = Inr s) \<longleftrightarrow> missing_or_string ms f"
  by (auto simp: value_string_def json_value_def json_string_def missing_or_string_def split: option.splits json.splits)

lemma valid_made:
  "(\<exists>msg. made r = Inr (Some msg)) \<longleftrightarrow> (\<exists>p. r = Inr p)"
  by (auto simp: made_def bind_res_Inr)

definition type_is :: "(string \<times> json) list \<Rightarrow> string \<Rightarrow> bool" where
  "type_is ms t \<longleftrightarrow> map_of ms ''type'' = Some (JString t)"

lemma create_type:
  "type_is ms t \<Longrightarrow> create (JObject ms) =
     (if t = ''auth'' then made (auth_from_json (JObject ms))
      else if t = ''move'' then made (move_from_json (JObject ms))
      else if t = ''chat'' then made (chat_from_json (JObject ms))
      else if t = ''draw'' then made (draw_from_json (JObject ms))
      else if t = ''queue'' then made (queue_from_json (JObject ms))
      else if t = ''leave'' then made (leave_from_json (JObject ms))
      else if t = ''ping'' then made (ping_from_json (JObject ms))
      else Inr None)"
  by (simp add: type_is_def create_def json_contains_def json_at_def json_string_def)

lemma wrong_type_is: "type_is ms t \<Longrightarrow> wrong_type (JObject ms) t = False"
  by (simp add: type_is_def wrong_type_def json_contains_def json_at_def)

lemma request_valid:
  "type_is ms ''auth'' \<Longrightarrow> (\<exists>p. auth_from_json (JObject ms) = Inr p) \<longleftrightarrow> list_all (missing_or_string ms) [''nick'', ''password'']"
  "type_is ms ''move'' \<Longrightarrow> (\<exists>p. move_from_json (JObject ms) = Inr p) \<longleftrightarrow>
     list_all (missing_or_string ms) [''from'', ''to'', ''promotion'']"
  "type_is ms ''chat'' \<Longrightarrow> (\<exists>p. chat_from_json (JObject ms) = Inr p) \<longleftrightarrow> list_all (missing_or_string ms) [''text'']"
  "type_is ms ''draw'' \<Longrightarrow> (\<exists>p. draw_from_json (JObject ms) = Inr p) \<longleftrightarrow> list_all (missing_or_string ms) [''action'']"
  unfolding auth_from_json_def move_from_json_def chat_from_json_def draw_from_json_def
  by (simp_all only: wrong_type_is if_False bind_res_Inr list.pred_inject value_string_cases [symmetric] simp_thms) blast+

definition fields_ok :: "(string \<times> json) list \<Rightarrow> string \<Rightarrow> bool" where
  "fields_ok ms t \<longleftrightarrow> (case map_of request_fields t of None \<Rightarrow> False | Some fs \<Rightarrow> list_all (missing_or_string ms) fs)"

lemma fields_ok_types:
  "fields_ok ms ''auth'' = list_all (missing_or_string ms) [''nick'', ''password'']"
  "fields_ok ms ''move'' = list_all (missing_or_string ms) [''from'', ''to'', ''promotion'']"
  "fields_ok ms ''chat'' = list_all (missing_or_string ms) [''text'']"
  "fields_ok ms ''draw'' = list_all (missing_or_string ms) [''action'']"
  "fields_ok ms ''queue'' = True"
  "fields_ok ms ''leave'' = True"
  "fields_ok ms ''ping'' = True"
  by (simp_all add: fields_ok_def request_fields_def)

lemma create_types:
  "type_is ms ''auth'' \<Longrightarrow> create (JObject ms) = made (auth_from_json (JObject ms))"
  "type_is ms ''move'' \<Longrightarrow> create (JObject ms) = made (move_from_json (JObject ms))"
  "type_is ms ''chat'' \<Longrightarrow> create (JObject ms) = made (chat_from_json (JObject ms))"
  "type_is ms ''draw'' \<Longrightarrow> create (JObject ms) = made (draw_from_json (JObject ms))"
  "type_is ms ''queue'' \<Longrightarrow> create (JObject ms) = made (queue_from_json (JObject ms))"
  "type_is ms ''leave'' \<Longrightarrow> create (JObject ms) = made (leave_from_json (JObject ms))"
  "type_is ms ''ping'' \<Longrightarrow> create (JObject ms) = made (ping_from_json (JObject ms))"
  by (simp_all add: create_type)

lemma request_names:
  "set (map fst request_fields) = {''auth'', ''move'', ''chat'', ''draw'', ''queue'', ''leave'', ''ping''}"
  by (simp only: request_fields_def list.map list.set fst_conv)

lemma create_other:
  assumes "type_is ms t" and other: "t \<notin> set (map fst request_fields)"
  shows "create (JObject ms) = Inr None" "\<not> fields_ok ms t"
proof -
  have "map_of request_fields t = None" using other map_of_eq_None_iff [of request_fields t] by simp
  then show "\<not> fields_ok ms t" by (simp add: fields_ok_def)
  have "t \<noteq> ''auth''" "t \<noteq> ''move''" "t \<noteq> ''chat''" "t \<noteq> ''draw''" "t \<noteq> ''queue''" "t \<noteq> ''leave''" "t \<noteq> ''ping''"
    using other by (simp_all only: request_names insert_iff empty_iff de_Morgan_disj not_False_eq_True)
  then show "create (JObject ms) = Inr None" by (simp only: create_type [OF assms(1)] if_False)
qed

lemma made_ok:
  "create j = made r \<Longrightarrow> (\<exists>p. r = Inr p) = ok \<Longrightarrow> (\<exists>msg. create j = Inr (Some msg)) = ok"
  by (simp only: valid_made)

lemma plain_requests:
  "(\<exists>p. queue_from_json j = Inr p) = True"
  "(\<exists>p. leave_from_json j = Inr p) = True"
  "(\<exists>p. ping_from_json j = Inr p) = True"
  by (simp_all add: queue_from_json_def leave_from_json_def ping_from_json_def)

lemma create_valid_type:
  assumes "type_is ms t"
  shows "(\<exists>msg. create (JObject ms) = Inr (Some msg)) \<longleftrightarrow> fields_ok ms t"
proof (cases "t \<in> set (map fst request_fields)")
  case True
  then have "t = ''auth'' \<or> t = ''move'' \<or> t = ''chat'' \<or> t = ''draw'' \<or> t = ''queue'' \<or> t = ''leave'' \<or> t = ''ping''"
    by (simp only: request_names insert_iff empty_iff simp_thms)
  then show ?thesis
  proof (elim disjE)
    assume "t = ''auth''" then show ?thesis using assms made_ok [OF create_types(1) request_valid(1), of ms] by (simp only: fields_ok_types)
  next
    assume "t = ''move''" then show ?thesis using assms made_ok [OF create_types(2) request_valid(2), of ms] by (simp only: fields_ok_types)
  next
    assume "t = ''chat''" then show ?thesis using assms made_ok [OF create_types(3) request_valid(3), of ms] by (simp only: fields_ok_types)
  next
    assume "t = ''draw''" then show ?thesis using assms made_ok [OF create_types(4) request_valid(4), of ms] by (simp only: fields_ok_types)
  next
    assume "t = ''queue''" then show ?thesis using assms made_ok [OF create_types(5) plain_requests(1), of ms] by (simp only: fields_ok_types)
  next
    assume "t = ''leave''" then show ?thesis using assms made_ok [OF create_types(6) plain_requests(2), of ms] by (simp only: fields_ok_types)
  next
    assume "t = ''ping''" then show ?thesis using assms made_ok [OF create_types(7) plain_requests(3), of ms] by (simp only: fields_ok_types)
  qed
next
  case False
  then show ?thesis using create_other [OF assms False] by simp
qed

lemma create_no_type:
  assumes "\<And>t. \<not> type_is ms t"
  shows "create (JObject ms) \<noteq> Inr (Some msg)"
proof (cases "map_of ms ''type''")
  case None
  then show ?thesis by (simp add: create_def json_contains_def)
next
  case (Some v)
  have "\<exists>e. json_string v = Inl e"
  proof (cases v)
    case (JString t)
    then show ?thesis using assms [of t] Some by (simp add: type_is_def)
  qed (simp_all add: json_string_def)
  then obtain e where "json_string v = Inl e" by blast
  then show ?thesis using Some by (simp add: create_def json_contains_def json_at_def)
qed

lemma create_valid:
  "(\<exists>msg. create (JObject ms) = Inr (Some msg)) \<longleftrightarrow> (\<exists>t. map_of ms ''type'' = Some (JString t) \<and> fields_ok ms t)"
proof (cases "\<exists>t. type_is ms t")
  case True
  then obtain t where t: "type_is ms t" by blast
  then show ?thesis using create_valid_type [OF t] by (simp add: type_is_def)
next
  case False
  then show ?thesis using create_no_type [of ms] by (auto simp: type_is_def)
qed

lemma create_not_object: "\<nexists>ms. j = JObject ms \<Longrightarrow> create j = Inr None"
  by (cases j) (simp_all add: create_def json_contains_def)

lemma from_message_valid: "gc_is_valid (from_protocol_message msg)"
  by (cases msg) (simp_all add: empty_command_def)

lemma from_message_type:
  "gc_type (from_protocol_message msg) \<in> {''auth'', ''move'', ''chat'', ''draw'', ''queue'', ''leave'', ''ping''}"
  by (cases msg) (simp_all add: empty_command_def)

lemma parse_command_cases:
  "(parse_command strtod raw = empty_command \<and>
      (\<forall>j msg. json_parse strtod False (trim raw) = Inr j \<longrightarrow> create j \<noteq> Inr (Some msg))) \<or>
   (\<exists>j msg. json_parse strtod False (trim raw) = Inr j \<and> create j = Inr (Some msg) \<and>
      parse_command strtod raw = from_protocol_message msg)"
  by (auto simp: parse_command_def split: sum.splits option.splits)

lemma parse_command_valid:
  "gc_is_valid (parse_command strtod raw) \<longleftrightarrow>
     (\<exists>j msg. json_parse strtod False (trim raw) = Inr j \<and> create j = Inr (Some msg))"
  using parse_command_cases [of strtod raw] from_message_valid by (auto simp: empty_command_def)

section \<open>Properties of the JSON library\<close>



definition demo_layout :: layout where
  "demo_layout = \<lparr>pretty = True, ascii = True, indent_step = 2, indent_char = CHR '' '', handler = Strict\<rparr>"




text \<open>
  C39: the UTF-8 automaton of the serializer accepts exactly the encodings of sequences of Unicode scalar
  values: with the strict error handler a string is written if and only if it is such an encoding, and
  fails otherwise.
\<close>

theorem strict_writer_accepts_utf8: "(\<exists>t. dump_escaped Strict ea s = Inr t) = utf8_text s"
  using dump_escaped_only_text [of ea s] dump_escaped_text [of _ ea] by (auto simp: utf8_text_def)

text \<open>
  C20: whatever bytes are given to the parser, with comments ignored or not, a value that it returns is
  well formed (texts in UTF-8, integers in the range of 64 bits, finite floats, sorted keys without
  repetition) and can be written again in every layout with the strict error handler.
\<close>

theorem parsed_values_ok:
  assumes "json_parse strtod ic s = Inr j" "handler L = Strict"
  shows "json_ok j \<and> (\<exists>t. json_dump ftoa L n j = Inr t)"
  using json_parse_ok [OF assms(1)] json_ok_dumps(1) [OF assms(2) json_parse_ok [OF assms(1)]] by blast

lemma demo_parse: "json_parse (\<lambda>_. 0) False ''[true]'' = Inr (JArray [JBool True])"
  by code_simp

theorem parsed_values_ok_witness:
  "json_ok (JArray [JBool True]) \<and>
     (\<exists>t. json_dump (\<lambda>_. ''0.0'') demo_layout 0 (JArray [JBool True]) = Inr t)"
  by (rule parsed_values_ok [OF demo_parse]) (simp add: demo_layout_def)

section \<open>Properties of the protocol\<close>

text \<open>
  C22: a request whose texts are UTF-8 survives the wire: its JSON form, written on a line by
  serialize_json, is parsed by the server to the command of that request.
\<close>

theorem request_round_trip_text:
  assumes "list_all utf8_text (message_texts m)"
  shows "\<exists>line. serialize_json ftoa (to_json m) = Inr line \<and> parse_command strtod line = from_protocol_message m"
  by (rule request_round_trip [OF assms])

theorem request_round_trip_text_witness:
  "\<exists>line. serialize_json (\<lambda>_. ''0.0'') (to_json (MoveRequest ''e7'' ''e8'' ''q'')) = Inr line \<and>
     parse_command (\<lambda>_. 0) line = from_protocol_message (MoveRequest ''e7'' ''e8'' ''q'')"
  by (rule request_round_trip_text) (simp add: utf8_text_ascii)

text \<open>
  C23: exactly these lines become valid commands: a JSON object whose type is one of the seven request
  types and whose members that the request reads are absent or strings. Whether they are empty does not
  matter, because the factory drops the flag that from_json returns.
\<close>

theorem valid_lines:
  "gc_is_valid (parse_command strtod raw) \<longleftrightarrow>
     (\<exists>ms t. json_parse strtod False (trim raw) = Inr (JObject ms) \<and> map_of ms ''type'' = Some (JString t) \<and> fields_ok ms t)"
proof
  assume "gc_is_valid (parse_command strtod raw)"
  then obtain j msg where j: "json_parse strtod False (trim raw) = Inr j" "create j = Inr (Some msg)"
    using parse_command_valid by blast
  obtain ms where "j = JObject ms" using create_not_object [of j] j(2) by auto
  then show "\<exists>ms t. json_parse strtod False (trim raw) = Inr (JObject ms) \<and> map_of ms ''type'' = Some (JString t) \<and> fields_ok ms t"
    using j create_valid by blast
next
  assume "\<exists>ms t. json_parse strtod False (trim raw) = Inr (JObject ms) \<and> map_of ms ''type'' = Some (JString t) \<and> fields_ok ms t"
  then show "gc_is_valid (parse_command strtod raw)" using parse_command_valid create_valid by blast
qed

lemma command_of_types:
  "command_of (from_protocol_message m) =
     (case m of AuthRequest nick password \<Rightarrow> Auth nick password | MoveRequest a b c \<Rightarrow> MoveCmd a b c | ChatRequest tx \<Rightarrow> Chat tx
      | DrawRequest a \<Rightarrow> Draw a | QueueRequest \<Rightarrow> QueueCmd | LeaveRequest \<Rightarrow> Leave | PingRequest \<Rightarrow> Ping)"
  by (cases m) (simp_all add: command_of_def empty_command_def)

text \<open>
  No line that a client can send reaches the leaderboard handler or the branch for other types: the
  parser produces neither, whatever the bytes of the line.
\<close>

lemma no_leaderboard_line:
  "command_of (parse_command strtod raw) \<noteq> LeaderboardCmd \<and> command_of (parse_command strtod raw) \<noteq> OtherCmd"
proof -
  have "command_of empty_command = Invalid" by (simp add: command_of_def empty_command_def)
  then show ?thesis using parse_command_cases [of strtod raw] by (auto simp: command_of_types split: message.splits)
qed

text \<open>
  A status response and an event are read back from their JSON form; only an empty data member comes
  back as the empty object.
\<close>

lemma responses_round_trip:
  "status_from_json (status_to_json r) = Inr (r\<lparr>sr_data := (if json_empty (sr_data r) then JObject [] else sr_data r)\<rparr>) \<and>
   event_from_json (event_to_json e) = Inr e"
  by (simp add: status_from_json_def status_to_json_def event_from_json_def event_to_json_def value_string_def value_json_def
      json_string_def)

end
