(* ===== verification/SqlQuote.thy ===== *)
theory SqlQuote
  imports Prelude
begin

text \<open>
  String literals of SQL (\<^verbatim>\<open>sqlite/sqlite3.c\<close>): the \<open>CC_QUOTE\<close> case of \<open>sqlite3GetToken\<close>, which
  finds the end of a quoted token, and \<open>sqlite3Dequote\<close>, which removes the quotes. A C string is a
  list of characters without its zero terminator; reading at its end gives the zero.

  The database layer of the server puts texts of clients between quotes as they are. The lemmas say
  which texts the SQL compiler then reads back: those without a quote and without a zero byte.
\<close>

abbreviation quote_char :: char where "quote_char \<equiv> CHR 0x27"
abbreviation nul_char :: char where "nul_char \<equiv> CHR 0x00"

text \<open>The loop from position \<open>i\<close>: the length of the token, and whether the closing delimiter was found.\<close>

fun quote_scan :: "char \<Rightarrow> string \<Rightarrow> nat \<Rightarrow> nat \<times> bool" where
  "quote_scan delim [] i = (i, False)"
| "quote_scan delim [c] i = (if c = nul_char then (i, False) else if c = delim then (i + 1, True) else (i + 1, False))"
| "quote_scan delim (c # d # cs) i =
     (if c = nul_char then (i, False)
      else if c = delim then (if d = delim then quote_scan delim cs (i + 2) else (i + 1, True))
      else quote_scan delim (d # cs) (i + 1))"

datatype quote_token = TK_STRING | TK_ID | TK_ILLEGAL

definition quoted_token :: "string \<Rightarrow> quote_token \<times> nat" where
  "quoted_token z =
     (case quote_scan (hd z) (tl z) 1 of
        (n, True) \<Rightarrow> (if hd z = quote_char then TK_STRING else TK_ID, n)
      | (n, False) \<Rightarrow> (TK_ILLEGAL, n))"

text \<open>\<open>sqlite3Dequote\<close>; \<open>None\<close> where the source would read past the terminator.\<close>

fun dequote_loop :: "char \<Rightarrow> string \<Rightarrow> string option" where
  "dequote_loop q [] = None"
| "dequote_loop q [c] = (if c = nul_char then None else if c = q then Some [] else None)"
| "dequote_loop q (c # d # cs) =
     (if c = nul_char then None
      else if c = q then (if d = q then map_option (Cons q) (dequote_loop q cs) else Some [])
      else map_option (Cons c) (dequote_loop q (d # cs)))"

definition Isquote :: "char \<Rightarrow> bool" where
  "Isquote c \<longleftrightarrow> c = CHR 0x22 \<or> c = quote_char \<or> c = CHR ''['' \<or> c = CHR 0x60"

definition Dequote :: "string \<Rightarrow> string option" where
  "Dequote z =
     (if z = [] \<or> \<not> Isquote (hd z) then Some z
      else dequote_loop (if hd z = CHR ''['' then CHR '']'' else hd z) (tl z))"

text \<open>The literal that the SQL compiler reads at the start of a text, and what is left of the text.\<close>

definition read_literal :: "string \<Rightarrow> (string \<times> string) option" where
  "read_literal z =
     (case quoted_token z of
        (TK_STRING, n) \<Rightarrow> map_option (\<lambda>s. (s, drop n z)) (Dequote (take n z))
      | _ \<Rightarrow> None)"

section \<open>Which texts survive between quotes\<close>

definition sql_plain :: "string \<Rightarrow> bool" where
  "sql_plain s \<longleftrightarrow> list_all (\<lambda>c. c \<noteq> quote_char \<and> c \<noteq> nul_char) s"

definition sql_quoted :: "string \<Rightarrow> string" where
  "sql_quoted s = quote_char # s @ [quote_char]"

definition no_quote_first :: "string \<Rightarrow> bool" where
  "no_quote_first rest \<longleftrightarrow> (case rest of [] \<Rightarrow> True | c # _ \<Rightarrow> c \<noteq> quote_char)"

lemma quote_scan_step:
  "c \<noteq> nul_char \<Longrightarrow> c \<noteq> delim \<Longrightarrow> cs \<noteq> [] \<Longrightarrow> quote_scan delim (c # cs) i = quote_scan delim cs (i + 1)"
  by (cases cs) auto

lemma quote_scan_close:
  "delim \<noteq> nul_char \<Longrightarrow> (case rest of [] \<Rightarrow> True | c # _ \<Rightarrow> c \<noteq> delim) \<Longrightarrow> quote_scan delim (delim # rest) i = (i + 1, True)"
  by (cases rest) auto

lemma quote_scan_plain:
  "sql_plain s \<Longrightarrow> no_quote_first rest \<Longrightarrow>
     quote_scan quote_char (s @ quote_char # rest) i = (i + length s + 1, True)"
  by (induction s arbitrary: i) (simp_all add: sql_plain_def no_quote_first_def quote_scan_close quote_scan_step)

lemma dequote_step: "c \<noteq> nul_char \<Longrightarrow> c \<noteq> q \<Longrightarrow> cs \<noteq> [] \<Longrightarrow> dequote_loop q (c # cs) = map_option (Cons c) (dequote_loop q cs)"
  by (cases cs) auto

lemma dequote_plain: "sql_plain s \<Longrightarrow> dequote_loop quote_char (s @ [quote_char]) = Some s"
  by (induction s) (simp_all add: sql_plain_def dequote_step)

lemma dequote_only_plain_tail: "dequote_loop q z = Some s \<Longrightarrow> nul_char \<notin> set s \<or> q = nul_char"
  by (induction q z arbitrary: s rule: dequote_loop.induct) (auto split: if_splits)

text \<open>The scan stops after the first quote that no other quote follows.\<close>

lemma quote_scan_bound: "quote_scan q z i = (n, True) \<Longrightarrow> i < n \<and> n \<le> i + length z"
  by (induction q z i arbitrary: n rule: quote_scan.induct) (force split: if_splits)+

text \<open>A token holds its text twice as long at each quote, so a text with a quote is never read back.\<close>

lemma scan_dequote_length:
  "quote_scan q z i = (i + k, True) \<Longrightarrow> dequote_loop q (take k z) = Some s \<Longrightarrow>
     k = length s + count_list s q + 1"
proof (induction q z i arbitrary: k s rule: quote_scan.induct)
  case (3 q c d cs i)
  consider (twice) "c \<noteq> nul_char" "c = q" "d = q" | (close) "c \<noteq> nul_char" "c = q" "d \<noteq> q" | (other) "c \<noteq> nul_char" "c \<noteq> q"
    using "3.prems"(1) by (auto split: if_splits)
  then show ?case
  proof cases
    case twice
    have scan: "quote_scan q cs (i + 2) = (i + k, True)" using "3.prems"(1) twice by simp
    then have b: "i + 2 < i + k" using quote_scan_bound by blast
    then obtain k' where k: "k = Suc (Suc k')" by (metis add_2_eq_Suc less_imp_add_positive nat_add_left_cancel_less add_Suc)
    obtain s' where s: "s = q # s'" "dequote_loop q (take k' cs) = Some s'"
      using "3.prems"(2) twice k by auto
    show ?thesis using "3.IH"(1) [OF twice(1,2,3), of k' s'] scan s k by simp
  next
    case close
    then show ?thesis using "3.prems" by (cases k) auto
  next
    case other
    have scan: "quote_scan q (d # cs) (i + 1) = (i + k, True)" using "3.prems"(1) other by simp
    then have b: "i + 1 < i + k" using quote_scan_bound by blast
    then obtain k' where k: "k = Suc (Suc k')" by (cases k; cases "k - 1") auto
    obtain s' where s: "s = c # s'" "dequote_loop q (take (Suc k') (d # cs)) = Some s'"
      using "3.prems"(2) other k by auto
    show ?thesis using "3.IH"(2) [OF other, of "Suc k'" s'] scan s k other by simp
  qed
qed (auto split: if_splits)

text \<open>
  C28: a text put between quotes as it is, as the methods of the database do, is read back by the SQL
  compiler, with the rest of the statement after it, exactly when it has no quote and no zero byte.
\<close>

theorem literal_read_back:
  assumes "no_quote_first rest"
  shows "read_literal (sql_quoted s @ rest) = Some (s, rest) \<longleftrightarrow> sql_plain s"
proof
  assume p: "sql_plain s"
  have "quoted_token (sql_quoted s @ rest) = (TK_STRING, length s + 2)"
    using quote_scan_plain [OF p assms, of 1] by (simp add: quoted_token_def sql_quoted_def)
  then show "read_literal (sql_quoted s @ rest) = Some (s, rest)"
    using dequote_plain [OF p] by (simp add: read_literal_def sql_quoted_def Dequote_def Isquote_def)
next
  assume r: "read_literal (sql_quoted s @ rest) = Some (s, rest)"
  obtain n where n: "quoted_token (sql_quoted s @ rest) = (TK_STRING, n)" and d: "drop n (sql_quoted s @ rest) = rest"
    and q: "Dequote (take n (sql_quoted s @ rest)) = Some s"
    using r by (auto simp: read_literal_def split: prod.splits quote_token.splits)
  let ?z = "s @ quote_char # rest"
  have scan: "quote_scan quote_char ?z 1 = (n, True)"
    using n by (auto simp: quoted_token_def sql_quoted_def split: prod.splits bool.splits)
  obtain k where k: "n = Suc k" "k \<le> length ?z" using quote_scan_bound [OF scan] by (cases n) auto
  have len: "k = length s + 1"
  proof -
    have "length (drop k ?z) = length rest" using d k by (simp add: sql_quoted_def)
    then show ?thesis using k(2) by simp
  qed
  have dq: "dequote_loop quote_char (take k ?z) = Some s"
    using q k by (simp add: sql_quoted_def Dequote_def Isquote_def)
  have "k = length s + count_list s quote_char + 1"
    using scan_dequote_length [of quote_char ?z 1 k s] scan dq k by simp
  then have "count_list s quote_char = 0" using len by simp
  then have "quote_char \<notin> set s" by (simp add: count_list_0_iff)
  moreover have "nul_char \<notin> set s" using dequote_only_plain_tail [OF dq] by simp
  ultimately show "sql_plain s" by (auto simp: sql_plain_def list_all_iff)
qed

theorem literal_read_back_witness:
  "read_literal (sql_quoted ''ann'' @ '', '') = Some (''ann'', '', '') \<and>
   read_literal (sql_quoted (''x'' @ [quote_char] @ '' OR 1'') @ '';'') \<noteq> Some (''x'' @ [quote_char] @ '' OR 1'', '';'')"
  using literal_read_back [of "'', ''" "''ann''"] literal_read_back [of "'';''" "''x'' @ [quote_char] @ '' OR 1''"]
  by (simp add: no_quote_first_def sql_plain_def)

end
