(* ===== verification/Database.thy ===== *)
theory Database
  imports SqlQuote Server
begin

text \<open>
  The database of the server (\<^verbatim>\<open>database.hpp\<close>, \<^verbatim>\<open>database.cpp\<close>): three tables, each a list of
  rows in the order of their row ids, and one operation for each method. A statement means what the
  SQL text of the method says: \<open>SELECT\<close>, \<open>INSERT\<close>, \<open>UPDATE\<close> and \<open>DELETE\<close> on the lists, with the
  \<open>UNIQUE\<close> constraint, the defaults of the columns and the counters of \<open>AUTOINCREMENT\<close>.

  The methods put the nickname between quotes without escaping it. For a nickname that SQLite reads
  back from there (\<open>sql_plain\<close>, see \<open>SqlQuote\<close>) the statement is the intended one; for any other one
  the compiled statement is a different one, and the answer is a parameter (\<open>engine\<close>), a function of
  the text that the method built. Further parameters: \<open>std::hash\<close>, the value of
  \<open>CURRENT_TIMESTAMP\<close>, and the order in which \<open>ORDER BY\<close> leaves rows with the same key. Failures of
  the storage are not modelled, nor are the log lines.
\<close>

section \<open>Tables\<close>

record user_row =
  usr_id :: int
  usr_nickname :: string
  usr_password_hash :: string
  usr_rating :: int
  usr_games_played :: int
  usr_games_won :: int
  usr_games_drawn :: int
  usr_created_at :: string
  usr_last_login :: "string option"

record game_row =
  gm_id :: int
  gm_white_player_id :: int
  gm_black_player_id :: int
  gm_winner_id :: int
  gm_result :: string
  gm_pgn :: string
  gm_played_at :: string

record queue_row =
  qr_user_id :: int
  qr_joined_at :: string

record database =
  connected :: bool
  users :: "user_row list"
  users_seq :: int
  games :: "game_row list"
  games_seq :: int
  game_queue :: "queue_row list"

record engine =
  raw_exec :: "string \<Rightarrow> database \<Rightarrow> bool \<times> database"
  raw_select :: "string \<Rightarrow> database \<Rightarrow> user_row option option"

text \<open>The state that \<open>create_tables\<close> leaves in a new file.\<close>

definition create_tables :: "bool \<Rightarrow> database" where
  "create_tables ok = \<lparr>connected = ok, users = [], users_seq = 0, games = [], games_seq = 0, game_queue = []\<rparr>"

text \<open>\<open>sqlite3_column_int\<close>: the low 32 bits of the stored integer.\<close>

definition column_int :: "int \<Rightarrow> int" where
  "column_int n = sint (word_of_int n :: u32)"

definition execute_query :: "(database \<Rightarrow> bool \<times> database) \<Rightarrow> database \<Rightarrow> bool \<times> database" where
  "execute_query stmt db = (if \<not> connected db then (False, db) else stmt db)"

text \<open>The largest row id; after it \<open>AUTOINCREMENT\<close> finds no id and the insertion fails.\<close>

definition max_rowid :: int where "max_rowid = 2 ^ 63 - 1"

section \<open>Passwords\<close>

fun hex_number :: "nat \<Rightarrow> string" where
  "hex_number n = (if n < 16 then [''0123456789abcdef'' ! n] else hex_number (n div 16) @ [''0123456789abcdef'' ! (n mod 16)])"

declare hex_number.simps [simp del]

definition hash_password :: "(string \<Rightarrow> u64) \<Rightarrow> string \<Rightarrow> string" where
  "hash_password hasher password = hex_number (unat (hasher password))"

definition verify_password :: "(string \<Rightarrow> u64) \<Rightarrow> string \<Rightarrow> string \<Rightarrow> bool" where
  "verify_password hasher password stored \<longleftrightarrow> hash_password hasher password = stored"

section \<open>Users\<close>

definition sql_user_exists :: "string \<Rightarrow> string" where
  "sql_user_exists nickname = ''SELECT 1 FROM users WHERE nickname = '' @ sql_quoted nickname"

definition sql_login_user :: "string \<Rightarrow> string" where
  "sql_login_user nickname =
     ''SELECT id, nickname, rating, games_played, games_won, games_drawn, password_hash FROM users WHERE nickname = '' @
     sql_quoted nickname"

definition sql_register_user :: "string \<Rightarrow> string \<Rightarrow> string" where
  "sql_register_user nickname password_hash =
     ''INSERT INTO users (nickname, password_hash) VALUES ('' @ sql_quoted nickname @ '', '' @ sql_quoted password_hash @ '')''"

text \<open>The first row of a \<open>SELECT\<close> by nickname; \<open>None\<close> when the statement does not compile.\<close>

definition select_user :: "engine \<Rightarrow> string \<Rightarrow> string \<Rightarrow> database \<Rightarrow> user_row option option" where
  "select_user e sql nickname db =
     (if sql_plain nickname then Some (find (\<lambda>r. usr_nickname r = nickname) (users db)) else raw_select e sql db)"

definition insert_user :: "string \<Rightarrow> string \<Rightarrow> string \<Rightarrow> database \<Rightarrow> bool \<times> database" where
  "insert_user now nickname password_hash db =
     (if nickname \<in> set (map usr_nickname (users db)) \<or> users_seq db = max_rowid then (False, db)
      else (True, db\<lparr>users := users db @ [\<lparr>usr_id = users_seq db + 1, usr_nickname = nickname, usr_password_hash = password_hash,
              usr_rating = 1000, usr_games_played = 0, usr_games_won = 0, usr_games_drawn = 0, usr_created_at = now,
              usr_last_login = None\<rparr>], users_seq := users_seq db + 1\<rparr>))"

definition user_exists :: "engine \<Rightarrow> string \<Rightarrow> database \<Rightarrow> bool" where
  "user_exists e nickname db =
     (if \<not> connected db then False
      else case select_user e (sql_user_exists nickname) nickname db of
             None \<Rightarrow> False
           | Some r \<Rightarrow> r \<noteq> None)"

definition register_user :: "engine \<Rightarrow> (string \<Rightarrow> u64) \<Rightarrow> string \<Rightarrow> string \<Rightarrow> string \<Rightarrow> database \<Rightarrow> bool \<times> database" where
  "register_user e hasher now nickname password db =
     (if user_exists e nickname db then (False, db)
      else
        let password_hash = hash_password hasher password
        in execute_query
             (if sql_plain nickname then insert_user now nickname password_hash
              else raw_exec e (sql_register_user nickname password_hash)) db)"

definition update_user :: "int \<Rightarrow> (user_row \<Rightarrow> user_row) \<Rightarrow> database \<Rightarrow> bool \<times> database" where
  "update_user i f db = (True, db\<lparr>users := map (\<lambda>r. if usr_id r = i then f r else r) (users db)\<rparr>)"

definition update_last_login :: "string \<Rightarrow> int \<Rightarrow> database \<Rightarrow> database" where
  "update_last_login now i db = snd (execute_query (update_user i (\<lambda>r. r\<lparr>usr_last_login := Some now\<rparr>)) db)"

definition info_of_row :: "user_row \<Rightarrow> user_info" where
  "info_of_row r = \<lparr>u_id = column_int (usr_id r), u_nickname = usr_nickname r, u_rating = column_int (usr_rating r),
     u_games_played = column_int (usr_games_played r), u_games_won = column_int (usr_games_won r),
     u_games_drawn = column_int (usr_games_drawn r)\<rparr>"

definition login_user :: "engine \<Rightarrow> (string \<Rightarrow> u64) \<Rightarrow> string \<Rightarrow> string \<Rightarrow> string \<Rightarrow> database \<Rightarrow> user_info option \<times> database" where
  "login_user e hasher now nickname password db =
     (if \<not> connected db then (None, db)
      else
        case select_user e (sql_login_user nickname) nickname db of
          None \<Rightarrow> (None, db)
        | Some None \<Rightarrow> (None, db)
        | Some (Some r) \<Rightarrow>
            if \<not> verify_password hasher password (usr_password_hash r) then (None, db)
            else let info = info_of_row r in (Some info, update_last_login now (u_id info) db))"

definition login_or_register :: "engine \<Rightarrow> (string \<Rightarrow> u64) \<Rightarrow> string \<Rightarrow> string \<Rightarrow> string \<Rightarrow> database \<Rightarrow> user_info option \<times> database" where
  "login_or_register e hasher now nickname password db =
     (case login_user e hasher now nickname password db of
        (Some info, db1) \<Rightarrow> (Some info, db1)
      | (None, db1) \<Rightarrow>
          (case register_user e hasher now nickname password db1 of
             (True, db2) \<Rightarrow> login_user e hasher now nickname password db2
           | (False, db2) \<Rightarrow> (None, db2)))"

definition db_update_rating :: "int \<Rightarrow> int \<Rightarrow> database \<Rightarrow> database" where
  "db_update_rating i rating db = snd (execute_query (update_user i (\<lambda>r. r\<lparr>usr_rating := rating\<rparr>)) db)"

definition update_stats :: "int \<Rightarrow> bool \<Rightarrow> bool \<Rightarrow> database \<Rightarrow> database" where
  "update_stats i won draw db =
     snd (execute_query (update_user i
       (if won then (\<lambda>r. r\<lparr>usr_games_played := usr_games_played r + 1, usr_games_won := usr_games_won r + 1\<rparr>)
        else if draw then (\<lambda>r. r\<lparr>usr_games_played := usr_games_played r + 1, usr_games_drawn := usr_games_drawn r + 1\<rparr>)
        else (\<lambda>r. r\<lparr>usr_games_played := usr_games_played r + 1\<rparr>))) db)"

definition get_rating :: "int \<Rightarrow> database \<Rightarrow> int" where
  "get_rating i db =
     (if \<not> connected db then 1000
      else case find (\<lambda>r. usr_id r = i) (users db) of None \<Rightarrow> 1000 | Some r \<Rightarrow> column_int (usr_rating r))"

text \<open>The numbers of a \<open>UserInfo\<close> that no row filled are indeterminate: the parameter \<open>junk\<close>.\<close>

definition get_user_info :: "user_info \<Rightarrow> int \<Rightarrow> database \<Rightarrow> user_info" where
  "get_user_info junk i db =
     (let info = junk\<lparr>u_id := -1, u_nickname := []\<rparr> in
      if \<not> connected db then info
      else case find (\<lambda>r. usr_id r = i) (users db) of None \<Rightarrow> info | Some r \<Rightarrow> info_of_row r)"

section \<open>Games\<close>

definition sql_save_game :: "int \<Rightarrow> int \<Rightarrow> int \<Rightarrow> string \<Rightarrow> string \<Rightarrow> string" where
  "sql_save_game white_id black_id winner_id result pgn =
     ''INSERT INTO games (white_player_id, black_player_id, winner_id, result, pgn) VALUES ('' @
     to_string_int white_id @ '', '' @ to_string_int black_id @ '', '' @ to_string_int winner_id @ '', '' @
     sql_quoted result @ '', '' @ sql_quoted pgn @ '')''"

definition insert_game :: "string \<Rightarrow> int \<Rightarrow> int \<Rightarrow> int \<Rightarrow> string \<Rightarrow> string \<Rightarrow> database \<Rightarrow> bool \<times> database" where
  "insert_game now white_id black_id winner_id result pgn db =
     (if games_seq db = max_rowid then (False, db)
      else (True, db\<lparr>games := games db @ [\<lparr>gm_id = games_seq db + 1, gm_white_player_id = white_id,
              gm_black_player_id = black_id, gm_winner_id = winner_id, gm_result = result, gm_pgn = pgn, gm_played_at = now\<rparr>],
              games_seq := games_seq db + 1\<rparr>))"

definition save_game :: "engine \<Rightarrow> string \<Rightarrow> int \<Rightarrow> int \<Rightarrow> int \<Rightarrow> string \<Rightarrow> string \<Rightarrow> database \<Rightarrow> database" where
  "save_game e now white_id black_id winner_id result pgn db =
     snd (execute_query
       (if sql_plain result \<and> sql_plain pgn then insert_game now white_id black_id winner_id result pgn
        else raw_exec e (sql_save_game white_id black_id winner_id result pgn)) db)"

text \<open>\<open>LIMIT\<close>: a negative number is no limit.\<close>

definition sql_limit :: "int \<Rightarrow> 'a list \<Rightarrow> 'a list" where
  "sql_limit n rows = (if n < 0 then rows else take (nat n) rows)"

definition get_user_game_history :: "(game_row list \<Rightarrow> game_row list) \<Rightarrow> int \<Rightarrow> int \<Rightarrow> database \<Rightarrow> string list" where
  "get_user_game_history by_played_at i limit db =
     (if \<not> connected db then []
      else map (\<lambda>g. gm_played_at g @ '' - '' @ gm_result g)
             (sql_limit limit (by_played_at (filter (\<lambda>g. gm_white_player_id g = i \<or> gm_black_player_id g = i) (games db)))))"

section \<open>The stored queue\<close>

definition add_to_queue :: "string \<Rightarrow> int \<Rightarrow> database \<Rightarrow> database" where
  "add_to_queue now i db =
     snd (execute_query (\<lambda>db. (True, db\<lparr>game_queue :=
       insort_key qr_user_id \<lparr>qr_user_id = i, qr_joined_at = now\<rparr> (filter (\<lambda>q. qr_user_id q \<noteq> i) (game_queue db))\<rparr>)) db)"

definition db_remove_from_queue :: "int \<Rightarrow> database \<Rightarrow> database" where
  "db_remove_from_queue i db =
     snd (execute_query (\<lambda>db. (True, db\<lparr>game_queue := filter (\<lambda>q. qr_user_id q \<noteq> i) (game_queue db)\<rparr>)) db)"

record queued_player =
  qp_user_id :: int
  qp_nickname :: string
  qp_rating :: int

definition get_queue :: "((queue_row \<times> user_row) list \<Rightarrow> (queue_row \<times> user_row) list) \<Rightarrow> database \<Rightarrow> queued_player list" where
  "get_queue by_joined_at db =
     (if \<not> connected db then []
      else map (\<lambda>(q, u). \<lparr>qp_user_id = column_int (qr_user_id q), qp_nickname = usr_nickname u, qp_rating = column_int (usr_rating u)\<rparr>)
             (by_joined_at (filter (\<lambda>(q, u). qr_user_id q = usr_id u) (List.product (game_queue db) (users db)))))"

definition clear_queue :: "database \<Rightarrow> database" where
  "clear_queue db = snd (execute_query (\<lambda>db. (True, db\<lparr>game_queue := []\<rparr>)) db)"

definition get_top_players :: "(user_row list \<Rightarrow> user_row list) \<Rightarrow> int \<Rightarrow> database \<Rightarrow> (int \<times> string \<times> int) list" where
  "get_top_players by_rating limit db =
     (if \<not> connected db then []
      else map (\<lambda>r. (column_int (usr_id r), usr_nickname r, column_int (usr_rating r))) (sql_limit limit (by_rating (users db))))"

text \<open>The calls that the handlers of the server make besides the login.\<close>

fun run_db_call :: "engine \<Rightarrow> string \<Rightarrow> db_call \<Rightarrow> database \<Rightarrow> database" where
  "run_db_call e now (SaveGame w b v result pgn) db = save_game e now w b v result pgn db"
| "run_db_call e now (UpdateRating i rating) db = db_update_rating i rating db"
| "run_db_call e now (UpdateStats i won draw) db = update_stats i won draw db"

text \<open>Calls whose statement SQLite reads as it is meant.\<close>

fun plain_call :: "db_call \<Rightarrow> bool" where
  "plain_call (SaveGame w b v res pgn) \<longleftrightarrow> sql_plain res \<and> sql_plain pgn"
| "plain_call _ \<longleftrightarrow> True"

end
