(* ===== verification/ServerJson.thy ===== *)
theory ServerJson
  imports ServerInv JsonLine ProtocolProps Database
begin

text \<open>
  The JSON form of the messages that the handlers send, and the server as it runs behind its
  sessions: the commands are lines that clients sent. The invariant here is that every text in the
  server's state and messages is UTF-8, so that \<open>TcpSession::send\<close> and \<open>WebSocketSession::send\<close>, which
  write the message as text at once, never throw out of a handler.
\<close>

section \<open>Messages as JSON\<close>

definition event_json :: "string \<Rightarrow> (string \<times> json) list \<Rightarrow> json" where
  "event_json name ms =
     json_object ([(''type'', JString ''event''), (''event'', JString name)] @
       (if ms = [] then [] else [(''data'', json_object ms)]))"

definition match_found_json :: "string \<Rightarrow> string \<Rightarrow> string \<Rightarrow> json" where
  "match_found_json opponent fen color =
     event_json ''match_found'' [(''opponent'', JString opponent),
       (''board'', json_object [(''fen'', JString fen), (''you_are'', JString color)])]"

definition move_json :: "string \<Rightarrow> string \<Rightarrow> string \<Rightarrow> string \<Rightarrow> json" where
  "move_json from_sq to_sq by_nick fen =
     event_json ''move'' [(''from'', JString from_sq), (''to'', JString to_sq), (''by'', JString by_nick), (''fen'', JString fen)]"

definition game_over_json :: "string \<Rightarrow> string option \<Rightarrow> json" where
  "game_over_json result winner =
     event_json ''game_over'' ((''result'', JString result) # (case winner of None \<Rightarrow> [] | Some n \<Rightarrow> [(''winner'', JString n)]))"

definition chat_json :: "string \<Rightarrow> string \<Rightarrow> json" where
  "chat_json from_nick tx = event_json ''chat'' [(''from'', JString from_nick), (''text'', JString tx)]"

definition rating_json :: "int \<Rightarrow> json" where
  "rating_json rating = event_json ''rating_update'' [(''rating'', JInt rating)]"

definition leaderboard_json :: "(int \<times> string \<times> int) list \<Rightarrow> json" where
  "leaderboard_json rows =
     event_json ''leaderboard'' [(''players'', JArray (map (\<lambda>(i, nick, rating).
       json_object [(''id'', JInt i), (''nickname'', JString nick), (''rating'', JInt rating)]) rows))]"

fun msg_json :: "server_msg \<Rightarrow> json" where
  "msg_json (StatusOk msg) = status_to_json (status_ok msg JNull)"
| "msg_json (StatusError msg) = status_to_json (status_error msg JNull)"
| "msg_json (MatchFound opponent fen color) = match_found_json opponent fen color"
| "msg_json (ChatEvent from_nick tx) = chat_json from_nick tx"
| "msg_json (MoveEvent from_sq to_sq by_nick fen) = move_json from_sq to_sq by_nick fen"
| "msg_json (CheckEvent side) = event_json ''check'' [(''side'', JString side)]"
| "msg_json (GameOver result winner) = game_over_json result winner"
| "msg_json (RatingUpdate rating) = rating_json rating"
| "msg_json (DrawOffer from_nick) = event_json ''draw_offer'' [(''from'', JString from_nick)]"
| "msg_json (DrawDeclined by_nick) = event_json ''draw_declined'' [(''by'', JString by_nick)]"
| "msg_json OpponentDisconnected = event_json ''opponent_disconnected'' []"
| "msg_json (QueueUpdate n) = event_json ''queue_update'' [(''size'', JInt (int n))]"
| "msg_json (Leaderboard rows) = leaderboard_json rows"

section \<open>The texts of a message\<close>

fun msg_text :: "server_msg \<Rightarrow> bool" where
  "msg_text (StatusOk msg) \<longleftrightarrow> utf8_text msg"
| "msg_text (StatusError msg) \<longleftrightarrow> utf8_text msg"
| "msg_text (MatchFound opponent fen color) \<longleftrightarrow> utf8_text opponent \<and> utf8_text fen \<and> utf8_text color"
| "msg_text (ChatEvent from_nick tx) \<longleftrightarrow> utf8_text from_nick \<and> utf8_text tx"
| "msg_text (MoveEvent from_sq to_sq by_nick fen) \<longleftrightarrow>
     utf8_text from_sq \<and> utf8_text to_sq \<and> utf8_text by_nick \<and> utf8_text fen"
| "msg_text (CheckEvent side) \<longleftrightarrow> utf8_text side"
| "msg_text (GameOver result winner) \<longleftrightarrow> utf8_text result \<and> pred_option utf8_text winner"
| "msg_text (RatingUpdate rating) \<longleftrightarrow> True"
| "msg_text (DrawOffer from_nick) \<longleftrightarrow> utf8_text from_nick"
| "msg_text (DrawDeclined by_nick) \<longleftrightarrow> utf8_text by_nick"
| "msg_text OpponentDisconnected \<longleftrightarrow> True"
| "msg_text (QueueUpdate n) \<longleftrightarrow> True"
| "msg_text (Leaderboard rows) \<longleftrightarrow> list_all (\<lambda>(i, nick, rating). utf8_text nick) rows"

lemma writable_put_members:
  "list_all (\<lambda>m. list_all (\<lambda>c. byte c < 0x80) (fst m) \<and> writable (snd m)) ms \<Longrightarrow> writable (JObject acc) \<Longrightarrow>
     writable (JObject (put_members ms acc))"
proof (induction ms arbitrary: acc)
  case (Cons m ms)
  obtain k v where m: "m = (k, v)" by (cases m)
  have "writable (JObject (put_member k v acc))"
    using Cons.prems m set_put_member_le [of k v acc] utf8_text_ascii [of k] by auto
  then show ?case using Cons m by (simp del: writable.simps)
qed simp

lemma writable_object:
  "list_all (\<lambda>m. list_all (\<lambda>c. byte c < 0x80) (fst m) \<and> writable (snd m)) ms \<Longrightarrow> writable (json_object ms)"
  unfolding json_object_def by (rule writable_put_members) simp_all

lemma writable_event:
  "list_all (\<lambda>m. list_all (\<lambda>c. byte c < 0x80) (fst m) \<and> writable (snd m)) ms \<Longrightarrow>
     list_all (\<lambda>c. byte c < 0x80) name \<Longrightarrow> writable (event_json name ms)"
  unfolding event_json_def by (rule writable_object) (auto intro: writable_object utf8_text_ascii)

lemmas message_json_defs = match_found_json_def move_json_def game_over_json_def chat_json_def rating_json_def
  leaderboard_json_def status_to_json_def status_ok_def status_error_def

lemma writable_leaderboard: "list_all (\<lambda>(i, nick, rating). utf8_text nick) rows \<Longrightarrow> writable (leaderboard_json rows)"
  unfolding leaderboard_json_def by (rule writable_event) (auto simp: list_all_iff intro!: writable_object)

lemma writable_msg: "msg_text m \<Longrightarrow> writable (msg_json m)"
  by (cases m)
    (auto simp: match_found_json_def move_json_def game_over_json_def chat_json_def rating_json_def status_to_json_def
      status_ok_def status_error_def json_empty_def utf8_text_ascii writable_leaderboard split: option.splits
      intro!: writable_object writable_event)

text \<open>What a session writes for a message.\<close>

definition send_text :: "(u64 \<Rightarrow> string) \<Rightarrow> server_msg \<Rightarrow> string res" where
  "send_text ftoa m = serialize_json ftoa (msg_json m)"

lemma send_text_ok: "msg_text m \<Longrightarrow> \<exists>t. send_text ftoa m = Inr t"
proof -
  assume "msg_text m"
  then obtain t where "json_dump ftoa compact_layout 0 (msg_json m) = Inr t"
    using writable_dumps(1) [OF _ writable_msg, of compact_layout m] compact_layout_compact by blast
  then show ?thesis by (simp add: send_text_def serialize_json_def)
qed

section \<open>The texts of the state\<close>

definition world_text :: "world \<Rightarrow> bool" where
  "world_text w \<longleftrightarrow> (\<forall>p. utf8_text (p_nick (players w p))) \<and> (\<forall>m \<in> set (outbox w). msg_text (snd m)) \<and>
     (\<forall>c \<in> set (db_log w). plain_call c)"

lemma ascii_texts: "list_all (\<lambda>c. byte c < 0x80) s \<Longrightarrow> utf8_text s"
  by (rule utf8_text_ascii)

lemma nick_text: "world_text w \<Longrightarrow> utf8_text (p_nick (players w p))" "world_text w \<Longrightarrow> utf8_text (nick_opt w q)"
  by (auto simp: world_text_def nick_opt_def split: option.splits)

abbreviation ascii_text :: "string \<Rightarrow> bool" where
  "ascii_text s \<equiv> list_all (\<lambda>c. byte c < 0x80) s"

text \<open>A FEN string holds no quote, no zero byte and no byte from 128 on.\<close>

definition fen_char :: "char \<Rightarrow> bool" where
  "fen_char c \<longleftrightarrow> byte c < 0x80 \<and> byte c \<noteq> 39 \<and> byte c \<noteq> 0"

lemma to_string_fen: "list_all fen_char (to_string n)"
  by (auto simp: list_all_iff fen_char_def isdigit_def dest!: to_string_digits)

lemma fen_row_chars: "list_all fen_char (fen_row p y xs e)"
proof -
  have "list_all (\<lambda>w. list_all (\<lambda>t. fen_char (to_char t w)) [0..<6]) [White, Black]" by code_simp
  moreover have "fen_char (CHR ''?'')" by (simp add: fen_char_def)
  ultimately have "fen_char (piece_char s t)" for s t by (auto simp: piece_char_def list_all_iff)
  then show ?thesis
    by (induction p y xs e rule: fen_row.induct) (auto simp: Let_def flush_empty_def to_string_fen)
qed

lemma fen_placement_chars: "list_all fen_char (fen_placement p)"
proof -
  have "\<forall>c \<in> set (fen_row p y xs e). fen_char c" for y xs e using fen_row_chars by (simp add: list_all_iff)
  moreover have "fen_char (CHR ''/'')" by (simp add: fen_char_def)
  ultimately show ?thesis by (auto simp: fen_placement_def list_all_iff split: if_splits)
qed

lemma fen_rights_chars: "list_all fen_char (fen_rights cr)"
  by (simp add: fen_rights_def fen_char_def)

lemma reachable_en_passant: "reachable pos \<Longrightarrow> en_passant pos = 255 \<or> en_passant pos < 64"
proof (induction rule: reachable.induct)
  case (start pos)
  then show ?case by (auto simp: initial_position_def position_of_pieces_def Let_def)
next
  case (step pos m pos')
  then have m: "m \<in> set (generate_moves pos)" and pos': "pos' = play_move m pos"
    by (auto elim!: move_stepE simp: apply_move_cases split: if_splits)
  show ?case
  proof (cases "mv_flag m = PawnLongMove")
    case True
    then have "(mv_from m + mv_to m) div 2 < 64"
      using long_candidate_squares [OF side_less candidate_flag_long [OF generate_moves_candidates [OF m]]] True
      by (auto split: if_splits)
    then show ?thesis by (simp add: pos' make_fields)
  qed (simp add: pos' make_fields)
qed

lemma get_fen_chars: "reachable pos \<Longrightarrow> list_all fen_char (get_fen pos)"
proof -
  assume "reachable pos"
  then have e: "en_passant pos = 255 \<or> en_passant pos < 64" by (rule reachable_en_passant)
  then have "list_all fen_char (fen_square (en_passant pos))"
    by (auto simp: fen_square_def fen_char_def of_char_of)
  moreover have "fen_char (CHR '' '')" "fen_char (CHR ''w'')" "fen_char (CHR ''b'')" by (simp_all add: fen_char_def)
  ultimately show ?thesis by (simp add: get_fen_def fen_placement_chars fen_rights_chars to_string_fen)
qed

lemma get_fen_text: "reachable pos \<Longrightarrow> utf8_text (get_fen pos)"
  by (rule utf8_text_ascii) (use get_fen_chars in \<open>auto simp: list_all_iff fen_char_def\<close>)

lemma get_fen_plain: "reachable pos \<Longrightarrow> sql_plain (get_fen pos)"
proof -
  have "fen_char c \<Longrightarrow> c \<noteq> quote_char \<and> c \<noteq> nul_char" for c by (auto simp: fen_char_def)
  then show "reachable pos \<Longrightarrow> ?thesis" unfolding sql_plain_def using get_fen_chars by (simp add: list_all_iff)
qed

section \<open>Every handler keeps the texts\<close>

lemma world_text_fields [simp]:
  "world_text (w\<lparr>queue := q\<rparr>) = world_text w" "world_text (w\<lparr>all_players := ps\<rparr>) = world_text w"
  "world_text (w\<lparr>rooms := rs\<rparr>) = world_text w" "world_text (log_db c w) = (world_text w \<and> plain_call c)"
  "world_text (update_room rid f w) = world_text w"
  by (auto simp: world_text_def log_db_def update_room_def)

lemma text_send: "world_text w \<Longrightarrow> msg_text m \<Longrightarrow> world_text (send p m w)"
  by (auto simp: world_text_def send_def)

lemma text_send_opt: "world_text w \<Longrightarrow> msg_text m \<Longrightarrow> world_text (send_opt p m w)"
  by (auto simp: send_opt_def text_send split: option.splits)

lemma text_broadcast: "world_text w \<Longrightarrow> msg_text m \<Longrightarrow> world_text (broadcast r m w)"
  by (simp add: broadcast_def text_send_opt)

lemma text_set_player: "world_text w \<Longrightarrow> utf8_text (p_nick (f (players w p))) \<Longrightarrow> world_text (set_player p f w)"
  by (auto simp: world_text_def set_player_def)

lemma text_set_room: "world_text w \<Longrightarrow> world_text (set_room p r w)"
  unfolding set_room_def by (rule text_set_player) (simp_all add: nick_text)

lemma text_set_room_opt: "world_text w \<Longrightarrow> world_text (set_room_opt p r w)"
  by (simp add: set_room_opt_def text_set_room split: option.split)

lemma text_status: "ascii_text msg \<Longrightarrow> msg_text (StatusOk msg)" "ascii_text msg \<Longrightarrow> msg_text (StatusError msg)"
  by (simp_all add: utf8_text_ascii)

lemmas text_intros = text_send text_send_opt text_broadcast text_set_room text_set_room_opt text_status

lemma text_broadcast_queue_size: "world_text w \<Longrightarrow> world_text (broadcast_queue_size w)"
proof -
  have "world_text (fold (\<lambda>p w'. if p_authorized (players w' p) then send p (QueueUpdate n) w' else w') ps v)"
    if "world_text v" for ps v n using that by (induction ps arbitrary: v) (simp_all add: text_send)
  then show "world_text w \<Longrightarrow> ?thesis" by (simp add: broadcast_queue_size_def)
qed

lemma text_remove_from_queue: "world_text w \<Longrightarrow> world_text (remove_from_queue p w)"
  by (simp add: remove_from_queue_def text_broadcast_queue_size text_set_player nick_text)

lemma text_update_rating: "world_text w \<Longrightarrow> world_text (update_rating a b w)"
  by (auto simp: update_rating_def Let_def set_player_def world_text_def log_db_def send_def)

lemma text_end_game:
  assumes "world_text w" "ascii_text result" "sql_plain result" "reachable (r_position (rooms w ! rid))"
  shows "world_text (end_game rid result winner w)"
proof -
  define w1 where "w1 = (case winner of None \<Rightarrow> w
      | Some win \<Rightarrow> (case opponent_of (rooms w ! rid) win of None \<Rightarrow> w | Some los \<Rightarrow> update_rating win los w))"
  have w1: "world_text w1" using assms(1) by (simp add: w1_def text_update_rating split: option.split)
  then show ?thesis
    using assms(2,3) get_fen_plain [OF assms(4)] unfolding end_game_def Let_def w1_def [symmetric]
    by (intro text_set_room_opt text_broadcast) (auto simp: utf8_text_ascii nick_text option.pred_map pred_option_def)
qed

lemma text_after_move:
  "world_text w \<Longrightarrow> reachable (r_position (rooms w ! rid)) \<Longrightarrow> world_text (after_move rid w)"
  by (auto simp: after_move_def Let_def sql_plain_def intro!: text_end_game text_broadcast utf8_text_ascii)

lemma find_move_text: "find_move ms f t pr = Inl e \<Longrightarrow> ascii_text e"
  by (induction ms f t pr rule: find_move.induct) (auto split: if_splits)

lemma text_on_move:
  assumes "world_inv w" "rooms_ok w" "world_text w" "p_room (players w p) = Some rid" "utf8_text f" "utf8_text t"
  shows "world_text (snd (on_move rid p f t pr w))"
proof -
  have rid: "rid < length (rooms w)" "has (rooms w ! rid) p"
    using assms(1,4) unfolding world_inv_def room_inv_def by blast+
  have ok: "reachable (r_position (rooms w ! rid))" using room_ok_at [OF assms(2) rid(1)] by (simp add: room_ok_def)
  have fen: "reachable pos' \<and> utf8_text (get_fen pos')" if "m \<in> set (generate_moves (r_position (rooms w ! rid)))"
    "apply_move (r_position (rooms w ! rid)) m = (True, pos')" for m pos'
    using that ok get_fen_text by (auto intro: reachable.step move_step.intros)
  let ?r = "rooms w ! rid"
  obtain res where res: "find_move (generate_moves (r_position ?r)) (algebraic_to_index f) (algebraic_to_index t) pr = res"
    by blast
  show ?thesis
  proof (cases res)
    case (Inl e)
    then show ?thesis using assms(3) find_move_text [OF res [unfolded Inl]]
      by (auto simp: on_move_def Let_def res intro!: text_send utf8_text_ascii)
  next
    case (Inr mo)
    show ?thesis
    proof (cases mo)
      case None
      then show ?thesis using assms(3) Inr
        by (auto simp: on_move_def Let_def res intro!: text_send utf8_text_ascii)
    next
      case (Some m)
      obtain b pos' where a: "apply_move (r_position ?r) m = (b, pos')" by (metis surj_pair)
      have "m \<in> set (generate_moves (r_position ?r))" using find_moveD [OF res [unfolded Inr Some]] by simp
      then have "reachable pos' \<and> utf8_text (get_fen pos')" if b using fen a that by auto
      moreover have "rooms (update_room rid h w) ! rid = h (?r)" for h using rid(1) by (simp add: update_room_def)
      ultimately show ?thesis using assms(3,5,6) Inr Some a
        by (cases b) (auto simp: on_move_def Let_def res nick_text intro!: text_send text_after_move text_broadcast utf8_text_ascii)
    qed
  qed
qed

lemma text_room_disconnect: "world_text w \<Longrightarrow> world_text (room_disconnect rid p w)"
  by (auto simp: room_disconnect_def Let_def split: option.split
      intro!: text_set_room_opt text_set_room text_update_rating text_send)

lemma text_room_leave: "world_text w \<Longrightarrow> world_text (room_leave p w)"
  by (simp add: room_leave_def text_room_disconnect split: option.split)

lemma text_handle_leave: "world_text w \<Longrightarrow> world_text (handle_leave p w)"
  unfolding handle_leave_def
  by (intro text_send text_set_room text_room_leave text_remove_from_queue text_status) simp_all

lemma text_on_disconnect: "world_text w \<Longrightarrow> world_text (on_disconnect p w)"
  by (simp add: on_disconnect_def Let_def text_broadcast_queue_size text_room_leave text_remove_from_queue)

lemma text_accept: "world_text w \<Longrightarrow> world_text (accept p w)"
  by (auto simp: accept_def world_text_def new_session_def)

lemma text_on_chat: "world_text w \<Longrightarrow> utf8_text tx \<Longrightarrow> world_text (on_chat rid p tx w)"
  by (auto simp: on_chat_def nick_text split: option.split intro!: text_send)

lemma text_handle_chat: "world_text w \<Longrightarrow> utf8_text tx \<Longrightarrow> world_text (handle_chat p tx w)"
  by (auto simp: handle_chat_def split: option.split intro!: text_send text_on_chat utf8_text_ascii)

lemma text_draws:
  assumes "world_text w" "reachable (r_position (rooms w ! rid))"
  shows "world_text (on_draw_request rid p w)" "world_text (snd (on_draw_accept rid p w))"
    "world_text (snd (on_draw_decline rid p w))"
proof -
  show "world_text (on_draw_request rid p w)"
    using assms by (auto simp: on_draw_request_def Let_def nick_text split: option.split intro!: text_send)
  show "world_text (snd (on_draw_accept rid p w))"
    using assms by (auto simp: on_draw_accept_def Let_def sql_plain_def intro!: text_end_game)
  show "world_text (snd (on_draw_decline rid p w))"
    using assms by (auto simp: on_draw_decline_def Let_def nick_text intro!: text_send_opt)
qed

lemma text_if: "world_text a \<Longrightarrow> world_text b \<Longrightarrow> world_text (if c then a else b)"
  by simp

lemma text_answer:
  "world_text w' \<Longrightarrow> ascii_text ok \<Longrightarrow> ascii_text err \<Longrightarrow>
     world_text (case (b, w') of (True, v) \<Rightarrow> send p (StatusOk ok) v | (False, v) \<Rightarrow> send p (StatusError err) v)"
  by (cases b) (simp_all add: text_send utf8_text_ascii)

lemma text_handle_draw:
  assumes "world_inv w" "rooms_ok w" "world_text w"
  shows "world_text (handle_draw p action w)"
proof (cases "p_room (players w p)")
  case None
  then show ?thesis using assms(3) by (auto simp: handle_draw_def intro!: text_send utf8_text_ascii)
next
  case (Some rid)
  then have "rid < length (rooms w)" using assms(1) unfolding world_inv_def room_inv_def by blast
  then have ok: "reachable (r_position (rooms w ! rid))" using room_ok_at [OF assms(2)] by (simp add: room_ok_def)
  obtain b w1 where a: "on_draw_accept rid p w = (b, w1)" by (metis surj_pair)
  obtain c w2 where d: "on_draw_decline rid p w = (c, w2)" by (metis surj_pair)
  have rest: "world_text w1" "world_text w2"
    using text_draws [OF assms(3) ok, of p] by (simp_all add: a d)
  show ?thesis
    unfolding handle_draw_def Some option.case Let_def a d
    by (intro text_if text_answer text_send text_status text_draws(1) rest assms(3) ok) simp_all
qed

lemma text_start_match:
  assumes "world_text w" "reachable pos"
  shows "world_text (start_match a b pos w)"
proof -
  let ?w1 = "remove_from_queue b (remove_from_queue a w)"
  let ?w2 = "?w1\<lparr>rooms := rooms ?w1 @ [new_room a b pos]\<rparr>"
  have w3: "world_text (set_room b (Some r) (set_room a (Some r) ?w2))" for r
    using assms(1) by (intro text_set_room) (simp add: text_remove_from_queue)
  have "rooms (set_room b (Some (length (rooms ?w1))) (set_room a (Some (length (rooms ?w1))) ?w2)) ! length (rooms ?w1) = new_room a b pos"
    by (simp del: remove_from_queue_fields)
  then show ?thesis
    unfolding start_match_def Let_def start_room_def using w3 get_fen_text [OF assms(2)]
    by (intro text_send_opt) (auto simp: nick_text utf8_text_ascii new_room_def)
qed

lemma text_handle_queue:
  assumes "world_text w" "reachable pos"
  shows "world_text (handle_queue srt pos p w)"
proof -
  have m: "world_text (try_matchmake srt pos v)" if "world_text v" for v
    unfolding try_matchmake_def Let_def by (intro text_if that text_start_match assms(2))
  have "world_text (set_player p (\<lambda>pl. pl\<lparr>p_in_queue := True\<rparr>) w)"
    by (rule text_set_player [OF assms(1)]) (simp add: nick_text assms(1))
  then show ?thesis
    unfolding handle_queue_def Let_def
    by (intro text_if m text_broadcast_queue_size text_send text_status assms(1)) simp_all
qed

lemma text_handle_auth:
  assumes "world_text w" "\<And>u. login nick password = Some u \<Longrightarrow> utf8_text (u_nickname u)"
  shows "world_text (handle_auth login p nick password w)"
proof (cases "login nick password")
  case (Some u)
  have "world_text (set_player p (\<lambda>pl. pl\<lparr>p_authorized := True, p_nick := u_nickname u, p_rating := u_rating u, p_user_id := u_id u\<rparr>) w)"
    by (rule text_set_player [OF assms(1)]) (simp add: assms(2) [OF Some])
  then show ?thesis
    using assms(1) by (auto simp: handle_auth_def Let_def Some intro!: text_send utf8_text_ascii)
qed (use assms(1) in \<open>auto simp: handle_auth_def intro!: text_send utf8_text_ascii\<close>)

fun command_text :: "command \<Rightarrow> bool" where
  "command_text (Auth nick password) \<longleftrightarrow> utf8_text nick"
| "command_text (Chat tx) \<longleftrightarrow> utf8_text tx"
| "command_text (MoveCmd f t pr) \<longleftrightarrow> utf8_text f \<and> utf8_text t"
| "command_text _ \<longleftrightarrow> True"

text \<open>The database answers a login with a UTF-8 nickname.\<close>

definition login_text :: "(string \<Rightarrow> string \<Rightarrow> user_info option) \<Rightarrow> command \<Rightarrow> bool" where
  "login_text login cmd \<longleftrightarrow>
     (case cmd of Auth nick password \<Rightarrow> pred_option (\<lambda>u. utf8_text (u_nickname u)) (login nick password) | _ \<Rightarrow> True)"

definition leaders_text :: "(int \<times> string \<times> int) list \<Rightarrow> bool" where
  "leaders_text leaders \<longleftrightarrow> list_all (\<lambda>(i, nick, rating). utf8_text nick) leaders"

lemma text_handle_command:
  assumes "world_inv w" "rooms_ok w" "world_text w" "reachable pos" "command_text cmd" "login_text login cmd"
    "cmd = LeaderboardCmd \<Longrightarrow> leaders_text leaders"
  shows "world_text (handle_command login leaders srt pos p cmd w)"
proof (cases cmd)
  case (Auth nick password)
  then show ?thesis using assms(5,6) text_handle_auth [OF assms(3)] by (simp add: handle_command_def login_text_def pred_option_def)
next
  case (MoveCmd f t pr)
  then have "world_text (handle_move p f t pr w)"
    using assms(3,5) text_on_move [OF assms(1-3)] by (auto simp: handle_move_def split: option.split intro!: text_send utf8_text_ascii)
  then show ?thesis using assms(3) MoveCmd by (auto simp: handle_command_def intro!: text_send utf8_text_ascii)
next
  case LeaderboardCmd
  then show ?thesis using assms(3,7)
    by (auto simp: handle_command_def handle_leaderboard_def leaders_text_def intro!: text_send utf8_text_ascii)
qed (use assms(3,5) in \<open>auto simp: handle_command_def text_handle_queue [OF assms(3,4)] text_handle_leave text_handle_chat text_handle_draw [OF assms(1-3)]
    intro!: text_send utf8_text_ascii\<close>)

section \<open>Lines\<close>

text \<open>The texts of a parsed request are UTF-8.\<close>

lemma value_string_text:
  assumes "json_ok j" "value_string j k [] = Inr s"
  shows "utf8_text s"
proof -
  obtain ms where ms: "j = JObject ms" using assms(2) by (cases j) (simp_all add: value_string_def json_value_def)
  show ?thesis
  proof (cases "map_of ms k")
    case None
    then show ?thesis using assms(2) ms by (simp add: value_string_def json_value_def)
  next
    case (Some v)
    then have "json_ok v" using assms(1) ms map_of_SomeD [OF Some] by auto
    then show ?thesis using assms(2) ms Some by (cases v) (simp_all add: value_string_def json_value_def json_string_def)
  qed
qed

lemma made_text: "made r = Inr (Some m) \<Longrightarrow> \<exists>b. r = Inr (m, b)"
  by (cases r) (auto simp: made_def)

lemma from_json_text:
  assumes "json_ok j"
  shows "auth_from_json j = Inr (m, b) \<Longrightarrow> list_all utf8_text (message_texts m)"
    "move_from_json j = Inr (m, b) \<Longrightarrow> list_all utf8_text (message_texts m)"
    "chat_from_json j = Inr (m, b) \<Longrightarrow> list_all utf8_text (message_texts m)"
    "draw_from_json j = Inr (m, b) \<Longrightarrow> list_all utf8_text (message_texts m)"
    "queue_from_json j = Inr (m, b) \<Longrightarrow> list_all utf8_text (message_texts m)"
    "leave_from_json j = Inr (m, b) \<Longrightarrow> list_all utf8_text (message_texts m)"
    "ping_from_json j = Inr (m, b) \<Longrightarrow> list_all utf8_text (message_texts m)"
  using value_string_text [OF assms]
  by (auto simp: from_json_defs bind_res_Inr split: if_splits)

lemma create_text:
  assumes "json_ok j" "create j = Inr (Some m)"
  shows "list_all utf8_text (message_texts m)"
proof -
  obtain ms where j: "j = JObject ms" using create_not_object [of j] assms(2) by auto
  obtain t where t: "type_is ms t" using create_no_type [of ms m] assms(2) j by blast
  have "t \<in> set (map fst request_fields)"
    using create_other(1) [OF t] assms(2) j by auto
  then have "t = ''auth'' \<or> t = ''move'' \<or> t = ''chat'' \<or> t = ''draw'' \<or> t = ''queue'' \<or> t = ''leave'' \<or> t = ''ping''"
    by (simp only: request_names insert_iff empty_iff simp_thms)
  then show ?thesis
  proof (elim disjE)
    assume "t = ''auth''"
    then have "made (auth_from_json j) = Inr (Some m)" using create_types(1) [of ms] t j assms(2) by simp
    then show ?thesis using made_text from_json_text(1) [OF assms(1)] by blast
  next
    assume "t = ''move''"
    then have "made (move_from_json j) = Inr (Some m)" using create_types(2) [of ms] t j assms(2) by simp
    then show ?thesis using made_text from_json_text(2) [OF assms(1)] by blast
  next
    assume "t = ''chat''"
    then have "made (chat_from_json j) = Inr (Some m)" using create_types(3) [of ms] t j assms(2) by simp
    then show ?thesis using made_text from_json_text(3) [OF assms(1)] by blast
  next
    assume "t = ''draw''"
    then have "made (draw_from_json j) = Inr (Some m)" using create_types(4) [of ms] t j assms(2) by simp
    then show ?thesis using made_text from_json_text(4) [OF assms(1)] by blast
  next
    assume "t = ''queue''"
    then have "made (queue_from_json j) = Inr (Some m)" using create_types(5) [of ms] t j assms(2) by simp
    then show ?thesis using made_text from_json_text(5) [OF assms(1)] by blast
  next
    assume "t = ''leave''"
    then have "made (leave_from_json j) = Inr (Some m)" using create_types(6) [of ms] t j assms(2) by simp
    then show ?thesis using made_text from_json_text(6) [OF assms(1)] by blast
  next
    assume "t = ''ping''"
    then have "made (ping_from_json j) = Inr (Some m)" using create_types(7) [of ms] t j assms(2) by simp
    then show ?thesis using made_text from_json_text(7) [OF assms(1)] by blast
  qed
qed

lemma parsed_command:
  obtains (invalid) "command_of (parse_command strtod raw) = Invalid"
  | (request) m where "command_of (parse_command strtod raw) = command_of (from_protocol_message m)"
      "list_all utf8_text (message_texts m)"
proof -
  have "command_of empty_command = Invalid" by (simp add: command_of_def empty_command_def)
  then show ?thesis using parse_command_cases [of strtod raw] create_text json_parse_ok invalid request by metis
qed

lemma parsed_command_text: "command_text (command_of (parse_command strtod raw))"
  by (rule parsed_command [of strtod raw]) (auto simp: command_of_types split: message.splits)

lemma parsed_command_no_leaderboard: "command_of (parse_command strtod raw) \<noteq> LeaderboardCmd"
  by (rule parsed_command [of strtod raw]) (auto simp: command_of_types split: message.splits)

text \<open>A session hands the line that it read to \<open>handle_command\<close>.\<close>

definition receive ::
    "(string \<Rightarrow> u64) \<Rightarrow> (string \<Rightarrow> string \<Rightarrow> user_info option) \<Rightarrow> (int \<times> string \<times> int) list \<Rightarrow>
      ((nat \<Rightarrow> int) \<Rightarrow> nat list \<Rightarrow> nat list) \<Rightarrow> position \<Rightarrow> nat \<Rightarrow> string \<Rightarrow> world \<Rightarrow> world" where
  "receive strtod login leaders srt pos p raw w =
     handle_command login leaders srt pos p (command_of (parse_command strtod raw)) w"

definition start_world :: world where
  "start_world = \<lparr>players = (\<lambda>_. new_session), all_players = [], queue = [], rooms = [], outbox = [], db_log = []\<rparr>"

inductive line_run ::
    "(string \<Rightarrow> u64) \<Rightarrow> ((nat \<Rightarrow> int) \<Rightarrow> nat list \<Rightarrow> nat list) \<Rightarrow> position \<Rightarrow> world \<Rightarrow> bool"
    for strtod srt pos where
  boot: "line_run strtod srt pos start_world"
| connect: "line_run strtod srt pos w \<Longrightarrow> fresh_session w p \<Longrightarrow> line_run strtod srt pos (accept p w)"
| line: "line_run strtod srt pos w \<Longrightarrow> login_text login (command_of (parse_command strtod raw)) \<Longrightarrow>
    line_run strtod srt pos (receive strtod login leaders srt pos p raw w)"
| disconnect: "line_run strtod srt pos w \<Longrightarrow> line_run strtod srt pos (on_disconnect p w)"

lemma line_run_server_run: "line_run strtod srt pos w \<Longrightarrow> server_run srt pos w"
proof (induction rule: line_run.induct)
  case boot
  then show ?case unfolding start_world_def by (rule server_run.boot)
qed (auto simp: receive_def intro: server_run.intros)

lemma line_run_text:
  assumes "sorts srt" "reachable pos"
  shows "line_run strtod srt pos w \<Longrightarrow> world_text w"
proof (induction rule: line_run.induct)
  case boot
  then show ?case by (auto simp: world_text_def start_world_def new_session_def)
next
  case (line w login leaders p raw)
  note r = line_run_server_run [OF line.hyps(1)]
  show ?case unfolding receive_def
    by (rule text_handle_command [OF server_run_inv [OF r assms(1)] server_run_ok [OF r assms(1,2)] line.IH assms(2)
        parsed_command_text line.hyps(2)]) (simp add: parsed_command_no_leaderboard)
qed (auto simp: text_accept text_on_disconnect)

end
