(* ===== verification/ClientLib.thy ===== *)
theory ClientLib
  imports ClientBoard ServerJson
begin

text \<open>
  What the properties of the client rest on: the feed after any number of messages, the texts cut
  out of a line, and the commands that the console requests become on the server.
\<close>

section \<open>The feed\<close>

lemma pop_feed_drop: "pop_feed q = drop (length q - kFeedMax) q"
proof (induction q rule: pop_feed.induct)
  case (1 q)
  show ?case
  proof (cases "length q > kFeedMax")
    case True
    then show ?thesis using "1.IH" by (simp add: pop_feed.simps [of q] drop_Suc [symmetric] Suc_diff_Suc)
  qed (simp add: pop_feed.simps [of q])
qed

lemma pop_feed_snoc: "pop_feed (pop_feed q @ [m]) = pop_feed (q @ [m])"
proof (cases "length q \<le> kFeedMax")
  case False
  then have "length (pop_feed q @ [m]) - kFeedMax = 1" "length (q @ [m]) - kFeedMax = Suc (length q - kFeedMax)"
    by (simp_all add: pop_feed_drop)
  then show ?thesis using False by (simp add: pop_feed_drop [of "pop_feed q @ [m]"] pop_feed_drop [of "q @ [m]"])
      (simp add: pop_feed_drop drop_Suc tl_drop)
qed (simp add: pop_feed_drop)

lemma pop_feed_length: "length (pop_feed q) \<le> kFeedMax"
  by (simp add: pop_feed_drop)

lemma pop_feed_short: "length q \<le> kFeedMax \<Longrightarrow> pop_feed q = q"
  by (simp add: pop_feed_drop)

text \<open>\<open>shows ui ms ui'\<close>: the messages \<open>ms\<close> were pushed one after the other, and the nick and the shape of the board stayed.\<close>

definition shows_msgs :: "client_ui \<Rightarrow> string list \<Rightarrow> client_ui \<Rightarrow> bool" where
  "shows_msgs ui ms ui' \<longleftrightarrow>
     ui_feed ui' = pop_feed (ui_feed ui @ ms) \<and>
     ui_nick ui' = ui_nick ui \<and> (is_board (ui_board ui) \<longrightarrow> is_board (ui_board ui'))"

definition feed_ok :: "client_ui \<Rightarrow> bool" where
  "feed_ok ui \<longleftrightarrow> length (ui_feed ui) \<le> kFeedMax"

lemma shows_feed_ok: "shows_msgs ui ms ui' \<Longrightarrow> feed_ok ui'"
  by (simp add: shows_msgs_def feed_ok_def pop_feed_length)

lemma shows_refl: "feed_ok ui \<Longrightarrow> shows_msgs ui [] ui"
  by (simp add: shows_msgs_def feed_ok_def pop_feed_short)

lemma shows_status: "shows_msgs ui ms ui' \<Longrightarrow> shows_msgs ui ms (ui'\<lparr>ui_status := st\<rparr>)"
  by (simp add: shows_msgs_def)

lemma shows_board: "shows_msgs ui ms ui' \<Longrightarrow> (is_board (ui_board ui') \<Longrightarrow> is_board b) \<Longrightarrow> shows_msgs ui ms (ui'\<lparr>ui_board := b\<rparr>)"
  by (simp add: shows_msgs_def)

lemma shows_push: "shows_msgs ui ms ui' \<Longrightarrow> shows_msgs ui (ms @ [m]) (push_feed m ui')"
  using pop_feed_snoc [of "ui_feed ui @ ms" m] by (simp add: shows_msgs_def push_feed_def)

lemma put_cell_board: "put_cell y x g b = Some b' \<Longrightarrow> is_board b \<Longrightarrow> is_board b'"
  using is_board_put_at [of b "nat y" "nat x" g] by (simp add: put_cell_def put_at_def split: if_splits)

lemma put_empty_board: "put_empty n y x b = Some b' \<Longrightarrow> is_board b \<Longrightarrow> is_board b'"
  by (induction n y x b rule: put_empty.induct) (auto dest: put_cell_board split: option.splits)

lemma fen_cells_board: "fen_cells cs y x b = Some b' \<Longrightarrow> is_board b \<Longrightarrow> is_board b'"
proof (induction cs y x b rule: fen_cells.induct)
  case (2 ch cs y x b)
  consider "ch = CHR ''/''" | "ch \<noteq> CHR ''/''" "isdigit ch" | "ch \<noteq> CHR ''/''" "\<not> isdigit ch" by blast
  then show ?case
    using 2 by cases (simp_all split: option.splits add: put_empty_board put_cell_board)
qed simp

lemma shows_fen: "shows_msgs ui ms ui1 \<Longrightarrow> show_fen fen ui1 = Some ui2 \<Longrightarrow> shows_msgs ui ms ui2"
  using fen_cells_board by (auto simp: show_fen_def update_board_from_fen_def intro!: shows_board)

lemma sq_to_idx_less: "sq_to_idx sq = Some p \<Longrightarrow> fst p < 8 \<and> snd p < 8"
proof -
  assume a: "sq_to_idx sq = Some p"
  define f r where "f = byte (tolower (sq ! 0))" and "r = byte (sq ! 1)"
  have "\<not> (f < 97 \<or> f > 104 \<or> r < 49 \<or> r > 56)" "p = (8 - (r - 48), f - 97)"
    using a unfolding sq_to_idx_def Let_def f_def [symmetric] r_def [symmetric] by (simp_all split: if_splits)
  then show ?thesis by auto
qed

lemma shows_move: "shows_msgs ui ms ui1 \<Longrightarrow> \<exists>ms'. shows_msgs ui (ms @ ms') (apply_client_move f t ui1)"
proof (cases "sq_to_idx f = None \<or> sq_to_idx t = None")
  case True
  then show "shows_msgs ui ms ui1 \<Longrightarrow> ?thesis"
    using shows_push by (fastforce simp: apply_client_move_def split: option.splits)
next
  case False
  then obtain p q where pq: "sq_to_idx f = Some p" "sq_to_idx t = Some q" by auto
  then have "fst p < 8" "fst q < 8" using sq_to_idx_less by blast+
  then show "shows_msgs ui ms ui1 \<Longrightarrow> ?thesis"
    by (auto simp: apply_client_move_def pq set_cell_def shows_msgs_def put_at_def [symmetric] intro!: exI [of _ "[]"])
qed

text \<open>The outcome of an event has pushed at least one message when it returned.\<close>

definition good_outcome :: "client_ui \<Rightarrow> outcome \<Rightarrow> bool" where
  "good_outcome ui out \<longleftrightarrow>
     (case out of
        Returned ui' \<Rightarrow> \<exists>ms. ms \<noteq> [] \<and> shows_msgs ui ms ui'
      | Threw ui' \<Rightarrow> \<exists>ms. shows_msgs ui ms ui'
      | Undefined \<Rightarrow> True)"

lemma good_with_value:
  "shows_msgs ui ms ui1 \<Longrightarrow> (\<And>x. r = Inr x \<Longrightarrow> good_outcome ui (f x ui1)) \<Longrightarrow> good_outcome ui (with_value r f ui1)"
  by (cases r) (auto simp: with_value_def good_outcome_def)

lemma good_push: "shows_msgs ui ms ui1 \<Longrightarrow> good_outcome ui (Returned (push_feed m ui1))"
  unfolding good_outcome_def by (simp, intro exI [of _ "ms @ [m]"] conjI) (simp_all add: shows_push)

lemma list_players_good:
  "shows_msgs ui ms ui1 \<Longrightarrow> ms \<noteq> [] \<Longrightarrow> good_outcome ui (list_players rank ps ui1)"
proof (induction rank ps ui1 arbitrary: ms rule: list_players.induct)
  case (2 rank p ps ui1)
  show ?case
    unfolding list_players.simps
    by (rule good_with_value [OF "2.prems"(1)], rule good_with_value [OF "2.prems"(1)])
      (use "2.IH" shows_push [OF "2.prems"(1)] in blast)
qed (auto simp: good_outcome_def)

lemma move_event_good: "shows_msgs ui ms ui1 \<Longrightarrow> good_outcome ui (move_event d ui1)"
proof -
  assume s: "shows_msgs ui ms ui1"
  have "good_outcome ui (case (if fen \<noteq> [] then show_fen fen ui1 else Some (apply_client_move f t ui1)) of
         None \<Rightarrow> Undefined | Some ui' \<Rightarrow> Returned (push_feed m ui'))" for fen f t m
  proof (cases "fen \<noteq> []")
    case True
    then show ?thesis using good_push [OF shows_fen [OF s]] by (auto simp: good_outcome_def split: option.split)
  next
    case False
    obtain ms' where "shows_msgs ui (ms @ ms') (apply_client_move f t ui1)" using shows_move [OF s] by blast
    from good_push [OF this] False show ?thesis by simp
  qed
  then show ?thesis
    unfolding move_event_def by (intro good_with_value [OF s])
qed

lemma match_found_good: "shows_msgs ui ms ui1 \<Longrightarrow> good_outcome ui (match_found_event d ui1)"
proof -
  assume "shows_msgs ui ms ui1"
  note s = shows_status [OF this, of "''in_game''"]
  have "good_outcome ui (case show_fen fen (push_feed m (ui1\<lparr>ui_status := ''in_game''\<rparr>)) of None \<Rightarrow> Undefined | Some ui4 \<Rightarrow> Returned ui4)"
    for fen m
    using shows_fen [OF shows_push [OF s]] by (auto simp: good_outcome_def split: option.split)
  then show ?thesis
    unfolding match_found_event_def Let_def
    by (intro good_with_value [OF s]) (simp add: good_push [OF s] good_with_value [OF shows_push [OF s]])
qed

lemma game_over_good: "shows_msgs ui ms ui1 \<Longrightarrow> good_outcome ui (game_over_event d ui1)"
proof -
  assume "shows_msgs ui ms ui1"
  note s = shows_status [OF this, of "''menu''"]
  show ?thesis
    unfolding game_over_event_def
  proof (rule good_with_value [OF s])
    fix result
    show "good_outcome ui ((if result = ''checkmate''
        then with_value (value_string d ''winner'' []) (\<lambda>winner ui1. Returned (push_feed (''[game] checkmate! '' @ winner @ '' wins!'') ui1))
        else (\<lambda>ui1. Returned (push_feed
          (if result = ''stalemate'' then ''[game] stalemate! Game drawn.''
           else if result = ''draw_agreed'' then ''[game] draw agreed!''
           else if result = ''threefold_repetition'' then ''[game] threefold repetition! Game drawn.''
           else if result = ''fifty_move_rule'' then ''[game] fifty move rule! Game drawn.''
           else ''[game] game over: '' @ result) ui1))) (ui1\<lparr>ui_status := ''menu''\<rparr>))"
      by (cases "result = ''checkmate''") (simp_all only: simp_thms if_True if_False good_push [OF s] good_with_value [OF s])
  qed
qed

lemma good_if: "good_outcome ui a \<Longrightarrow> good_outcome ui b \<Longrightarrow> good_outcome ui (if c then a else b)"
  by simp

lemma on_event_good: "shows_msgs ui ms ui1 \<Longrightarrow> good_outcome ui (on_event event d ui1)"
proof -
  assume s: "shows_msgs ui ms ui1"
  have lb: "good_outcome ui (with_value r (\<lambda>players ui. list_players 1 (json_items players) ui) (push_feed m ui1))" for r m
    by (rule good_with_value [OF shows_push [OF s]]) (rule list_players_good [OF shows_push [OF s]], simp)
  show ?thesis
    unfolding on_event_def
    by ((rule s | rule lb | rule good_if | rule move_event_good | rule match_found_good | rule game_over_good | rule good_push
        | rule good_with_value | rule shows_status)+)
qed

lemma handle_json_good: "feed_ok ui \<Longrightarrow> good_outcome ui (handle_json line jn ui)"
proof -
  assume "feed_ok ui"
  then have s: "shows_msgs ui [] ui" by (rule shows_refl)
  have e: "good_outcome ui ((if t = ''event'' then with_value r (\<lambda>event. with_value r' (\<lambda>d. on_event event d))
      else (\<lambda>ui. Returned (push_feed m ui))) ui)" for t r r' m
    by (cases "t = ''event''") (simp_all only: simp_thms if_True if_False good_push [OF s] good_with_value [OF s] on_event_good [OF s])
  show ?thesis
    unfolding handle_json_def
    by (intro good_if good_with_value [OF s] good_push [OF s] e)
qed

lemma incoming_line:
  assumes "feed_ok ui" "process_incoming_line strtod line ui = Some ui'"
  shows "\<exists>ms. ms \<noteq> [] \<and> shows_msgs ui ms ui'"
proof (cases "json_parse strtod False line")
  case (Inl e)
  then show ?thesis
    using assms shows_push [OF shows_refl [OF assms(1)], of "''[raw] '' @ line"] by (auto simp: process_incoming_line_def)
next
  case (Inr jn)
  show ?thesis
    using handle_json_good [OF assms(1), of line jn] assms(2) shows_push [of ui]
    by (auto simp: process_incoming_line_def Inr good_outcome_def split: outcome.splits)
qed

section \<open>Pieces of a line\<close>

text \<open>A test that answers the same for all bytes beyond ASCII never cuts a UTF-8 text inside a code point.\<close>

lemma codepoint_high: "scalar_value cp \<Longrightarrow> 0x80 \<le> cp \<Longrightarrow> codepoint_bytes cp \<noteq> [] \<and> (\<forall>c \<in> set (codepoint_bytes cp). 0x80 \<le> byte c)"
proof -
  assume a: "scalar_value cp" "0x80 \<le> cp"
  then consider "cp \<le> 0x7FF" | "0x800 \<le> cp" "cp \<le> 0xFFFF" | "0x10000 \<le> cp" "cp \<le> 0x10FFFF"
    by (fastforce simp: scalar_value_def)
  then show ?thesis
  proof cases
    case 1
    then have "cp div 64 < 32" by simp
    then show ?thesis using a 1 by (simp add: codepoint_bytes_2 byte_char_of)
  next
    case 2
    then have "cp div 4096 < 16" by simp
    then show ?thesis using 2 by (simp add: codepoint_bytes_3 byte_char_of)
  next
    case 3
    then have "cp div 262144 < 5" by simp
    then show ?thesis using 3 by (simp add: codepoint_bytes_4 byte_char_of)
  qed
qed

lemma utf8_text_ConsI: "byte c < 0x80 \<Longrightarrow> utf8_text s \<Longrightarrow> utf8_text (c # s)"
  using utf8_text_append [OF ascii_text, of c s] by simp

lemma utf8_text_cut:
  assumes P: "\<And>c. 0x80 \<le> byte c \<Longrightarrow> P c = v"
  shows "utf8_text s \<Longrightarrow> utf8_text (takeWhile P s) \<and> utf8_text (dropWhile P s)"
proof -
  have "list_all scalar_value cps \<Longrightarrow> utf8_text (takeWhile P (concat (map codepoint_bytes cps))) \<and>
      utf8_text (dropWhile P (concat (map codepoint_bytes cps)))" for cps
  proof (induction cps)
    case (Cons cp cps)
    let ?rest = "concat (map codepoint_bytes cps)"
    have sv: "scalar_value cp" and rest: "utf8_text ?rest" using Cons.prems by (auto simp: utf8_text_def)
    have whole: "utf8_text (codepoint_bytes cp @ ?rest)" using utf8_text_append [OF utf8_text_codepoint [OF sv] rest] .
    show ?case
    proof (cases "cp < 0x80")
      case True
      then show ?thesis using Cons whole by (simp add: codepoint_bytes_1 utf8_text_ConsI byte_char_of)
    next
      case False
      then have h: "codepoint_bytes cp \<noteq> []" "\<forall>c \<in> set (codepoint_bytes cp). P c = v"
        using codepoint_high [OF sv] P by auto
      show ?thesis
      proof (cases v)
        case True
        then show ?thesis using h Cons utf8_text_append [OF utf8_text_codepoint [OF sv]] by simp
      next
        case False
        then obtain c cs where "codepoint_bytes cp = c # cs" "\<not> P c" using h by (cases "codepoint_bytes cp") auto
        then show ?thesis using whole by simp
      qed
    qed
  qed simp
  then show "utf8_text s \<Longrightarrow> ?thesis" by (auto simp: utf8_text_def)
qed

lemma isspace_high: "0x80 \<le> byte c \<Longrightarrow> isspace c = False"
  by (simp add: isspace_def)

lemma utf8_text_words:
  assumes "utf8_text s" "next_word s = (word, rest)"
  shows "utf8_text word \<and> utf8_text rest"
proof -
  have "utf8_text (dropWhile isspace s)"
    by (rule conjunct2 [OF utf8_text_cut [of isspace False, OF _ assms(1)]]) (simp add: isspace_high)
  then have "utf8_text (takeWhile (Not \<circ> isspace) (dropWhile isspace s)) \<and> utf8_text (dropWhile (Not \<circ> isspace) (dropWhile isspace s))"
    by (rule utf8_text_cut [of _ True, rotated]) (simp add: isspace_high)
  then show ?thesis using assms(2) by (auto simp: next_word_def Let_def)
qed

lemma utf8_text_tl: "utf8_text (c # s) \<Longrightarrow> byte c < 0x80 \<Longrightarrow> utf8_text s"
proof -
  assume a: "utf8_text (c # s)" "byte c < 0x80"
  obtain cps where cps: "list_all scalar_value cps" "c # s = concat (map codepoint_bytes cps)"
    using a(1) by (auto simp: utf8_text_def)
  then obtain cp cps' where cp: "cps = cp # cps'" by (cases cps) auto
  have "cp < 0x80"
  proof (rule ccontr)
    assume "\<not> cp < 0x80"
    then have "0x80 \<le> byte c" using codepoint_high [of cp] cps cp by (cases "codepoint_bytes cp") auto
    then show False using a(2) by simp
  qed
  then have "s = concat (map codepoint_bytes cps')" using cps(2) cp by (simp add: codepoint_bytes_1)
  then show ?thesis using cps(1) cp by (auto simp: utf8_text_def)
qed

lemma utf8_text_drop: "utf8_text (s @ t) \<Longrightarrow> list_all (\<lambda>c. byte c < 0x80) s \<Longrightarrow> utf8_text t"
  by (induction s) (auto dest: utf8_text_tl)

section \<open>Requests of the console on the server\<close>

definition on_server :: "(u64 \<Rightarrow> string) \<Rightarrow> (string \<Rightarrow> u64) \<Rightarrow> json \<Rightarrow> command \<Rightarrow> bool" where
  "on_server ftoa strtod j c \<longleftrightarrow>
     (\<exists>line. serialize_json ftoa j = Inr line \<and> command_of (parse_command strtod line) = c)"

lemma on_server_request:
  "list_all utf8_text (message_texts m) \<Longrightarrow> command_of (from_protocol_message m) = c \<Longrightarrow> on_server ftoa strtod (to_json m) c"
  using request_round_trip [of m ftoa strtod] by (auto simp: on_server_def)

lemma on_server_unknown:
  assumes "list_all (\<lambda>c. byte c < 0x80) t" "t \<notin> set (map fst request_fields)"
  shows "on_server ftoa strtod (json_object [(''type'', JString t)]) Invalid"
proof -
  let ?j = "json_object [(''type'', JString t)]"
  have j: "?j = JObject [(''type'', JString t)]" by (simp add: json_object_def)
  have p: "printable ?j" by (rule printable_object) (simp add: utf8_text_ascii assms(1))
  obtain tx where tx: "json_dump ftoa compact_layout 0 ?j = Inr tx" "json_parse strtod False tx = Inr ?j"
    using json_round [OF good_compact p] by blast
  obtain t' where t': "tx = CHR ''{'' # t' @ [CHR ''}'']"
    using dump_object_braces [OF tx(1) [unfolded j]] by blast
  have "trim (tx @ [CHR 0x0A]) = tx" unfolding t' by (rule trim_object_text)
  moreover have "create ?j = Inr None" unfolding j by (rule create_other(1) [OF _ assms(2)]) (simp add: type_is_def)
  ultimately have "parse_command strtod (tx @ [CHR 0x0A]) = empty_command" using tx(2) by (simp add: parse_command_def)
  then show ?thesis using tx(1) by (auto simp: on_server_def serialize_json_def command_of_def empty_command_def)
qed

lemma printable_json_ok: "printable j \<Longrightarrow> json_ok j"
  by (induction j rule: json_ok.induct) auto

section \<open>The move message\<close>

lemma get_fen_not_Nil: "get_fen pos \<noteq> []"
  by (simp add: get_fen_def)

lemma handle_move_json:
  assumes "wf_pieces (pieces_of pos)" "is_board (ui_board ui)"
  shows "handle_json line (move_json f t by_nick (get_fen pos)) ui =
    Returned (push_feed (''[move] '' @ by_nick @ '': '' @ f @ '' -> '' @ t) (ui\<lparr>ui_board := picture (pieces_of pos)\<rparr>))"
proof -
  have j: "move_json f t by_nick (get_fen pos) = json_object [(''type'', JString ''event''), (''event'', JString ''move''),
      (''data'', json_object [(''from'', JString f), (''to'', JString t), (''by'', JString by_nick), (''fen'', JString (get_fen pos))])]"
    by (simp add: move_json_def event_json_def)
  have e: "on_event ''move'' d ui = move_event d ui" for d by (simp add: on_event_def)
  have "show_fen (get_fen pos) ui = Some (ui\<lparr>ui_board := picture (pieces_of pos)\<rparr>)"
    by (simp add: show_fen_def client_draws_placement [OF assms])
  then have m: "move_event (json_object [(''from'', JString f), (''to'', JString t), (''by'', JString by_nick), (''fen'', JString (get_fen pos))]) ui =
      Returned (push_feed (''[move] '' @ by_nick @ '': '' @ f @ '' -> '' @ t) (ui\<lparr>ui_board := picture (pieces_of pos)\<rparr>))"
    by (simp add: move_event_def with_value_def value_string_def json_string_def get_fen_not_Nil)
  show ?thesis
    unfolding j by (simp add: handle_json_def with_value_def value_string_def value_json_def json_string_def e m)
qed

end
