(* ===== verification/ChessProps.thy ===== *)
theory ChessProps
  imports Fen
begin

text \<open>
  The properties of the chess engine, each with a witness at a concrete input where it has
  hypotheses.
\<close>

section \<open>A position for the witnesses\<close>

text \<open>
  White: king e1, rook h1, pawn e7. Black: king a5, knight f8. White may promote on e8 or by
  capturing on f8.
\<close>

definition demo_boards :: boards where
  "demo_boards = (\<lambda>s t. if s = White then (if t = Pawn then set_1 0 52 else if t = King then set_1 0 4
       else if t = Rook then set_1 0 7 else 0)
     else (if t = King then set_1 0 32 else if t = Knight then set_1 0 61 else 0))"

definition demo_pieces :: pieces where
  "demo_pieces = update_bitboards (zero_pieces\<lparr>piece_bitboards := demo_boards\<rparr>)"

definition demo_rights :: castling where
  "demo_rights = \<lparr>w_l_castling = True, w_s_castling = True, b_l_castling = False, b_s_castling = False\<rparr>"

definition demo_position :: position where
  "demo_position = \<lparr>pieces_of = demo_pieces, en_passant = 255, rights = demo_rights, move_ctr = 0, hash = 0,
     fifty_moves_ctr = 0, history = [0]\<rparr>"

definition demo_move :: move where
  "demo_move = Move 52 60 Pawn White 255 255 PromoteToKnight"

lemma demo_wf: "wf_pieces demo_pieces"
proof -
  have "disjoint_boards demo_boards"
    unfolding disjoint_boards_def all_less_2 demo_boards_def
    by (simp add: bit_set_1 less_6_cases piece_type_defs piece_color_defs)
  then show ?thesis by (simp add: demo_pieces_def wf_pieces_def)
qed

lemma demo_inv: "game_inv demo_position" "home_king demo_position"
  using demo_wf
  by (auto simp: game_inv_def demo_position_def ep_dead_def home_king_def demo_pieces_def demo_boards_def
      demo_rights_def bits_of_def bit_set_1 piece_color_defs piece_type_defs)

lemma demo_side: "side_to_move demo_position = White"
  by (simp add: side_to_move_def demo_position_def)

lemma demo_candidates:
  "single_candidates demo_pieces White 255 demo_rights = promotions 52 60 White 255 255"
  by code_simp

lemma demo_generate: "generate_moves demo_position = generate_all_moves demo_pieces White 255 demo_rights"
  by (simp add: generate_moves_def demo_side) (simp add: demo_position_def)

lemma demo_generated: "demo_move \<in> set (generate_moves demo_position)"
proof -
  have "generate_moves demo_position = take MAX_MOVES (candidates demo_pieces White 255 demo_rights)"
    by (simp add: demo_generate generate_all_moves_eq)
  moreover obtain rest where "candidates demo_pieces White 255 demo_rights = demo_move # rest"
    by (simp add: candidates_def demo_candidates promotions_def demo_move_def)
  ultimately show ?thesis by (simp add: MAX_MOVES_def)
qed

lemma initial_exists: "\<exists>pos. initial_position = Some pos"
  using start_boards by (auto simp: initial_position_def)

lemma initial_move_ctr: "initial_position = Some pos \<Longrightarrow> move_ctr pos = 0"
  by (auto simp: initial_position_def position_of_pieces_def Let_def)

section \<open>Properties of the engine\<close>

text \<open>
  C12: every move that the generator offers in a position of a game is accepted by
  \<open>apply_move\<close>: the mover's king is not in check afterwards (by the engine's own test), so the
  roll back is never taken, for all games shorter than \<open>2 ^ 24\<close> half moves.
\<close>

theorem generated_moves_accepted:
  assumes "reachable pos" "move_ctr pos < 2 ^ 24" "m \<in> set (generate_moves pos)"
  shows "apply_move pos m = (True, play_move m pos)"
  using generated_accepted [OF _ _ assms(3)] reachable_play_inv [OF assms(1,2)] by (simp add: play_inv_def)

theorem generated_moves_accepted_witness:
  "\<exists>pos. initial_position = Some pos \<and> (\<forall>m \<in> set (generate_moves pos). apply_move pos m = (True, play_move m pos))"
proof -
  obtain pos where i: "initial_position = Some pos" using initial_exists by blast
  then have "apply_move pos m = (True, play_move m pos)" if "m \<in> set (generate_moves pos)" for m
    using generated_moves_accepted [OF reachable.start [OF i] _ that] initial_move_ctr [OF i] by simp
  then show ?thesis using i by blast
qed

text \<open>
  C4: the bitboards implement the abstract board: applying a generated move changes the map from
  squares to pieces exactly as \<open>abs_move\<close> says, on captures, promotions and castling alike.
\<close>

theorem make_refines_abs_move:
  assumes "game_inv pos" "m \<in> set (generate_moves pos)" "sq < 64"
  shows "board (pieces_of (play_move m pos)) sq = abs_move m (board (pieces_of pos)) sq"
  using abs_make [OF _ side_less game_inv_moves(1,2,3) [OF assms(1,2)] assms(3)] assms(1)
  by (simp add: game_inv_def)

theorem make_refines_abs_move_witness:
  "board (pieces_of (play_move demo_move demo_position)) 60 = abs_move demo_move (board demo_pieces) 60 \<and>
   abs_move demo_move (board demo_pieces) 60 = Some (White, Knight)"
  using make_refines_abs_move [OF demo_inv(1) demo_generated, of 60]
  by (simp add: demo_position_def)
    (simp add: abs_move_def demo_move_def put_on_def promoted_def flag_defs)

text \<open>
  C3: in every position of a game no square carries two pieces, the auxiliary boards agree with the
  piece boards, a side that may castle has its king at home or has lost it, and the history
  holds one hash per half move since the last irreversible one, the current one last.
\<close>

theorem reachable_invariant:
  assumes "reachable pos" "move_ctr pos < 2 ^ 24"
  shows "wf_pieces (pieces_of pos) \<and> home_king pos \<and>
    length (history pos) = fifty_moves_ctr pos + 1 \<and> last (history pos) = hash pos"
  using reachable_play_inv [OF assms] by (simp_all add: play_inv_def game_inv_def history_inv_def)

theorem reachable_invariant_witness:
  "\<exists>pos. initial_position = Some pos \<and> wf_pieces (pieces_of pos) \<and> length (history pos) = fifty_moves_ctr pos + 1"
proof -
  obtain pos where i: "initial_position = Some pos" using initial_exists by blast
  then show ?thesis using reachable_invariant [OF reachable.start [OF i]] initial_move_ctr [OF i] by auto
qed

text \<open>
  C31: no game ever offers an en-passant capture: after a double step of White the square is on the
  third rank with Black to move, and the generator looks for Black on the sixth (and the other way
  round), so the rule is lost.
\<close>

theorem no_en_passant_capture:
  assumes "reachable pos" "move_ctr pos < 2 ^ 24" "m \<in> set (generate_moves pos)"
  shows "mv_flag m \<noteq> EnPassantCapture"
  using game_inv_moves(2) [OF _ assms(3)] reachable_game_inv [OF assms(1,2)] by blast

theorem no_en_passant_capture_witness:
  "\<exists>pos. initial_position = Some pos \<and> (\<forall>m \<in> set (generate_moves pos). mv_flag m \<noteq> EnPassantCapture)"
proof -
  obtain pos where i: "initial_position = Some pos" using initial_exists by blast
  then have "mv_flag m \<noteq> EnPassantCapture" if "m \<in> set (generate_moves pos)" for m
    using no_en_passant_capture [OF reachable.start [OF i] _ that] initial_move_ctr [OF i] by simp
  then show ?thesis using i by blast
qed



text \<open>
  C30: a blocked ray, computed with one scan and one exclusive or, is the walk along the ray that
  stops before a piece of one's own and on a piece of the opponent, when the scan is the one that
  fits the direction (\<open>bsr\<close> for the directions in which square numbers fall).
\<close>

theorem blocked_ray_is_walk:
  assumes "bsr_flag \<longleftrightarrow> \<not> ascending d"
  shows "{n. bit (calc_blocked_ray p sq side False d bsr_flag) n} =
    set (walk (bit (all_bb p)) (bit (side_bitboards p (inverse_side side))) (ray_squares d sq))"
  using calc_blocked_ray_walk [OF assms] by (simp add: bits_of_def)

theorem blocked_ray_is_walk_witness:
  "{n. bit (calc_blocked_ray demo_pieces 7 White False West True) n} =
    set (walk (bit (all_bb demo_pieces)) (bit (side_bitboards demo_pieces Black)) (ray_squares West 7))"
  using blocked_ray_is_walk [of True West demo_pieces 7 White] by simp

text \<open>
  C32: the attack test answers for pawns, knights and the king by their geometry, and never for
  bishops, rooks and queens: it asks for the captures of the attacker's own colour.
\<close>

theorem is_square_attacked_geometry:
  assumes "wf_pieces p" "by_side < 2" "sq < 64"
  shows "is_square_attacked p sq by_side \<longleftrightarrow>
    (\<exists>f. bit (piece_bitboards p by_side Pawn) f \<and> absdiff (f mod 8) (sq mod 8) = 1 \<and>
         (if by_side = White then f div 8 + 1 = sq div 8 else f div 8 = sq div 8 + 1)) \<or>
    (\<exists>f. bit (piece_bitboards p by_side Knight) f \<and>
         {absdiff (sq mod 8) (f mod 8), absdiff (sq div 8) (f div 8)} = {1, 2}) \<or>
    (\<exists>f. bit (piece_bitboards p by_side King) f \<and>
         max (absdiff (sq mod 8) (f mod 8)) (absdiff (sq div 8) (f div 8)) = 1)"
  using assms by (simp only: is_square_attacked_eq is_square_attacked_by_pawns_iff
      is_square_attacked_by_knights_iff is_square_attacked_by_king_iff)

text \<open>The white rook on h1 sees h3 with nothing between, yet h3 is not attacked.\<close>

theorem is_square_attacked_geometry_witness:
  "\<not> is_square_attacked demo_pieces 23 White"
  using is_square_attacked_geometry [OF demo_wf, of White 23]
  by (auto simp: demo_pieces_def demo_boards_def bit_set_1 piece_type_defs piece_color_defs absdiff_def doubleton_eq_iff)

text \<open>
  The De Bruijn scans find the least and the greatest set bit of a bitboard, and Kernighan's
  loop counts its bits.
\<close>

lemma bit_scans:
  assumes "bb \<noteq> 0"
  shows "bsf bb = Min {n. bit bb n} \<and> bsr bb = Max {n. bit bb n} \<and> popcount bb = int (card {n. bit bb n})"
proof -
  have fin: "finite {n. bit bb n}" using finite_bits_of [of bb] by (simp add: bits_of_def)
  have "Min {n. bit bb n} = bsf bb" by (rule Min_eqI [OF fin]) (use bsf_le bsf_in [OF assms] in auto)
  moreover have "Max {n. bit bb n} = bsr bb" by (rule Max_eqI [OF fin]) (use bsr_ge bsr_in [OF assms] in auto)
  ultimately show ?thesis by (simp add: popcount_eq_card bits_of_def)
qed

text \<open>
  The loop with which every generator walks a bitboard visits exactly its set bits, each once
  and in ascending order.
\<close>

lemma scan_order: "scan_bits bb = filter (bit bb) [0..<64]"
  by (rule scan_bits_eq_filter)

text \<open>
  A position list never exceeds its capacity, and what it holds is the list of all candidates
  in the order of the generators, cut off there.
\<close>

lemma move_list_bound:
  "length (generate_all_moves p side ep cr) \<le> MAX_MOVES \<and>
   generate_all_moves p side ep cr = take MAX_MOVES (candidates p side ep cr)"
  by (simp add: generate_all_moves_eq)

text \<open>
  C33: how far the incremental hash is from the one the constructor would compute: a move adds the
  key that it toggles for the en-passant square, and the difference between the castling keys
  that it toggles by its start square and those of the rights it really took away.
\<close>

theorem incremental_hash_drift:
  assumes "game_inv pos" "m \<in> set (generate_moves pos)" "move_ctr pos < 2 ^ 24"
  shows "hash_drift (play_move m pos) = hash_drift pos XOR ep_toggle m (en_passant pos) XOR
    (castling_toggles (mv_from m) XOR rights_key (rights pos) XOR rights_key (rights (play_move m pos)))"
  by (rule hash_drift_make [OF assms])

theorem incremental_hash_drift_witness:
  "hash_drift (play_move demo_move demo_position) = hash_drift demo_position"
  using incremental_hash_drift [OF demo_inv(1) demo_generated]
  by (simp add: make_fields) (simp add: demo_position_def demo_move_def ep_toggle_def castling_toggles_def flag_defs demo_rights_def)

text \<open>
  C38: a draw by repetition is reported exactly when the current hash occurs three times among the
  hashes since the last irreversible move, and never before two half moves have passed since it.
\<close>

theorem threefold_repetition:
  assumes "history_inv pos"
  shows "(is_threefold_repetition pos \<longleftrightarrow> count_list (history pos) (hash pos) \<ge> 3) \<and>
    (is_threefold_repetition pos \<longrightarrow> fifty_moves_ctr pos \<ge> 2)"
proof -
  have "history pos \<noteq> []" "last (history pos) = hash pos" using assms by (auto simp: history_inv_def)
  then show ?thesis using threefold_needs_two_halves [OF assms] by (simp add: threefold_count)
qed

theorem threefold_repetition_witness:
  "is_threefold_repetition (demo_position\<lparr>history := [5, 7, 5, 9, 5], hash := 5, fifty_moves_ctr := 4, move_ctr := 9\<rparr>)"
  using threefold_repetition [of "demo_position\<lparr>history := [5, 7, 5, 9, 5], hash := 5, fifty_moves_ctr := 4, move_ctr := 9\<rparr>"]
  by (simp add: history_inv_def)



end
