(* ===== verification/ServerProps.thy ===== *)
theory ServerProps
  imports ServerInv ChessProps
begin

text \<open>The properties of the game server, with their witnesses.\<close>

section \<open>A run for the witnesses\<close>

definition no_login :: "string \<Rightarrow> string \<Rightarrow> user_info option" where
  "no_login nick password = Some \<lparr>u_id = 7, u_nickname = nick, u_rating = 1200, u_games_played = 0, u_games_won = 0, u_games_drawn = 0\<rparr>"

definition demo_start :: world where
  "demo_start = \<lparr>players = (\<lambda>_. new_session), all_players = [], queue = [], rooms = [], outbox = [], db_log = []\<rparr>"

lemma sorts_sort_key: "sorts (\<lambda>f xs. sort_key f xs)"
  by (simp add: sorts_def)

text \<open>Two sessions connect, log in and queue.\<close>

definition demo_world :: "position \<Rightarrow> world" where
  "demo_world pos =
     (let w1 = accept 2 (accept 1 demo_start);
          step = (\<lambda>p c w. handle_command no_login [] (\<lambda>f xs. sort_key f xs) pos p c w)
      in step 2 QueueCmd (step 1 QueueCmd (step 2 (Auth ''bob'' ''x'') (step 1 (Auth ''ann'' ''y'') w1))))"

lemma demo_run: "server_run (\<lambda>f xs. sort_key f xs) pos (demo_world pos)"
proof -
  have b: "server_run (\<lambda>f xs. sort_key f xs) pos demo_start"
    unfolding demo_start_def by (rule server_run.boot)
  have a1: "server_run (\<lambda>f xs. sort_key f xs) pos (accept 1 demo_start)"
    by (rule server_run.connect [OF b]) (simp add: fresh_session_def demo_start_def new_session_def)
  have a2: "server_run (\<lambda>f xs. sort_key f xs) pos (accept 2 (accept 1 demo_start))"
    by (rule server_run.connect [OF a1]) (simp add: fresh_session_def demo_start_def accept_def new_session_def)
  show ?thesis
    unfolding demo_world_def Let_def by (intro server_run.cmd a2)
qed

lemma demo_queue: "queue (demo_world pos) = []" and demo_room: "length (rooms (demo_world pos)) = 1"
  by (simp_all add: demo_world_def demo_start_def handle_command_def handle_auth_def handle_queue_def accept_def
      new_session_def no_login_def try_matchmake_def start_match_def Let_def sort_key_def)

section \<open>Properties\<close>

text \<open>
  C6: in every run of the server the queue holds no player twice, only authorized players without a
  room, and never two of them between requests; a player with a room is one of its two players
  and the other one, a different player, is in the same room.
\<close>

theorem server_invariant:
  assumes "server_run srt pos w" "sorts srt"
  shows "distinct (queue w) \<and> length (queue w) \<le> 1 \<and>
    (\<forall>p. p_in_queue (players w p) \<longleftrightarrow> p \<in> set (queue w)) \<and>
    (\<forall>p \<in> set (queue w). p_authorized (players w p) \<and> p_room (players w p) = None) \<and>
    (\<forall>p rid. p_room (players w p) = Some rid \<longrightarrow> rid < length (rooms w) \<and>
      (\<exists>q. q \<noteq> p \<and> opponent_of (rooms w ! rid) p = Some q \<and> p_room (players w q) = Some rid))"
  using server_run_inv [OF assms] unfolding world_inv_def queue_inv_def room_inv_def by blast

lemma demo_room_of: "p_room (players (demo_world pos) 1) = Some 0"
  by (simp add: demo_world_def demo_start_def handle_command_def handle_auth_def handle_queue_def accept_def
      new_session_def no_login_def try_matchmake_def start_match_def Let_def sort_key_def)

theorem server_invariant_witness:
  "0 < length (rooms (demo_world demo_position)) \<and>
   (\<exists>q. q \<noteq> 1 \<and> opponent_of (rooms (demo_world demo_position) ! 0) 1 = Some q \<and>
     p_room (players (demo_world demo_position) q) = Some 0)"
  using server_invariant [OF demo_run sorts_sort_key] demo_room_of [of demo_position] by blast

text \<open>
  C10: in every run the position of every room is one that moves generated and accepted by the engine
  lead to from the start of a game, and its two players differ.
\<close>

theorem rooms_hold_reachable_positions:
  assumes "server_run srt pos w" "sorts srt" "initial_position = Some pos" "r \<in> set (rooms w)"
  shows "reachable (r_position r) \<and> r_white r \<noteq> r_black r"
  using server_run_ok [OF assms(1,2) reachable.start [OF assms(3)]] assms(4)
  by (simp add: rooms_ok_def room_ok_def)

theorem rooms_hold_reachable_positions_witness:
  "\<exists>pos r. initial_position = Some pos \<and> r \<in> set (rooms (demo_world pos)) \<and> reachable (r_position r)"
proof -
  obtain pos where i: "initial_position = Some pos" using initial_exists by blast
  have "rooms (demo_world pos) \<noteq> []" using demo_room [of pos] by auto
  then obtain r where "r \<in> set (rooms (demo_world pos))" by (cases "rooms (demo_world pos)") auto
  then show ?thesis using rooms_hold_reachable_positions [OF demo_run sorts_sort_key i] i by blast
qed

text \<open>
  C16: a move command that succeeds comes from the player whose turn it is, makes a move that the
  engine generates and accepts, with the squares the command names, and changes the position of
  that room only.
\<close>

theorem move_command_accepted:
  assumes "on_move rid p f t pr w = (True, w')" "rid < length (rooms w)" "has (rooms w ! rid) p"
    "r_white (rooms w ! rid) \<noteq> r_black (rooms w ! rid)"
  shows "\<exists>m pos'. move_step (r_position (rooms w ! rid)) m pos' \<and>
    mv_from m = algebraic_to_index f \<and> mv_to m = algebraic_to_index t \<and>
    Some p = (if side_to_move (r_position (rooms w ! rid)) = White then r_white (rooms w ! rid) else r_black (rooms w ! rid)) \<and>
    rooms w' = (rooms w)[rid := (rooms w ! rid)\<lparr>r_position := pos'\<rparr>]"
  by (rule on_move_true [OF assms])

definition demo_game :: world where
  "demo_game = demo_start\<lparr>rooms := [new_room 1 2 demo_position]\<rparr>"

lemma demo_game_move: "\<exists>w'. on_move 0 1 ''e7'' ''e8'' ''n'' demo_game = (True, w')"
proof -
  have gen: "\<exists>rest. generate_moves demo_position = demo_move # rest"
    by (simp add: demo_generate generate_all_moves_eq candidates_def demo_candidates promotions_def demo_move_def MAX_MOVES_def)
  have idx: "algebraic_to_index ''e7'' = 52" "algebraic_to_index ''e8'' = 60" by (simp_all add: algebraic_to_index_def)
  have acc: "apply_move demo_position demo_move = (True, play_move demo_move demo_position)"
    by (rule generated_accepted [OF demo_inv demo_generated])
  have "find_move (generate_moves demo_position) 52 60 ''n'' = Inr (Some demo_move)"
    using gen by (auto simp: demo_move_def promotion_matches_def flag_defs)
  then show ?thesis
    by (simp add: on_move_def demo_game_def new_room_def demo_side idx acc Let_def)
qed

theorem move_command_accepted_witness:
  "\<exists>w' m pos'. on_move 0 1 ''e7'' ''e8'' ''n'' demo_game = (True, w') \<and> move_step demo_position m pos' \<and> mv_to m = 60"
proof -
  obtain w' where w: "on_move 0 1 ''e7'' ''e8'' ''n'' demo_game = (True, w')" using demo_game_move by blast
  have "algebraic_to_index ''e8'' = 60" by (simp add: algebraic_to_index_def)
  then show ?thesis
    using move_command_accepted [OF w] w by (auto simp: demo_game_def new_room_def has_def)
qed




text \<open>
  C34: the matchmaker pairs the two candidates that the sort puts first, whoever follows them: the
  search for the smallest difference in rating never moves past the second.
\<close>

theorem matchmaker_pairs_first_two:
  assumes "sorts srt" "2 \<le> length (queue w)"
  shows "try_matchmake srt pos w =
    (let c = srt (\<lambda>p. p_rating (players w p)) (queue w) in start_match (c ! 0) (c ! 1) pos w)"
  using matchmake_pair [OF assms] by (simp add: Let_def)

theorem matchmaker_pairs_first_two_witness:
  "try_matchmake (\<lambda>f xs. sort_key f xs) demo_position (demo_start\<lparr>queue := [3, 4]\<rparr>) =
     start_match 3 4 demo_position (demo_start\<lparr>queue := [3, 4]\<rparr>)"
  using matchmaker_pairs_first_two [OF sorts_sort_key, of "demo_start\<lparr>queue := [3, 4]\<rparr>" demo_position]
  by (simp add: demo_start_def new_session_def)

end
