(* ===== verification/ClientProps.thy ===== *)
theory ClientProps
  imports ClientLib ServerProps
begin

text \<open>The properties of the lines between the server and the console client, with their witnesses.\<close>

definition demo_ui :: client_ui where
  "demo_ui = reset_board \<lparr>ui_board = [], ui_feed = [], ui_nick = ''ann'', ui_status = ''menu''\<rparr>"

section \<open>Framing\<close>

text \<open>
  C36: a message is one line: what serialize_json writes for a well-formed value ends in the only line feed
  of its text, so the reader at the other end cuts exactly one message off.
\<close>

theorem message_is_one_line:
  assumes "json_ok j" "\<And>w. one_line (ftoa w)"
  shows "\<exists>t. serialize_json ftoa j = Inr (t @ [CHR 0x0A]) \<and> CHR 0x0A \<notin> set t \<and> read_line [] [t @ [CHR 0x0A]] = Some (t, [])"
proof -
  obtain t where t: "serialize_json ftoa j = Inr (t @ [CHR 0x0A])" "one_line t"
    using serialize_json_frame [OF _ assms(1), of ftoa] assms(2) by blast
  moreover have "takeWhile (\<lambda>c. c \<noteq> CHR 0x0A) (t @ [CHR 0x0A]) = t"
    by (rule takeWhile_field) (use one_line_no_lf [OF t(2)] in auto)
  ultimately show ?thesis using one_line_no_lf [OF t(2)] by auto
qed

lemma demo_float_text: "one_line ''0.5''"
  by simp

theorem message_is_one_line_witness:
  "\<exists>t. serialize_json (\<lambda>_. ''0.5'') (JArray [JString [CHR 0x0A], JFloat 0]) = Inr (t @ [CHR 0x0A]) \<and> CHR 0x0A \<notin> set t \<and>
     read_line [] [t @ [CHR 0x0A]] = Some (t, [])"
proof (rule message_is_one_line)
  have "double_finite 0" by (simp add: double_finite_def double_exponent_def)
  then show "json_ok (JArray [JString [CHR 0x0A], JFloat 0])" by (simp add: utf8_text_ascii)
qed (rule demo_float_text)

text \<open>
  \<open>read_line\<close> keeps only the first line of what a read delivers: the other lines of the same chunk
  are lost with the local buffer, whatever they say.
\<close>

lemma rest_of_chunk_is_lost:
  "drain_incoming strtod [l1 @ [CHR 0x0A] @ others] False ui = drain_incoming strtod [l1 @ [CHR 0x0A]] False ui"
proof -
  have "takeWhile (\<lambda>c. c \<noteq> CHR 0x0A) (l1 @ CHR 0x0A # others) = takeWhile (\<lambda>c. c \<noteq> CHR 0x0A) (l1 @ [CHR 0x0A])"
    by (induction l1) auto
  then have "read_line [] [l1 @ [CHR 0x0A] @ others] = read_line [] [l1 @ [CHR 0x0A]]" by simp
  then show ?thesis
    by (simp only: drain_incoming.simps [of strtod "[l1 @ [CHR 0x0A] @ others]"] drain_incoming.simps [of strtod "[l1 @ [CHR 0x0A]]"])
qed

section \<open>From the server to the client\<close>







text \<open>
  C9: a move that the server accepted reaches the board of the console client: the text that the session
  writes for the move message is one line for the client, which then shows exactly the placement of the
  server's position, every square of it, and one others message in the feed.
\<close>

theorem move_message_shows_position:
  assumes "reachable pos" "move_ctr pos < 2 ^ 24" "list_all utf8_text [f, t, by_nick]"
    and "is_board (ui_board ui)" "\<And>w. one_line (ftoa w)"
  shows "\<exists>line. send_text ftoa (MoveEvent f t by_nick (get_fen pos)) = Inr (line @ [CHR 0x0A]) \<and>
    read_line [] [line @ [CHR 0x0A]] = Some (line, []) \<and>
    process_incoming_line strtod line ui =
      Some (push_feed (''[move] '' @ by_nick @ '': '' @ f @ '' -> '' @ t) (ui\<lparr>ui_board := picture (pieces_of pos)\<rparr>))"
proof -
  let ?j = "move_json f t by_nick (get_fen pos)"
  have wf: "wf_pieces (pieces_of pos)" using reachable_game_inv [OF assms(1,2)] by (simp add: game_inv_def)
  have texts: "utf8_text f" "utf8_text t" "utf8_text by_nick" "utf8_text (get_fen pos)"
    using assms(3) get_fen_text [OF assms(1)] by simp_all
  have p: "printable ?j"
    unfolding move_json_def event_json_def by (intro printable_object) (auto simp: utf8_text_ascii texts intro!: printable_object)
  have ok: "json_ok ?j" by (rule printable_json_ok [OF p])
  obtain line where line: "serialize_json ftoa ?j = Inr (line @ [CHR 0x0A])" "one_line line"
      "json_dump ftoa compact_layout 0 ?j = Inr line"
    by (rule serialize_json_frame [OF assms(5) ok])
  have "json_parse strtod False line = Inr ?j"
    by (rule json_round [OF good_compact p, of ftoa 0 strtod False]) (use line(3) in simp)
  moreover note handle_move_json [OF wf assms(4), of line f t by_nick]
  moreover have "takeWhile (\<lambda>c. c \<noteq> CHR 0x0A) (line @ [CHR 0x0A]) = line"
    by (rule takeWhile_field) (use one_line_no_lf [OF line(2)] in auto)
  ultimately show ?thesis using line(1) by (auto simp: send_text_def process_incoming_line_def)
qed

theorem move_message_shows_position_witness:
  "\<exists>pos line. send_text (\<lambda>_. ''0.0'') (MoveEvent ''e2'' ''e4'' ''ann'' (get_fen pos)) = Inr (line @ [CHR 0x0A]) \<and>
     process_incoming_line (\<lambda>_. 0) line demo_ui =
       Some (push_feed ''[move] ann: e2 -> e4'' (demo_ui\<lparr>ui_board := picture (pieces_of pos)\<rparr>))"
proof -
  obtain pos where i: "initial_position = Some pos" using initial_exists by blast
  have "is_board (ui_board demo_ui)" by (simp add: demo_ui_def reset_board_def is_board_def)
  then show ?thesis
    using move_message_shows_position [OF reachable.start [OF i], of "''e2''" "''e4''" "''ann''" demo_ui "\<lambda>_. ''0.0''" "\<lambda>_. 0"]
      initial_move_ctr [OF i] by (auto simp: utf8_text_ascii)
qed



section \<open>From the client to the server\<close>





end
