(* ===== verification/ServerFrame.thy ===== *)
theory ServerFrame
  imports ServerInv
begin

text \<open>
  What all handlers of the server have in common, stated once: a relation between the worlds before
  and after a step that holds for the elementary changes holds for every handler. It is used for
  what a handler may add to the messages and to the calls of the database, and for which players a
  session belongs to.
\<close>

definition identity :: "player \<Rightarrow> bool \<times> string \<times> int" where
  "identity pl = (p_authorized pl, p_nick pl, p_user_id pl)"

locale world_relation =
  fixes R :: "world \<Rightarrow> world \<Rightarrow> bool"
  assumes refl: "R w w"
    and trans: "R u v \<Longrightarrow> R v w \<Longrightarrow> R u w"
    and send_law: "R w (send p m w)"
    and log_law: "R w (log_db c w)"
    and keep_law: "(\<And>pl. identity (f pl) = identity pl) \<Longrightarrow> R w (set_player p f w)"
    and queue_law: "R w (w\<lparr>queue := q\<rparr>)"
    and all_players_law: "R w (w\<lparr>all_players := q\<rparr>)"
    and rooms_law: "R w (w\<lparr>rooms := rs\<rparr>)"
begin

lemma steps:
  "R u w \<Longrightarrow> R u (send p m w)" "R u w \<Longrightarrow> R u (log_db c w)"
  "R u w \<Longrightarrow> R u (w\<lparr>queue := q\<rparr>)" "R u w \<Longrightarrow> R u (w\<lparr>all_players := q\<rparr>)" "R u w \<Longrightarrow> R u (w\<lparr>rooms := rs\<rparr>)"
  "R u w \<Longrightarrow> R u (update_room rid h w)"
  by (auto simp: update_room_def intro: trans send_law log_law queue_law all_players_law rooms_law)

lemma keep: "(\<And>pl. identity (f pl) = identity pl) \<Longrightarrow> R u w \<Longrightarrow> R u (set_player p f w)"
  by (blast intro: trans keep_law)

lemma set_room_step: "R u w \<Longrightarrow> R u (set_room p r w)"
  unfolding set_room_def by (rule keep) (simp_all add: identity_def)

lemma opts: "R u w \<Longrightarrow> R u (send_opt q m w)" "R u w \<Longrightarrow> R u (set_room_opt q r w)" "R u w \<Longrightarrow> R u (broadcast rm m w)"
  by (auto simp: send_opt_def set_room_opt_def broadcast_def steps set_room_step split: option.split)

lemma fold_step: "(\<And>x w. R u w \<Longrightarrow> R u (f x w)) \<Longrightarrow> R u w \<Longrightarrow> R u (fold f xs w)"
  by (rule fold_invariant_list)

lemma if_step: "R u a \<Longrightarrow> R u b \<Longrightarrow> R u (if c then a else b)"
  by simp

lemma broadcast_queue_size_step: "R u w \<Longrightarrow> R u (broadcast_queue_size w)"
  unfolding broadcast_queue_size_def by (intro fold_step if_step steps)

lemma remove_from_queue_step: "R u w \<Longrightarrow> R u (remove_from_queue p w)"
  unfolding remove_from_queue_def
  by (intro if_step broadcast_queue_size_step steps keep) (simp_all add: identity_def)

lemma update_rating_step: "R u w \<Longrightarrow> R u (update_rating a b w)"
  unfolding update_rating_def Let_def by (intro steps keep) (simp_all add: identity_def)

lemma end_game_step: "R u w \<Longrightarrow> R u (end_game rid res v w)"
  by (auto simp: end_game_def Let_def intro!: opts steps update_rating_step split: option.split)

lemma room_disconnect_step: "R u w \<Longrightarrow> R u (room_disconnect rid p w)"
  by (auto simp: room_disconnect_def Let_def intro!: opts steps set_room_step update_rating_step split: option.split)

lemma room_leave_step: "R u w \<Longrightarrow> R u (room_leave p w)"
  by (simp add: room_leave_def room_disconnect_step split: option.split)

lemma start_match_step: "R u w \<Longrightarrow> R u (start_match a b pos w)"
  unfolding start_match_def start_room_def Let_def by (intro opts set_room_step steps remove_from_queue_step)

lemma try_matchmake_step: "R u w \<Longrightarrow> R u (try_matchmake srt pos w)"
  unfolding try_matchmake_def Let_def by (intro if_step start_match_step)

lemma after_move_step: "R u w \<Longrightarrow> R u (after_move rid w)"
  unfolding after_move_def Let_def by (intro if_step end_game_step opts)

lemma on_move_step: "R u w \<Longrightarrow> R u (snd (on_move rid p f t pr w))"
  by (auto simp: on_move_def Let_def intro!: after_move_step opts steps split: sum.split option.split prod.split bool.split)

lemma draw_steps:
  "R u w \<Longrightarrow> R u (on_draw_request rid p w)" "R u w \<Longrightarrow> R u (snd (on_draw_accept rid p w))"
  "R u w \<Longrightarrow> R u (snd (on_draw_decline rid p w))"
  by (auto simp: on_draw_request_def on_draw_accept_def on_draw_decline_def Let_def
      intro!: end_game_step opts steps split: option.split)

lemma handle_queue_step: "R u w \<Longrightarrow> R u (handle_queue srt pos p w)"
  unfolding handle_queue_def Let_def
  by (intro if_step try_matchmake_step broadcast_queue_size_step steps keep) (simp_all add: identity_def)

lemma handle_leave_step: "R u w \<Longrightarrow> R u (handle_leave p w)"
  unfolding handle_leave_def by (intro steps set_room_step room_leave_step remove_from_queue_step)

lemma handle_chat_step: "R u w \<Longrightarrow> R u (handle_chat p tx w)"
  by (auto simp: handle_chat_def on_chat_def intro!: steps split: option.split)

lemma handle_move_step: "R u w \<Longrightarrow> R u (handle_move p f t pr w)"
  by (auto simp: handle_move_def intro!: steps on_move_step split: option.split)

lemma answer_step:
  "R u (snd r) \<Longrightarrow> R u (case r of (True, v) \<Rightarrow> send p m v | (False, v) \<Rightarrow> send p m' v)"
  by (auto simp: steps split: prod.split bool.split)

lemma handle_draw_step: "R u w \<Longrightarrow> R u (handle_draw p action w)"
proof (cases "p_room (players w p)")
  case (Some rid)
  then show "R u w \<Longrightarrow> ?thesis"
    unfolding handle_draw_def Some option.case Let_def by (intro if_step answer_step steps draw_steps)
qed (simp add: handle_draw_def steps)

lemma handle_leaderboard_step: "R u w \<Longrightarrow> R u (handle_leaderboard leaders p w)"
  by (simp add: handle_leaderboard_def steps)

lemma on_disconnect_step: "R u w \<Longrightarrow> R u (on_disconnect p w)"
  unfolding on_disconnect_def Let_def by (intro broadcast_queue_size_step steps room_leave_step remove_from_queue_step)

text \<open>Every command but a login.\<close>

lemma handle_command_step:
  assumes "R u w" "\<And>nick password. cmd = Auth nick password \<Longrightarrow> R u (handle_auth login p nick password w)"
  shows "R u (handle_command login leaders srt pos p cmd w)"
  using assms
  by (auto simp: handle_command_def handle_queue_step handle_leave_step handle_chat_step handle_move_step handle_draw_step
      handle_leaderboard_step steps split: command.split)

end

text \<open>A relation that any change of a player keeps holds for logins as well.\<close>

locale world_relation_all = world_relation +
  assumes player_law: "R w (set_player p f w)"
begin

lemma player_step: "R u w \<Longrightarrow> R u (set_player p f w)"
  by (blast intro: trans player_law)

lemma handle_auth_step: "R u w \<Longrightarrow> R u (handle_auth login p nick password w)"
  by (auto simp: handle_auth_def Let_def intro!: steps player_step split: option.split)

lemma accept_step: "R u w \<Longrightarrow> R u (accept p w)"
proof -
  have a: "accept p w = set_player p (\<lambda>_. new_session) (w\<lparr>all_players := all_players w @ [p]\<rparr>)"
    by (simp add: accept_def set_player_def)
  show "R u w \<Longrightarrow> ?thesis" unfolding a by (intro player_step steps)
qed

lemma command_step: "R u w \<Longrightarrow> R u (handle_command login leaders srt pos p cmd w)"
  by (rule handle_command_step) (auto intro: handle_auth_step)

end

section \<open>Messages and database calls are only appended\<close>

definition grows :: "world \<Rightarrow> world \<Rightarrow> bool" where
  "grows w w' \<longleftrightarrow> (\<exists>ms. outbox w' = outbox w @ ms) \<and> (\<exists>cs. db_log w' = db_log w @ cs)"

interpretation appended: world_relation_all grows
proof unfold_locales
  show "grows u v \<Longrightarrow> grows v w \<Longrightarrow> grows u w" for u v w
    unfolding grows_def by (metis append.assoc)
qed (auto simp: grows_def send_def log_db_def set_player_def)

lemma grows_new:
  assumes "grows w w'"
  shows "outbox w' = outbox w @ drop (length (outbox w)) (outbox w')"
    "db_log w' = db_log w @ drop (length (db_log w)) (db_log w')"
  using assms by (auto simp: grows_def)

section \<open>Only a login changes whom a session belongs to\<close>

definition same_identity :: "world \<Rightarrow> world \<Rightarrow> bool" where
  "same_identity w w' \<longleftrightarrow> (\<forall>p. identity (players w' p) = identity (players w p))"

interpretation belongs: world_relation same_identity
  by unfold_locales (auto simp: same_identity_def send_def log_db_def set_player_def)

end
