(* ===== verification/Session.thy ===== *)
theory Session
  imports Client
begin

text \<open>
  One connection of the server (\<^verbatim>\<open>tcp_session.cpp\<close>, \<^verbatim>\<open>websocket_session.cpp\<close>): what has been
  received and not been handled, and the outgoing queue. Both kinds of session treat the queue in
  the same way: \<open>send\<close> hands a text to the executor, which later appends it to \<open>_outbox\<close> and starts a
  write when none is in progress; the completion of a write removes the text and starts the next one.
  They differ in how they take an input: the TCP session takes a line from the bytes in \<open>_buffer\<close> and
  leaves the rest, the WebSocket session takes one message, and only after its handshake.

  Asynchronous operations of Boost.Asio and Beast are steps: an operation is started (a flag is set)
  and completes in a later step, with or without an error. Fields marked as history are not in the
  source; they record what the peer was given.
\<close>

datatype transport = Tcp | WebSocket

record connection =
  c_transport :: transport
  c_handshake :: bool
  c_reading :: bool
  c_inbuf :: string
  c_frames :: "string list"
  c_posted :: "string list"
  c_outbox :: "string list"
  c_writing :: bool
  c_delivered :: "string list"
  c_failed :: bool

text \<open>\<open>start\<close>: the TCP session reads at once, the WebSocket session waits for its handshake.\<close>

definition new_connection :: "transport \<Rightarrow> connection" where
  "new_connection t = \<lparr>c_transport = t, c_handshake = (t = WebSocket), c_reading = (t = Tcp), c_inbuf = [], c_frames = [], c_posted = [],
     c_outbox = [], c_writing = False, c_delivered = [], c_failed = False\<rparr>"

text \<open>The handshake of a WebSocket session; \<open>True\<close> when it succeeded.\<close>

definition conn_handshake :: "bool \<Rightarrow> connection \<Rightarrow> connection option" where
  "conn_handshake ok c = (if c_handshake c then Some (c\<lparr>c_handshake := False, c_reading := ok\<rparr>) else None)"

section \<open>Reading\<close>

text \<open>Bytes of a TCP stream, or one WebSocket message.\<close>

definition conn_receive :: "string \<Rightarrow> connection \<Rightarrow> connection" where
  "conn_receive bytes c =
     (case c_transport c of
        Tcp \<Rightarrow> c\<lparr>c_inbuf := c_inbuf c @ bytes\<rparr>
      | WebSocket \<Rightarrow> c\<lparr>c_frames := c_frames c @ [bytes]\<rparr>)"

text \<open>The completion of a read without an error: the text for \<open>handle_command\<close>.\<close>

definition conn_take :: "connection \<Rightarrow> (string \<times> connection) option" where
  "conn_take c =
     (if \<not> c_reading c then None
      else case c_transport c of
             Tcp \<Rightarrow>
               (if CHR 0x0A \<in> set (c_inbuf c)
                then Some (takeWhile (\<lambda>ch. ch \<noteq> CHR 0x0A) (c_inbuf c),
                           c\<lparr>c_inbuf := tl (dropWhile (\<lambda>ch. ch \<noteq> CHR 0x0A) (c_inbuf c))\<rparr>)
                else None)
           | WebSocket \<Rightarrow>
               (case c_frames c of
                  [] \<Rightarrow> None
                | frame # frames \<Rightarrow> Some (frame, c\<lparr>c_frames := frames\<rparr>)))"

definition conn_read_failed :: "connection \<Rightarrow> connection option" where
  "conn_read_failed c = (if c_reading c then Some (c\<lparr>c_reading := False\<rparr>) else None)"

section \<open>Writing\<close>

definition conn_send :: "string \<Rightarrow> connection \<Rightarrow> connection" where
  "conn_send payload c = c\<lparr>c_posted := c_posted c @ [payload]\<rparr>"

definition do_write :: "connection \<Rightarrow> connection" where
  "do_write c = c\<lparr>c_writing := True\<rparr>"

text \<open>The function that \<open>send\<close> gave to the executor.\<close>

definition conn_run_posted :: "connection \<Rightarrow> connection option" where
  "conn_run_posted c =
     (case c_posted c of
        [] \<Rightarrow> None
      | payload # posted \<Rightarrow>
          let writing = (c_outbox c \<noteq> []);
              c1 = c\<lparr>c_posted := posted, c_outbox := c_outbox c @ [payload]\<rparr>
          in Some (if \<not> writing then do_write c1 else c1))"

text \<open>The completion handler of \<open>async_write\<close>, without and with an error.\<close>

definition conn_write_done :: "connection \<Rightarrow> (string \<times> connection) option" where
  "conn_write_done c =
     (if \<not> c_writing c then None
      else
        let payload = hd (c_outbox c);
            c1 = c\<lparr>c_writing := False, c_outbox := tl (c_outbox c), c_delivered := c_delivered c @ [payload]\<rparr>
        in Some (payload, if c_outbox c1 \<noteq> [] then do_write c1 else c1))"

definition conn_write_failed :: "connection \<Rightarrow> connection option" where
  "conn_write_failed c = (if \<not> c_writing c then None else Some (c\<lparr>c_writing := False, c_failed := True\<rparr>))"

section \<open>The contract of a queue\<close>

text \<open>
  What the outgoing queue of a session and the input queue of the console client have in common:
  what is taken out is what was put in, in the same order. \<open>inner\<close> is a step of the queue's own.
\<close>

locale fifo =
  fixes inv :: "'q \<Rightarrow> bool"
    and content :: "'q \<Rightarrow> 'a list"
    and push :: "'a \<Rightarrow> 'q \<Rightarrow> 'q"
    and pop :: "'q \<Rightarrow> ('a \<times> 'q) option"
    and inner :: "'q \<Rightarrow> 'q option"
  assumes push_law: "inv q \<Longrightarrow> inv (push x q) \<and> content (push x q) = content q @ [x]"
    and pop_law: "inv q \<Longrightarrow> pop q = Some (x, q') \<Longrightarrow> inv q' \<and> content q = x # content q'"
    and inner_law: "inv q \<Longrightarrow> inner q = Some q' \<Longrightarrow> inv q' \<and> content q' = content q"

datatype 'a queue_op = Push 'a | Pop | Inner

fun queue_run ::
    "('a \<Rightarrow> 'q \<Rightarrow> 'q) \<Rightarrow> ('q \<Rightarrow> ('a \<times> 'q) option) \<Rightarrow> ('q \<Rightarrow> 'q option) \<Rightarrow> 'a queue_op list \<Rightarrow> 'q \<Rightarrow> 'a list \<times> 'q" where
  "queue_run push pop inner [] q = ([], q)"
| "queue_run push pop inner (Push x # ops) q = queue_run push pop inner ops (push x q)"
| "queue_run push pop inner (Pop # ops) q =
     (case pop q of
        None \<Rightarrow> queue_run push pop inner ops q
      | Some (x, q') \<Rightarrow> (case queue_run push pop inner ops q' of (xs, q'') \<Rightarrow> (x # xs, q'')))"
| "queue_run push pop inner (Inner # ops) q =
     queue_run push pop inner ops (case inner q of None \<Rightarrow> q | Some q' \<Rightarrow> q')"

fun pushed :: "'a queue_op list \<Rightarrow> 'a list" where
  "pushed [] = []"
| "pushed (Push x # ops) = x # pushed ops"
| "pushed (_ # ops) = pushed ops"

context fifo
begin

text \<open>In every run what came out, then what is still inside, is what was inside and what was put in.\<close>

lemma fifo_order:
  "inv q \<Longrightarrow> queue_run push pop inner ops q = (outs, q') \<Longrightarrow>
     inv q' \<and> content q @ pushed ops = outs @ content q'"
proof (induction ops arbitrary: q outs)
  case (Cons op ops)
  show ?case
  proof (cases op)
    case (Push x)
    then show ?thesis using Cons.IH [of "push x q" outs] Cons.prems push_law [of q x] by auto
  next
    case Pop
    show ?thesis
    proof (cases "pop q")
      case None
      then show ?thesis using Cons Pop by auto
    next
      case (Some r)
      obtain x q1 where r: "pop q = Some (x, q1)" using Some by (cases r) auto
      obtain xs where run: "queue_run push pop inner ops q1 = (xs, q')" "outs = x # xs"
        using Cons.prems(2) Pop r by (auto split: prod.splits)
      have l: "inv q1" "content q = x # content q1" using pop_law [OF Cons.prems(1) r] by auto
      have "inv q' \<and> content q1 @ pushed ops = xs @ content q'" by (rule Cons.IH [OF l(1) run(1)])
      then show ?thesis using Pop run(2) l(2) by simp
    qed
  next
    case Inner
    show ?thesis
    proof (cases "inner q")
      case (Some q1)
      then show ?thesis using Cons.IH [of q1 outs] Cons.prems inner_law [OF Cons.prems(1) Some] Inner by auto
    qed (use Cons Inner in auto)
  qed
qed simp

end

text \<open>A queue that only refuses when it is empty gives everything back.\<close>

locale ready_fifo = fifo +
  assumes ready: "inv q \<Longrightarrow> content q \<noteq> [] \<Longrightarrow> pop q \<noteq> None"
begin

lemma drained:
  "inv q \<Longrightarrow> queue_run push pop inner (replicate (length (content q)) Pop) q = (outs, q') \<Longrightarrow> outs = content q"
proof (induction "length (content q)" arbitrary: q outs)
  case (Suc n)
  obtain x q1 where p: "pop q = Some (x, q1)" using ready [OF Suc.prems(1)] Suc.hyps(2)
    by (cases "pop q") (auto simp: Suc_length_conv)
  have l: "inv q1" "content q = x # content q1" using pop_law [OF Suc.prems(1) p] by auto
  obtain xs where run: "queue_run push pop inner (replicate n Pop) q1 = (xs, q')" "outs = x # xs"
    using Suc.prems(2) p by (auto simp flip: Suc.hyps(2) split: prod.splits)
  have n: "n = length (content q1)" using Suc.hyps(2) l(2) by simp
  have "xs = content q1" using Suc.hyps(1) [OF n l(1)] run(1) n by simp
  then show ?case using run(2) l(2) by simp
qed simp

end

section \<open>The outgoing queue keeps the contract\<close>

definition conn_inv :: "connection \<Rightarrow> bool" where
  "conn_inv c \<longleftrightarrow> (c_writing c \<longleftrightarrow> c_outbox c \<noteq> [] \<and> \<not> c_failed c) \<and> (c_failed c \<longrightarrow> c_outbox c \<noteq> [])"

definition conn_content :: "connection \<Rightarrow> string list" where
  "conn_content c = c_outbox c @ c_posted c"

interpretation out_queue: fifo conn_inv conn_content conn_send conn_write_done conn_run_posted
proof unfold_locales
  show "conn_inv q \<Longrightarrow> conn_inv (conn_send x q) \<and> conn_content (conn_send x q) = conn_content q @ [x]" for q x
    by (simp add: conn_inv_def conn_send_def conn_content_def)
  show "conn_inv q \<Longrightarrow> conn_write_done q = Some (x, q') \<Longrightarrow> conn_inv q' \<and> conn_content q = x # conn_content q'" for q x q'
    by (cases "c_outbox q") (auto simp: conn_inv_def conn_write_done_def conn_content_def do_write_def Let_def split: if_splits)
  show "conn_inv q \<Longrightarrow> conn_run_posted q = Some q' \<Longrightarrow> conn_inv q' \<and> conn_content q' = conn_content q" for q q'
    by (cases "c_posted q") (auto simp: conn_inv_def conn_run_posted_def conn_content_def do_write_def Let_def split: if_splits)
qed

interpretation input_queue: ready_fifo "\<lambda>_. True" "\<lambda>q. q" input_push input_pop "\<lambda>_. None"
  by unfold_locales (auto simp: input_push_def input_pop_def split: list.splits)

text \<open>The other steps leave the outgoing queue alone, and what was delivered only grows by writes.\<close>

lemma new_connection_fields [simp]:
  "conn_inv (new_connection t)" "conn_content (new_connection t) = []" "c_delivered (new_connection t) = []"
  "c_failed (new_connection t) = False"
  by (simp_all add: conn_inv_def new_connection_def conn_content_def)

lemma conn_send_fields [simp]:
  "c_delivered (conn_send t c) = c_delivered c" "c_failed (conn_send t c) = c_failed c"
  "c_outbox (conn_send t c) = c_outbox c" "c_posted (conn_send t c) = c_posted c @ [t]" "c_writing (conn_send t c) = c_writing c"
  by (simp_all add: conn_send_def)

lemma conn_run_posted_fields:
  assumes "conn_run_posted c = Some c'"
  shows "c_delivered c' = c_delivered c" "c_failed c' = c_failed c" "c_posted c = hd (c_posted c) # c_posted c'"
    "c_outbox c' = c_outbox c @ [hd (c_posted c)]"
proof -
  obtain t ts where t: "c_posted c = t # ts" using assms by (cases "c_posted c") (simp_all add: conn_run_posted_def)
  have c': "c' = (if c_outbox c = [] then do_write else (\<lambda>c. c)) (c\<lparr>c_posted := ts, c_outbox := c_outbox c @ [t]\<rparr>)"
    using assms t by (auto simp: conn_run_posted_def Let_def)
  show "c_delivered c' = c_delivered c" "c_failed c' = c_failed c" "c_posted c = hd (c_posted c) # c_posted c'"
    "c_outbox c' = c_outbox c @ [hd (c_posted c)]"
    unfolding c' by (simp_all add: do_write_def t)
qed

lemma conn_write_done_fields:
  assumes "conn_write_done c = Some (t, c')"
  shows "c_delivered c' = c_delivered c @ [t]" "c_failed c' = c_failed c" "c_posted c' = c_posted c"
    "c_outbox c' = tl (c_outbox c)" "t = hd (c_outbox c)"
  using assms by (auto simp: conn_write_done_def do_write_def Let_def split: if_splits)

definition same_queue :: "connection \<Rightarrow> connection \<Rightarrow> bool" where
  "same_queue c c' \<longleftrightarrow> c_posted c' = c_posted c \<and> c_outbox c' = c_outbox c \<and> c_writing c' = c_writing c \<and>
     c_delivered c' = c_delivered c \<and> c_failed c' = c_failed c"

lemma same_queue_steps:
  "same_queue c (conn_receive bytes c)" "conn_handshake ok c = Some c' \<Longrightarrow> same_queue c c'"
  "conn_take c = Some (line, c') \<Longrightarrow> same_queue c c'" "conn_read_failed c = Some c' \<Longrightarrow> same_queue c c'"
  by (auto simp: same_queue_def conn_receive_def conn_handshake_def conn_take_def conn_read_failed_def
      split: transport.splits if_splits list.splits)

lemma same_queueD:
  "same_queue c c' \<Longrightarrow> conn_inv c \<Longrightarrow> conn_inv c' \<and> conn_content c' = conn_content c \<and> c_delivered c' = c_delivered c"
  by (simp add: same_queue_def conn_inv_def conn_content_def)

end
