(* ===== verification/DatabaseInv.thy ===== *)
theory DatabaseInv
  imports Database
begin

text \<open>
  What the database layer promises the server: the invariant of the tables, the accounts as an
  abstract map from nicknames to rows, and \<open>login_or_register\<close> as an operation on that map.
\<close>

section \<open>The invariant of the tables\<close>

definition table_ids :: "int list \<Rightarrow> int \<Rightarrow> bool" where
  "table_ids ids seq \<longleftrightarrow> distinct ids \<and> (\<forall>i \<in> set ids. 0 < i \<and> i \<le> seq) \<and> 0 \<le> seq \<and> seq \<le> max_rowid"

definition db_inv :: "database \<Rightarrow> bool" where
  "db_inv db \<longleftrightarrow> distinct (map usr_nickname (users db)) \<and> table_ids (map usr_id (users db)) (users_seq db) \<and>
     table_ids (map gm_id (games db)) (games_seq db) \<and> distinct (map qr_user_id (game_queue db))"

lemma table_ids_next: "table_ids ids seq \<Longrightarrow> seq \<noteq> max_rowid \<Longrightarrow> table_ids (ids @ [seq + 1]) (seq + 1)"
  by (force simp: table_ids_def)

lemma map_update_keep: "(\<And>r. k (f r) = k r) \<Longrightarrow> map k (map (\<lambda>r. if p r then f r else r) rs) = map k rs"
  by simp

lemma db_inv_create_tables: "db_inv (create_tables ok)"
  by (simp add: db_inv_def create_tables_def table_ids_def max_rowid_def)

lemma execute_query_cases:
  "snd (execute_query stmt db) = (if connected db then snd (stmt db) else db)"
  by (simp add: execute_query_def)

lemma db_inv_update_user:
  assumes "db_inv db" "\<And>r. usr_id (f r) = usr_id r \<and> usr_nickname (f r) = usr_nickname r"
  shows "db_inv (snd (update_user i f db))"
proof -
  have "map usr_id (users (snd (update_user i f db))) = map usr_id (users db)"
    "map usr_nickname (users (snd (update_user i f db))) = map usr_nickname (users db)"
    using assms(2) by (simp_all add: update_user_def)
  then show ?thesis using assms(1) by (simp add: db_inv_def update_user_def del: map_map)
qed

lemma db_inv_insert_user: "db_inv db \<Longrightarrow> db_inv (snd (insert_user now nick hs db))"
  using table_ids_next [of "map usr_id (users db)" "users_seq db"] by (auto simp: insert_user_def db_inv_def)

lemma db_inv_insert_game: "db_inv db \<Longrightarrow> db_inv (snd (insert_game now w b v res pgn db))"
  using table_ids_next [of "map gm_id (games db)" "games_seq db"] by (auto simp: insert_game_def db_inv_def)

lemma db_inv_updates:
  assumes "db_inv db"
  shows "db_inv (update_last_login now i db)" "db_inv (db_update_rating i rating db)" "db_inv (update_stats i won draw db)"
  using assms db_inv_update_user [OF assms]
  by (simp_all add: update_last_login_def db_update_rating_def update_stats_def execute_query_cases)

lemma distinct_insort_key:
  "k x \<notin> k ` set xs \<Longrightarrow> distinct (map k xs) \<Longrightarrow> distinct (map k (insort_key k x xs))"
  by (induction xs) (auto simp: set_insort_key)

lemma db_inv_queue:
  assumes "db_inv db"
  shows "db_inv (add_to_queue now i db)" "db_inv (db_remove_from_queue i db)" "db_inv (clear_queue db)"
  using assms
  by (auto simp: add_to_queue_def db_remove_from_queue_def clear_queue_def execute_query_cases db_inv_def
      intro!: distinct_insort_key distinct_map_filter)

text \<open>With plain texts the invariant survives every operation that changes the tables.\<close>

lemma db_inv_login_user: "db_inv db \<Longrightarrow> db_inv (snd (login_user e hasher now nick password db))"
  by (auto simp: login_user_def Let_def db_inv_updates split: option.split)

lemma db_inv_register_user:
  "db_inv db \<Longrightarrow> sql_plain nick \<Longrightarrow> db_inv (snd (register_user e hasher now nick password db))"
  by (auto simp: register_user_def Let_def execute_query_cases db_inv_insert_user)

lemma db_inv_login_or_register:
  assumes "db_inv db" "sql_plain nick"
  shows "db_inv (snd (login_or_register e hasher now nick password db))"
proof -
  have "db_inv (snd (login_user e hasher now nick password db))" by (rule db_inv_login_user [OF assms(1)])
  then show ?thesis
    using db_inv_register_user [OF _ assms(2), of _ e hasher now password]
    by (auto simp: login_or_register_def split: prod.split option.split bool.split)
      (metis db_inv_login_user snd_conv)+
qed

lemma db_inv_call: "db_inv db \<Longrightarrow> plain_call c \<Longrightarrow> db_inv (run_db_call e now c db)"
  by (cases c) (simp_all add: db_inv_updates save_game_def execute_query_cases db_inv_insert_game)

section \<open>Accounts\<close>

definition accounts :: "database \<Rightarrow> string \<Rightarrow> user_row option" where
  "accounts db nick = find (\<lambda>r. usr_nickname r = nick) (users db)"

lemma accounts_Some: "accounts db nick = Some r \<Longrightarrow> r \<in> set (users db) \<and> usr_nickname r = nick"
  by (auto simp: accounts_def find_Some_iff)

lemma accounts_None: "accounts db nick = None \<longleftrightarrow> nick \<notin> usr_nickname ` set (users db)"
  by (auto simp: accounts_def find_None_iff)

lemma find_unique: "distinct (map k rs) \<Longrightarrow> r \<in> set rs \<Longrightarrow> find (\<lambda>x. k x = k r) rs = Some r"
  by (induction rs) auto

lemma find_update:
  "\<forall>r. k (f r) = k r \<Longrightarrow> distinct (map i rs) \<Longrightarrow> distinct (map k rs) \<Longrightarrow> r \<in> set rs \<Longrightarrow>
     find (\<lambda>x. k x = n) (map (\<lambda>x. if i x = i r then f x else x) rs) =
       (if n = k r then Some (f r) else find (\<lambda>x. k x = n) rs)"
proof (induction rs)
  case (Cons x xs)
  show ?case
  proof (cases "x = r")
    case True
    then have "map (\<lambda>x. if i x = i r then f x else x) xs = xs"
      using Cons.prems(2) by (intro map_idI) (auto, metis image_eqI)
    then show ?thesis using True Cons.prems(1) by auto
  next
    case False
    then have r: "r \<in> set xs" "i x \<noteq> i r" "k x \<noteq> k r" using Cons.prems by auto
    then show ?thesis using Cons by auto
  qed
qed simp

lemma accounts_update_user:
  assumes "db_inv db" "accounts db nick = Some r" "\<And>r. usr_nickname (f r) = usr_nickname r"
  shows "accounts (snd (update_user (usr_id r) f db)) = (accounts db)(nick \<mapsto> f r)"
proof
  fix n
  have "r \<in> set (users db)" "usr_nickname r = nick" using accounts_Some [OF assms(2)] by auto
  then show "accounts (snd (update_user (usr_id r) f db)) n = ((accounts db)(nick \<mapsto> f r)) n"
    using find_update [of usr_nickname f usr_id "users db" r n] assms(1,3)
    by (auto simp: accounts_def update_user_def db_inv_def table_ids_def)
qed

lemma column_int_small: "- (2 ^ 31) \<le> n \<Longrightarrow> n < 2 ^ 31 \<Longrightarrow> column_int n = n"
  by (simp add: column_int_def signed_take_bit_int_eq_self signed_of_int)

text \<open>Hash values and their hexadecimal form determine each other.\<close>

lemma hex_digit_inj: "m < 16 \<Longrightarrow> n < 16 \<Longrightarrow> ''0123456789abcdef'' ! m = ''0123456789abcdef'' ! n \<Longrightarrow> m = n"
proof -
  have "distinct ''0123456789abcdef''" by code_simp
  then show "m < 16 \<Longrightarrow> n < 16 \<Longrightarrow> ''0123456789abcdef'' ! m = ''0123456789abcdef'' ! n \<Longrightarrow> m = n"
    by (simp add: nth_eq_iff_index_eq del: distinct.simps nth_Cons_numeral)
qed

lemma hex_number_not_Nil [simp]: "hex_number n \<noteq> []"
  by (subst hex_number.simps) simp

lemma hex_number_inj: "hex_number m = hex_number n \<Longrightarrow> m = n"
proof (induction m arbitrary: n rule: hex_number.induct)
  case (1 m)
  note s = hex_number.simps [of m] hex_number.simps [of n]
  show ?case
  proof (cases "m < 16")
    case True
    then have "n < 16" using "1.prems" s by (cases "n < 16") (auto simp: append_eq_Cons_conv Cons_eq_append_conv)
    then show ?thesis using "1.prems" s True hex_digit_inj by simp
  next
    case False
    then have n: "\<not> n < 16" using "1.prems" s by (cases "n < 16") (auto simp: append_eq_Cons_conv Cons_eq_append_conv)
    then have "hex_number (m div 16) = hex_number (n div 16)" "m mod 16 = n mod 16"
      using "1.prems" s False hex_digit_inj [of "m mod 16" "n mod 16"] by simp_all
    then show ?thesis using "1.IH" [OF False, of "n div 16"] div_mult_mod_eq by metis
  qed
qed

lemma hash_password_eq: "hash_password hasher p = hash_password hasher q \<longleftrightarrow> hasher p = hasher q"
  by (auto simp: hash_password_def word_unat_eq_iff dest: hex_number_inj)

section \<open>Logging in\<close>

definition fresh_user :: "string \<Rightarrow> string \<Rightarrow> string \<Rightarrow> int \<Rightarrow> user_row" where
  "fresh_user now nick hs i = \<lparr>usr_id = i, usr_nickname = nick, usr_password_hash = hs, usr_rating = 1000,
     usr_games_played = 0, usr_games_won = 0, usr_games_drawn = 0, usr_created_at = now, usr_last_login = None\<rparr>"

definition stamp :: "string \<Rightarrow> user_row \<Rightarrow> user_row" where
  "stamp now r = r\<lparr>usr_last_login := Some now\<rparr>"

text \<open>The specification: the answer and the accounts afterwards.\<close>

definition login_spec ::
    "(string \<Rightarrow> u64) \<Rightarrow> string \<Rightarrow> string \<Rightarrow> string \<Rightarrow> int \<Rightarrow> (string \<Rightarrow> user_row option) \<Rightarrow>
       user_row option \<times> (string \<Rightarrow> user_row option)" where
  "login_spec hasher now nick password next_id acc =
     (case acc nick of
        Some r \<Rightarrow> if usr_password_hash r = hash_password hasher password then (Some r, acc(nick \<mapsto> stamp now r)) else (None, acc)
      | None \<Rightarrow> (let r = fresh_user now nick (hash_password hasher password) next_id in (Some r, acc(nick \<mapsto> stamp now r))))"

lemma stamp_fun: "stamp now = usr_last_login_update (\<lambda>_. Some now)"
  by (rule ext) (simp add: stamp_def)

lemma login_user_plain:
  assumes "connected db" "sql_plain nick"
  shows "login_user e hasher now nick password db =
    (case accounts db nick of
       Some r \<Rightarrow> if usr_password_hash r = hash_password hasher password
                 then (Some (info_of_row r), update_last_login now (column_int (usr_id r)) db) else (None, db)
     | None \<Rightarrow> (None, db))"
  using assms
  by (auto simp: login_user_def select_user_def accounts_def verify_password_def Let_def info_of_row_def split: option.split)

lemma user_exists_plain: "connected db \<Longrightarrow> sql_plain nick \<Longrightarrow> user_exists e nick db \<longleftrightarrow> accounts db nick \<noteq> None"
  by (auto simp: user_exists_def select_user_def accounts_def)

lemma account_id_small:
  assumes "db_inv db" "users_seq db < 2 ^ 31" "accounts db nick = Some r"
  shows "column_int (usr_id r) = usr_id r"
  using accounts_Some [OF assms(3)] assms(1,2)
  by (intro column_int_small) (auto simp: db_inv_def table_ids_def dest!: bspec)

lemma accounts_insert:
  "accounts db nick = None \<Longrightarrow> users_seq db \<noteq> max_rowid \<Longrightarrow>
     insert_user now nick hs db = (True, db\<lparr>users := users db @ [fresh_user now nick hs (users_seq db + 1)],
        users_seq := users_seq db + 1\<rparr>)"
  by (auto simp: insert_user_def accounts_None fresh_user_def)

lemma accounts_append:
  "accounts (db\<lparr>users := users db @ [r], users_seq := n\<rparr>) =
     (\<lambda>k. case accounts db k of None \<Rightarrow> if k = usr_nickname r then Some r else None | Some q \<Rightarrow> Some q)"
proof
  have "find P (xs @ [x]) = (case find P xs of None \<Rightarrow> if P x then Some x else None | Some y \<Rightarrow> Some y)" for P and xs :: "user_row list" and x
    by (induction xs) auto
  then show "accounts (db\<lparr>users := users db @ [r], users_seq := n\<rparr>) k =
     (case accounts db k of None \<Rightarrow> if k = usr_nickname r then Some r else None | Some q \<Rightarrow> Some q)" for k
    by (auto simp: accounts_def split: option.split)
qed

lemma login_found:
  assumes "connected db" "db_inv db" "sql_plain nick" "users_seq db < 2 ^ 31" "accounts db nick = Some r"
    "usr_password_hash r = hash_password hasher password"
  shows "login_user e hasher now nick password db = (Some (info_of_row r), snd (update_user (usr_id r) (stamp now) db))"
    "accounts (snd (update_user (usr_id r) (stamp now) db)) = (accounts db)(nick \<mapsto> stamp now r)"
  using assms accounts_update_user [OF assms(2,5), of "stamp now"]
  by (simp_all add: login_user_plain account_id_small update_last_login_def execute_query_cases stamp_fun)

lemma login_refines_spec:
  assumes "connected db" "db_inv db" "sql_plain nick" "users_seq db + 1 < 2 ^ 31"
    and "login_or_register e hasher now nick password db = (answer, db')"
  shows "(map_option info_of_row (fst (login_spec hasher now nick password (users_seq db + 1) (accounts db))) = answer) \<and>
    accounts db' = snd (login_spec hasher now nick password (users_seq db + 1) (accounts db))"
proof (cases "accounts db nick")
  case (Some r)
  show ?thesis
  proof (cases "usr_password_hash r = hash_password hasher password")
    case True
    have "login_or_register e hasher now nick password db =
        (Some (info_of_row r), snd (update_user (usr_id r) (stamp now) db))"
      using login_found(1) [OF assms(1-3) _ Some True] assms(4) by (simp add: login_or_register_def)
    then show ?thesis
      using login_found(2) [OF assms(1-3) _ Some True] assms(4,5) Some True by (simp add: login_spec_def)
  next
    case False
    have "login_or_register e hasher now nick password db = (None, db)"
      using assms(1,3) Some False
      by (simp add: login_or_register_def login_user_plain register_user_def user_exists_plain)
    then show ?thesis using assms(5) Some False by (simp add: login_spec_def)
  qed
next
  case None
  let ?h = "hash_password hasher password"
  let ?r = "fresh_user now nick ?h (users_seq db + 1)"
  let ?db = "db\<lparr>users := users db @ [?r], users_seq := users_seq db + 1\<rparr>"
  have "users_seq db \<noteq> max_rowid" using assms(4) by (simp add: max_rowid_def)
  then have reg: "register_user e hasher now nick password db = (True, ?db)"
    using assms(1,3) None accounts_insert [of db nick now ?h]
    by (simp add: register_user_def user_exists_plain execute_query_def)
  have c: "connected ?db" "db_inv ?db" "users_seq ?db < 2 ^ 31"
    using assms(1,4) db_inv_register_user [OF assms(2,3), of e hasher now password] reg by simp_all
  have acc: "accounts ?db = (accounts db)(nick \<mapsto> ?r)"
    using None by (auto simp: accounts_append fresh_user_def split: option.split)
  then have a: "accounts ?db nick = Some ?r" by simp
  have h: "usr_password_hash ?r = ?h" by (simp add: fresh_user_def)
  have "login_or_register e hasher now nick password db =
      (Some (info_of_row ?r), snd (update_user (usr_id ?r) (stamp now) ?db))"
    using assms(1,3) None reg login_found(1) [OF c(1,2) assms(3) c(3) a h]
    by (simp add: login_or_register_def login_user_plain)
  then show ?thesis
    using assms(5) None login_found(2) [OF c(1,2) assms(3) c(3) a h] acc by (simp add: login_spec_def Let_def)
qed

end
