(* ===== verification/Net.thy ===== *)
theory Net
  imports ServerJson ServerFrame Session DatabaseInv
begin

text \<open>
  The whole server as one state machine: the handlers of \<open>Server\<close>, the database of \<open>Database\<close> and one
  connection of \<open>Session\<close> for each session object. A step is what the event loop of \<open>main.cpp\<close> runs
  at a time: a new connection, the completion of a read or of a write, a function posted by \<open>send\<close>.
  A handler that throws leaves \<open>io.run\<close>, and \<open>main\<close> returns: the server is not up any more.

  What the program takes from outside is in a record: the conversions between text and numbers, \<open>std::hash\<close>,
  what SQLite makes of a statement that is not the intended one, the orders of \<open>std::sort\<close> and
  \<open>ORDER BY\<close>, and the position that the engine's constructor gives.
\<close>

record setting =
  s_strtod :: "string \<Rightarrow> u64"
  s_ftoa :: "u64 \<Rightarrow> string"
  s_hasher :: "string \<Rightarrow> u64"
  s_engine :: engine
  s_srt :: "(nat \<Rightarrow> int) \<Rightarrow> nat list \<Rightarrow> nat list"
  s_by_rating :: "user_row list \<Rightarrow> user_row list"
  s_start :: position

record net =
  n_up :: bool
  n_world :: world
  n_db :: database
  n_conns :: "nat \<Rightarrow> connection option"

text \<open>
  The time stamps are the value of \<open>CURRENT_TIMESTAMP\<close> for the statements of the step.
\<close>

datatype event =
    Connect nat transport
  | Handshake nat bool string
  | Receive nat string
  | TakeInput nat string
  | ReadFailed nat string
  | RunPosted nat
  | WriteDone nat
  | WriteFailed nat string

section \<open>Steps\<close>

text \<open>The messages of a handler, each written as text by \<open>send\<close>; \<open>None\<close> when that throws.\<close>

fun post_all :: "(u64 \<Rightarrow> string) \<Rightarrow> (nat \<times> server_msg) list \<Rightarrow> (nat \<Rightarrow> connection option) \<Rightarrow> (nat \<Rightarrow> connection option) option" where
  "post_all ftoa [] cs = Some cs"
| "post_all ftoa ((p, m) # ms) cs =
     (case send_text ftoa m of
        Inl _ \<Rightarrow> None
      | Inr t \<Rightarrow> post_all ftoa ms (cs(p := map_option (conn_send t) (cs p))))"

definition run_handler :: "setting \<Rightarrow> string \<Rightarrow> (world \<Rightarrow> world) \<Rightarrow> net \<Rightarrow> net" where
  "run_handler S now h s =
     (let w = n_world s; w' = h w
      in case post_all (s_ftoa S) (drop (length (outbox w)) (outbox w')) (n_conns s) of
           None \<Rightarrow> s\<lparr>n_up := False\<rparr>
         | Some cs \<Rightarrow> s\<lparr>n_world := w', n_conns := cs,
             n_db := fold (run_db_call (s_engine S) now) (drop (length (db_log w)) (db_log w')) (n_db s)\<rparr>)"

definition set_conn :: "nat \<Rightarrow> connection \<Rightarrow> net \<Rightarrow> net" where
  "set_conn p c s = s\<lparr>n_conns := (n_conns s)(p \<mapsto> c)\<rparr>"

text \<open>What \<open>login_or_register\<close> answers to a command, and the database after it.\<close>

definition login_answer :: "setting \<Rightarrow> string \<Rightarrow> command \<Rightarrow> database \<Rightarrow> user_info option \<times> database" where
  "login_answer S now cmd db =
     (case cmd of
        Auth nick password \<Rightarrow>
          if nick = [] then (None, db) else login_or_register (s_engine S) (s_hasher S) now nick password db
      | _ \<Rightarrow> (None, db))"

definition take_input :: "setting \<Rightarrow> string \<Rightarrow> nat \<Rightarrow> string \<Rightarrow> net \<Rightarrow> net" where
  "take_input S now p raw s =
     (case login_answer S now (command_of (parse_command (s_strtod S) raw)) (n_db s) of
        (answer, db') \<Rightarrow>
          run_handler S now
            (receive (s_strtod S) (\<lambda>_ _. answer) (get_top_players (s_by_rating S) 10 (n_db s)) (s_srt S) (s_start S) p raw)
            (s\<lparr>n_db := db'\<rparr>))"

text \<open>A new session object: no one has a reference to it and no message was sent to it.\<close>

definition unused :: "nat \<Rightarrow> net \<Rightarrow> bool" where
  "unused p s \<longleftrightarrow> n_conns s p = None \<and> fresh_session (n_world s) p \<and> (\<forall>m \<in> set (outbox (n_world s)). fst m \<noteq> p)"

definition with_conn :: "nat \<Rightarrow> (connection \<Rightarrow> 'a option) \<Rightarrow> net \<Rightarrow> 'a option" where
  "with_conn p f s = (case n_conns s p of None \<Rightarrow> None | Some c \<Rightarrow> f c)"

definition net_step :: "setting \<Rightarrow> event \<Rightarrow> net \<Rightarrow> net option" where
  "net_step S ev s =
     (if \<not> n_up s then None
      else case ev of
        Connect p t \<Rightarrow>
          if unused p s then Some (set_conn p (new_connection t) (s\<lparr>n_world := accept p (n_world s)\<rparr>)) else None
      | Handshake p ok now \<Rightarrow>
          map_option (\<lambda>c. if ok then set_conn p c s else run_handler S now (on_disconnect p) (set_conn p c s))
            (with_conn p (conn_handshake ok) s)
      | Receive p bytes \<Rightarrow> map_option (\<lambda>c. set_conn p (conn_receive bytes c) s) (n_conns s p)
      | TakeInput p now \<Rightarrow> map_option (\<lambda>(raw, c). take_input S now p raw (set_conn p c s)) (with_conn p conn_take s)
      | ReadFailed p now \<Rightarrow>
          map_option (\<lambda>c. run_handler S now (on_disconnect p) (set_conn p c s)) (with_conn p conn_read_failed s)
      | RunPosted p \<Rightarrow> map_option (\<lambda>c. set_conn p c s) (with_conn p conn_run_posted s)
      | WriteDone p \<Rightarrow> map_option (\<lambda>(_, c). set_conn p c s) (with_conn p conn_write_done s)
      | WriteFailed p now \<Rightarrow>
          map_option (\<lambda>c. run_handler S now (on_disconnect p) (set_conn p c s)) (with_conn p conn_write_failed s))"

section \<open>Runs\<close>

definition net_start :: "database \<Rightarrow> net" where
  "net_start db = \<lparr>n_up = True, n_world = start_world, n_db = db, n_conns = (\<lambda>_. None)\<rparr>"

text \<open>
  The nickname of a login is one that SQLite reads back from the statement. Any other nickname makes
  the client the author of the statement.
\<close>

definition plain_login :: "command \<Rightarrow> bool" where
  "plain_login cmd \<longleftrightarrow> (case cmd of Auth nick password \<Rightarrow> sql_plain nick | _ \<Rightarrow> True)"

definition plain_event :: "setting \<Rightarrow> event \<Rightarrow> net \<Rightarrow> bool" where
  "plain_event S ev s \<longleftrightarrow>
     (case ev of
        TakeInput p now \<Rightarrow>
          pred_option (\<lambda>(raw, c). plain_login (command_of (parse_command (s_strtod S) raw))) (with_conn p conn_take s)
      | _ \<Rightarrow> True)"

inductive net_run :: "setting \<Rightarrow> database \<Rightarrow> net \<Rightarrow> bool" for S db where
  start: "net_run S db (net_start db)"
| step: "net_run S db s \<Longrightarrow> plain_event S ev s \<Longrightarrow> net_step S ev s = Some s' \<Longrightarrow> net_run S db s'"

text \<open>What the program relies on outside.\<close>

definition good_setting :: "setting \<Rightarrow> database \<Rightarrow> bool" where
  "good_setting S db \<longleftrightarrow> sorts (s_srt S) \<and> initial_position = Some (s_start S) \<and> db_inv db \<and> connected db"

section \<open>Messages on their way\<close>

definition sent_texts :: "(u64 \<Rightarrow> string) \<Rightarrow> nat \<Rightarrow> (nat \<times> server_msg) list \<Rightarrow> string list" where
  "sent_texts ftoa p ms = map (\<lambda>(q, m). case send_text ftoa m of Inl _ \<Rightarrow> [] | Inr t \<Rightarrow> t) (filter (\<lambda>(q, m). q = p) ms)"

lemma sent_texts_append [simp]: "sent_texts ftoa p (xs @ ys) = sent_texts ftoa p xs @ sent_texts ftoa p ys"
  by (simp add: sent_texts_def)

lemma sent_texts_Nil: "\<forall>m \<in> set ms. fst m \<noteq> p \<Longrightarrow> sent_texts ftoa p ms = []"
  by (auto simp: sent_texts_def filter_empty_conv)

definition posts :: "string list \<Rightarrow> connection \<Rightarrow> connection" where
  "posts ts c = c\<lparr>c_posted := c_posted c @ ts\<rparr>"

lemma post_all_conns:
  "post_all ftoa ms cs = Some cs' \<Longrightarrow> cs' p = map_option (posts (sent_texts ftoa p ms)) (cs p)"
proof (induction ftoa ms cs arbitrary: cs' rule: post_all.induct)
  case (1 ftoa cs)
  then show ?case by (cases "cs p") (simp_all add: sent_texts_def posts_def)
next
  case (2 ftoa q m ms cs)
  then obtain t where t: "send_text ftoa m = Inr t" "post_all ftoa ms (cs(q := map_option (conn_send t) (cs q))) = Some cs'"
    by (auto split: sum.splits)
  have "cs' p = map_option (posts (sent_texts ftoa p ms)) ((cs(q := map_option (conn_send t) (cs q))) p)"
    using 2 t by blast
  then show ?case by (cases "cs p") (auto simp: sent_texts_def t posts_def conn_send_def)
qed

lemma post_all_ok: "\<forall>m \<in> set ms. \<exists>t. send_text ftoa (snd m) = Inr t \<Longrightarrow> \<exists>cs'. post_all ftoa ms cs = Some cs'"
proof (induction ms arbitrary: cs)
  case (Cons a ms)
  obtain q m where a: "a = (q, m)" by (cases a)
  obtain t where t: "send_text ftoa m = Inr t" using Cons.prems unfolding a by (metis list.set_intros(1) snd_conv)
  have "\<exists>cs'. post_all ftoa ms (cs(q := map_option (conn_send t) (cs q))) = Some cs'"
    by (rule Cons.IH) (meson Cons.prems list.set_intros(2))
  then show ?case by (simp add: a t)
qed simp

text \<open>A handler that only appends writable messages.\<close>

lemma run_handler_up:
  assumes "\<forall>m \<in> set (outbox (h (n_world s))). msg_text (snd m)" "grows (n_world s) (h (n_world s))"
  obtains cs where "run_handler S now h s = s\<lparr>n_world := h (n_world s), n_conns := cs,
      n_db := fold (run_db_call (s_engine S) now) (drop (length (db_log (n_world s))) (db_log (h (n_world s)))) (n_db s)\<rparr>"
    "\<And>p. cs p = map_option (posts (sent_texts (s_ftoa S) p (drop (length (outbox (n_world s))) (outbox (h (n_world s)))))) (n_conns s p)"
proof -
  let ?ms = "drop (length (outbox (n_world s))) (outbox (h (n_world s)))"
  have "\<forall>m \<in> set ?ms. \<exists>t. send_text (s_ftoa S) (snd m) = Inr t"
    by (meson assms(1) send_text_ok in_set_dropD)
  from post_all_ok [OF this, of "n_conns s"] obtain cs where cs: "post_all (s_ftoa S) ?ms (n_conns s) = Some cs" by (elim exE)
  show ?thesis
    by (rule that [of cs]) (simp_all add: run_handler_def Let_def cs post_all_conns [OF cs])
qed

definition delivery_ok :: "(u64 \<Rightarrow> string) \<Rightarrow> net \<Rightarrow> bool" where
  "delivery_ok ftoa s \<longleftrightarrow> (\<forall>p c. n_conns s p = Some c \<longrightarrow>
     conn_inv c \<and> c_delivered c @ conn_content c = sent_texts ftoa p (outbox (n_world s)))"

lemma delivery_okD:
  "delivery_ok ftoa s \<Longrightarrow> n_conns s p = Some c \<Longrightarrow>
     conn_inv c \<and> c_delivered c @ conn_content c = sent_texts ftoa p (outbox (n_world s))"
  by (simp add: delivery_ok_def)

lemma posts_fields [simp]:
  "conn_inv (posts ts c) = conn_inv c" "conn_content (posts ts c) = conn_content c @ ts"
  "c_delivered (posts ts c) = c_delivered c"
  by (simp_all add: posts_def conn_inv_def conn_content_def)

lemma delivery_handler:
  assumes "delivery_ok (s_ftoa S) s" "\<forall>m \<in> set (outbox (h (n_world s))). msg_text (snd m)" "grows (n_world s) (h (n_world s))"
  shows "delivery_ok (s_ftoa S) (run_handler S now h s)"
proof -
  obtain cs where r: "run_handler S now h s = s\<lparr>n_world := h (n_world s), n_conns := cs,
      n_db := fold (run_db_call (s_engine S) now) (drop (length (db_log (n_world s))) (db_log (h (n_world s)))) (n_db s)\<rparr>"
    and cs: "\<And>p. cs p = map_option (posts (sent_texts (s_ftoa S) p (drop (length (outbox (n_world s))) (outbox (h (n_world s)))))) (n_conns s p)"
    using run_handler_up [of h s S now] assms(2,3) by metis
  have "outbox (h (n_world s)) = outbox (n_world s) @ drop (length (outbox (n_world s))) (outbox (h (n_world s)))"
    using grows_new(1) [OF assms(3)] .
  then have "sent_texts (s_ftoa S) p (outbox (h (n_world s))) = sent_texts (s_ftoa S) p (outbox (n_world s)) @
      sent_texts (s_ftoa S) p (drop (length (outbox (n_world s))) (outbox (h (n_world s))))" for p
    by (metis sent_texts_append)
  then show ?thesis using assms(1) by (auto simp: delivery_ok_def r cs)
qed

lemma delivery_set_conn:
  assumes "delivery_ok ftoa s" "n_conns s p = Some c" "conn_inv c \<Longrightarrow> conn_inv c' \<and> c_delivered c' @ conn_content c' = c_delivered c @ conn_content c"
  shows "delivery_ok ftoa (set_conn p c' s)"
  using assms delivery_okD [OF assms(1,2)] by (auto simp: delivery_ok_def set_conn_def)

lemma delivery_same: "delivery_ok ftoa s \<Longrightarrow> n_conns s p = Some c \<Longrightarrow> same_queue c c' \<Longrightarrow> delivery_ok ftoa (set_conn p c' s)"
  using delivery_set_conn [of ftoa s p c c'] same_queueD [of c c'] by simp

section \<open>Every step keeps the invariants\<close>

definition login_of :: "setting \<Rightarrow> string \<Rightarrow> net \<Rightarrow> string \<Rightarrow> string \<Rightarrow> string \<Rightarrow> user_info option" where
  "login_of S now s raw = (\<lambda>_ _. fst (login_answer S now (command_of (parse_command (s_strtod S) raw)) (n_db s)))"

lemma take_input_eq:
  "take_input S now p raw s =
     run_handler S now
       (receive (s_strtod S) (login_of S now s raw) (get_top_players (s_by_rating S) 10 (n_db s)) (s_srt S) (s_start S) p raw)
       (s\<lparr>n_db := snd (login_answer S now (command_of (parse_command (s_strtod S) raw)) (n_db s))\<rparr>)"
  by (simp add: take_input_def login_of_def split: prod.split)

text \<open>A plain login is answered with the nickname that was asked for.\<close>

lemma login_user_nick:
  "sql_plain nick \<Longrightarrow> fst (login_user e hasher now nick password db) = Some u \<Longrightarrow> u_nickname u = nick"
  by (auto simp: login_user_def select_user_def Let_def info_of_row_def find_Some_iff split: option.splits if_splits)

lemma login_or_register_nick:
  "sql_plain nick \<Longrightarrow> fst (login_or_register e hasher now nick password db) = Some u \<Longrightarrow> u_nickname u = nick"
  using login_user_nick
  by (auto simp: login_or_register_def split: prod.splits option.splits bool.splits) (metis fst_conv)+

lemma login_answer_text:
  assumes "plain_login cmd" "command_text cmd"
  shows "login_text (\<lambda>_ _. fst (login_answer S now cmd db)) cmd"
proof (cases cmd)
  case (Auth nick password)
  show ?thesis
  proof (cases "fst (login_answer S now cmd db)")
    case (Some u)
    then have "u_nickname u = nick"
      using assms(1) Auth login_or_register_nick by (auto simp: login_answer_def plain_login_def split: if_splits)
    then show ?thesis using assms(2) Auth Some by (simp add: login_text_def)
  qed (simp add: login_text_def Auth)
qed (simp_all add: login_text_def)

lemma login_answer_inv: "db_inv db \<Longrightarrow> plain_login cmd \<Longrightarrow> db_inv (snd (login_answer S now cmd db))"
  by (cases cmd) (auto simp: login_answer_def plain_login_def db_inv_login_or_register)

lemma db_calls_inv: "db_inv db \<Longrightarrow> \<forall>c \<in> set cs. plain_call c \<Longrightarrow> db_inv (fold (run_db_call e now) cs db)"
  by (induction cs arbitrary: db) (simp_all add: db_inv_call)

text \<open>What holds between steps.\<close>

definition net_inv :: "setting \<Rightarrow> net \<Rightarrow> bool" where
  "net_inv S s \<longleftrightarrow> n_up s \<and> line_run (s_strtod S) (s_srt S) (s_start S) (n_world s) \<and> db_inv (n_db s) \<and>
     delivery_ok (s_ftoa S) s"

lemma net_inv_handler:
  assumes "n_up s" "line_run (s_strtod S) (s_srt S) (s_start S) (h (n_world s))" "db_inv (n_db s)" "delivery_ok (s_ftoa S) s"
    and "grows (n_world s) (h (n_world s))" "sorts (s_srt S)" "initial_position = Some (s_start S)"
  shows "net_inv S (run_handler S now h s)"
proof -
  have t: "world_text (h (n_world s))"
    using line_run_text [OF assms(6) reachable.start [OF assms(7)] assms(2)] .
  then have msgs: "\<forall>m \<in> set (outbox (h (n_world s))). msg_text (snd m)"
    and calls: "\<forall>c \<in> set (db_log (h (n_world s))). plain_call c" by (simp_all add: world_text_def)
  obtain cs where r: "run_handler S now h s = s\<lparr>n_world := h (n_world s), n_conns := cs,
      n_db := fold (run_db_call (s_engine S) now) (drop (length (db_log (n_world s))) (db_log (h (n_world s)))) (n_db s)\<rparr>"
    using run_handler_up [of h s S now] msgs assms(5) by metis
  have "db_inv (n_db (run_handler S now h s))"
    unfolding r by (simp, rule db_calls_inv [OF assms(3)]) (meson calls in_set_dropD)
  then show ?thesis
    using assms(1,2) delivery_handler [where h = h and now = now, OF assms(4) msgs assms(5)] unfolding net_inv_def by (simp add: r)
qed

lemma set_conn_fields [simp]:
  "n_up (set_conn p c s) = n_up s" "n_world (set_conn p c s) = n_world s" "n_db (set_conn p c s) = n_db s"
  by (simp_all add: set_conn_def)

lemma with_conn_Some: "with_conn p f s = Some x \<longleftrightarrow> (\<exists>c. n_conns s p = Some c \<and> f c = Some x)"
  by (simp add: with_conn_def split: option.split)

text \<open>The connection that an event is about, and what it does there before a handler runs.\<close>

fun event_player :: "event \<Rightarrow> nat" where
  "event_player (Connect p t) = p"
| "event_player (Handshake p ok now) = p"
| "event_player (Receive p bytes) = p"
| "event_player (TakeInput p now) = p"
| "event_player (ReadFailed p now) = p"
| "event_player (RunPosted p) = p"
| "event_player (WriteDone p) = p"
| "event_player (WriteFailed p now) = p"

fun conn_effect :: "event \<Rightarrow> connection \<Rightarrow> connection option" where
  "conn_effect (Connect p t) c = None"
| "conn_effect (Handshake p ok now) c = conn_handshake ok c"
| "conn_effect (Receive p bytes) c = Some (conn_receive bytes c)"
| "conn_effect (TakeInput p now) c = map_option snd (conn_take c)"
| "conn_effect (ReadFailed p now) c = conn_read_failed c"
| "conn_effect (RunPosted p) c = conn_run_posted c"
| "conn_effect (WriteDone p) c = map_option snd (conn_write_done c)"
| "conn_effect (WriteFailed p now) c = conn_write_failed c"

text \<open>
  A step opens a connection, changes the connection that it is about, and then perhaps runs a handler: the one
  for a lost connection, or the one for a line of input.
\<close>

lemma net_step_cases:
  assumes "net_step S ev s = Some s'"
  obtains (connect) p t where "ev = Connect p t" "unused p s" "s' = set_conn p (new_connection t) (s\<lparr>n_world := accept p (n_world s)\<rparr>)"
  | (quiet) p c c' where "p = event_player ev" "n_conns s p = Some c" "conn_effect ev c = Some c'" "s' = set_conn p c' s"
  | (lost) p c c' now where "p = event_player ev" "n_conns s p = Some c" "conn_effect ev c = Some c'"
      "s' = run_handler S now (on_disconnect p) (set_conn p c' s)"
  | (input) p now c raw c' where "ev = TakeInput p now" "n_conns s p = Some c" "conn_take c = Some (raw, c')"
      "s' = take_input S now p raw (set_conn p c' s)"
proof -
  have "n_up s" using assms by (simp add: net_step_def split: if_splits)
  then show thesis using assms that
    by (cases ev) (force simp: net_step_def with_conn_Some split: if_splits)+
qed

lemma net_step_up: "net_step S ev s = Some s' \<Longrightarrow> n_up s"
  by (simp add: net_step_def split: if_splits)

lemma delivery_db [simp]: "delivery_ok ftoa (s\<lparr>n_db := db\<rparr>) = delivery_ok ftoa s"
  by (simp add: delivery_ok_def)

lemma net_inv_conn: "net_inv S s \<Longrightarrow> delivery_ok (s_ftoa S) (set_conn p c s) \<Longrightarrow> net_inv S (set_conn p c s)"
  by (simp add: net_inv_def)

lemma net_inv_disconnect:
  assumes "net_inv S s" "delivery_ok (s_ftoa S) (set_conn p c s)" "sorts (s_srt S)" "initial_position = Some (s_start S)"
  shows "net_inv S (run_handler S now (on_disconnect p) (set_conn p c s))"
  using assms by (intro net_inv_handler) (auto simp: net_inv_def appended.on_disconnect_step appended.refl line_run.disconnect)

lemma failed_write_queue:
  "conn_write_failed c = Some c' \<Longrightarrow> conn_inv c \<Longrightarrow> conn_inv c' \<and> c_delivered c' @ conn_content c' = c_delivered c @ conn_content c"
  by (auto simp: conn_write_failed_def conn_inv_def conn_content_def split: if_splits)

lemma delivery_effect:
  assumes "delivery_ok ftoa s" "n_conns s p = Some c" "conn_effect ev c = Some c'"
  shows "delivery_ok ftoa (set_conn p c' s)"
proof (cases ev)
  case (RunPosted q)
  then have "conn_run_posted c = Some c'" using assms(3) by simp
  then show ?thesis using out_queue.inner_law conn_run_posted_fields(1) by (intro delivery_set_conn [OF assms(1,2)]) simp
next
  case (WriteDone q)
  then obtain t where "conn_write_done c = Some (t, c')" using assms(3) by auto
  then show ?thesis using out_queue.pop_law conn_write_done_fields(1) by (intro delivery_set_conn [OF assms(1,2)]) simp
next
  case (WriteFailed q now)
  then show ?thesis using assms(3) failed_write_queue by (intro delivery_set_conn [OF assms(1,2)]) simp
qed (use assms(3) same_queue_steps in \<open>auto intro!: delivery_same [OF assms(1,2)]\<close>)

lemma net_inv_connect:
  assumes "net_inv S s" "unused p s"
  shows "net_inv S (set_conn p (new_connection t) (s\<lparr>n_world := accept p (n_world s)\<rparr>))"
proof -
  have "line_run (s_strtod S) (s_srt S) (s_start S) (accept p (n_world s))"
    using assms by (intro line_run.connect) (simp_all add: unused_def net_inv_def)
  moreover have "outbox (accept p (n_world s)) = outbox (n_world s)" by (simp add: accept_def)
  moreover have "sent_texts (s_ftoa S) p (outbox (n_world s)) = []" using assms(2) by (intro sent_texts_Nil) (simp add: unused_def)
  ultimately show ?thesis using assms(1) by (auto simp: net_inv_def delivery_ok_def set_conn_def)
qed

lemma net_inv_input:
  assumes "net_inv S s" "plain_login (command_of (parse_command (s_strtod S) raw))" "delivery_ok (s_ftoa S) (set_conn p c s)"
    and "sorts (s_srt S)" "initial_position = Some (s_start S)"
  shows "net_inv S (take_input S now p raw (set_conn p c s))"
  unfolding take_input_eq
proof (rule net_inv_handler)
  have up: "n_up s" and run: "line_run (s_strtod S) (s_srt S) (s_start S) (n_world s)" and db: "db_inv (n_db s)"
    using assms(1) by (simp_all add: net_inv_def)
  let ?s = "set_conn p c s"
  let ?s1 = "?s\<lparr>n_db := snd (login_answer S now (command_of (parse_command (s_strtod S) raw)) (n_db ?s))\<rparr>"
  show "line_run (s_strtod S) (s_srt S) (s_start S)
     (receive (s_strtod S) (login_of S now ?s raw) (get_top_players (s_by_rating S) 10 (n_db ?s)) (s_srt S) (s_start S) p raw (n_world ?s1))"
    using line_run.line [OF run login_answer_text [OF assms(2) parsed_command_text]] by (simp add: login_of_def)
  show "db_inv (n_db ?s1)" using login_answer_inv [OF db assms(2)] by simp
  show "n_up ?s1" using up by simp
qed (use assms(3-5) in \<open>simp_all add: receive_def appended.command_step appended.refl\<close>)

lemma net_inv_step:
  assumes "net_inv S s" "plain_event S ev s" "net_step S ev s = Some s'" "sorts (s_srt S)" "initial_position = Some (s_start S)"
  shows "net_inv S s'"
proof -
  have d: "delivery_ok (s_ftoa S) s" using assms(1) by (simp add: net_inv_def)
  from assms(3) show ?thesis
  proof (cases rule: net_step_cases)
    case (connect p t)
    then show ?thesis using net_inv_connect [OF assms(1)] by simp
  next
    case (quiet p c c')
    then show ?thesis using net_inv_conn [OF assms(1)] delivery_effect [OF d] by simp
  next
    case (lost p c c' now)
    then show ?thesis using net_inv_disconnect [OF assms(1) _ assms(4,5)] delivery_effect [OF d] by simp
  next
    case (input p now c raw c')
    then have "plain_login (command_of (parse_command (s_strtod S) raw))" using assms(2) by (simp add: plain_event_def with_conn_def)
    moreover have "delivery_ok (s_ftoa S) (set_conn p c' s)" using input by (intro delivery_effect [OF d, of p c ev]) simp_all
    ultimately show ?thesis unfolding input(4) by (rule net_inv_input [OF assms(1) _ _ assms(4,5)])
  qed
qed

lemma net_run_inv:
  assumes "good_setting S db"
  shows "net_run S db s \<Longrightarrow> net_inv S s"
proof (induction rule: net_run.induct)
  case start
  then show ?case using assms line_run.boot by (simp add: net_inv_def net_start_def good_setting_def delivery_ok_def)
next
  case (step s ev s')
  then show ?case using net_inv_step assms unfolding good_setting_def by blast
qed

end
