(* ===== verification/NetLib.thy ===== *)
theory NetLib
  imports Net
begin

text \<open>
  Two invariants of the whole server that need more than one component: an authorized session has an
  account in the database, and the outgoing queue of a connection makes progress, step by step, so
  that in a fair run every message arrives.
\<close>

section \<open>Accounts are kept\<close>

definition has_account :: "database \<Rightarrow> string \<Rightarrow> int \<Rightarrow> bool" where
  "has_account db nick i \<longleftrightarrow> (\<exists>r \<in> set (users db). usr_nickname r = nick \<and> column_int (usr_id r) = i)"

definition keeps_accounts :: "database \<Rightarrow> database \<Rightarrow> bool" where
  "keeps_accounts db db' \<longleftrightarrow> (\<forall>nick i. has_account db nick i \<longrightarrow> has_account db' nick i)"

lemma keeps_refl: "keeps_accounts db db"
  by (simp add: keeps_accounts_def)

lemma keeps_trans: "keeps_accounts a b \<Longrightarrow> keeps_accounts b c \<Longrightarrow> keeps_accounts a c"
  by (auto simp: keeps_accounts_def)

lemma keeps_update_user:
  assumes "\<And>r. usr_id (f r) = usr_id r \<and> usr_nickname (f r) = usr_nickname r"
  shows "keeps_accounts db (snd (update_user i f db))"
  unfolding keeps_accounts_def has_account_def
proof (intro allI impI)
  fix nick k assume "\<exists>r \<in> set (users db). usr_nickname r = nick \<and> column_int (usr_id r) = k"
  then obtain r where r: "r \<in> set (users db)" "usr_nickname r = nick" "column_int (usr_id r) = k" by blast
  then have "(if usr_id r = i then f r else r) \<in> set (users (snd (update_user i f db)))" by (auto simp: update_user_def)
  then show "\<exists>r \<in> set (users (snd (update_user i f db))). usr_nickname r = nick \<and> column_int (usr_id r) = k"
    using r(2,3) assms by (intro bexI) auto
qed

lemma keeps_query: "keeps_accounts db (snd (stmt db)) \<Longrightarrow> keeps_accounts db (snd (execute_query stmt db))"
  by (simp add: execute_query_cases keeps_refl)

lemma keeps_call: "plain_call c \<Longrightarrow> keeps_accounts db (run_db_call e now c db)"
proof (cases c)
  case (SaveGame w b v res pgn)
  have "keeps_accounts db (snd (insert_game now w b v res pgn db))"
    by (simp add: insert_game_def keeps_accounts_def has_account_def)
  then show "plain_call c \<Longrightarrow> ?thesis" using SaveGame by (simp add: save_game_def keeps_query)
qed (auto simp: db_update_rating_def update_stats_def intro!: keeps_query keeps_update_user)

lemma keeps_calls: "\<forall>c \<in> set cs. plain_call c \<Longrightarrow> keeps_accounts db (fold (run_db_call e now) cs db)"
proof (induction cs arbitrary: db)
  case (Cons c cs)
  have "keeps_accounts db (run_db_call e now c db)" using Cons.prems keeps_call by simp
  moreover have "keeps_accounts (run_db_call e now c db) (fold (run_db_call e now) cs (run_db_call e now c db))"
    using Cons by simp
  ultimately show ?case by (simp, rule keeps_trans)
qed (simp add: keeps_refl)

lemma keeps_last_login: "keeps_accounts db (update_last_login now i db)"
  unfolding update_last_login_def by (intro keeps_query keeps_update_user) simp

lemma keeps_login_user: "keeps_accounts db (snd (login_user e hasher now nick password db))"
  by (auto simp: login_user_def Let_def keeps_refl keeps_last_login split: option.split)

lemma keeps_register_user: "sql_plain nick \<Longrightarrow> keeps_accounts db (snd (register_user e hasher now nick password db))"
proof -
  have "keeps_accounts db (snd (insert_user now nick hs db))" for hs
    by (auto simp: insert_user_def keeps_accounts_def has_account_def)
  then show "sql_plain nick \<Longrightarrow> ?thesis" by (simp add: register_user_def Let_def keeps_query keeps_refl)
qed

lemma login_user_account:
  assumes "sql_plain nick" "fst (login_user e hasher now nick password db) = Some u"
  shows "has_account (snd (login_user e hasher now nick password db)) (u_nickname u) (u_id u)"
proof -
  obtain r where r: "find (\<lambda>r. usr_nickname r = nick) (users db) = Some r" "u = info_of_row r"
    "snd (login_user e hasher now nick password db) = update_last_login now (u_id u) db"
    using assms by (auto simp: login_user_def select_user_def Let_def split: option.splits if_splits)
  then have "has_account db (u_nickname u) (u_id u)"
    by (auto simp: has_account_def info_of_row_def find_Some_iff)
  then show ?thesis using r(3) keeps_last_login unfolding keeps_accounts_def by simp
qed

lemma login_or_register_accounts:
  assumes "sql_plain nick"
  shows "keeps_accounts db (snd (login_or_register e hasher now nick password db))"
    "fst (login_or_register e hasher now nick password db) = Some u \<Longrightarrow>
       has_account (snd (login_or_register e hasher now nick password db)) (u_nickname u) (u_id u)"
proof -
  obtain a db1 where l: "login_user e hasher now nick password db = (a, db1)" by (metis surj_pair)
  obtain b db2 where g: "register_user e hasher now nick password db1 = (b, db2)" by (metis surj_pair)
  have k1: "keeps_accounts db db1" using keeps_login_user [of db e hasher now nick password] l by simp
  have k2: "keeps_accounts db1 db2" using keeps_register_user [OF assms, of db1 e hasher now password] g by simp
  have k3: "keeps_accounts db2 (snd (login_user e hasher now nick password db2))" by (rule keeps_login_user)
  show "keeps_accounts db (snd (login_or_register e hasher now nick password db))"
  proof -
    have "snd (login_or_register e hasher now nick password db) =
        (if a \<noteq> None then db1 else if b then snd (login_user e hasher now nick password db2) else db2)"
      by (cases a; cases b) (simp_all add: login_or_register_def l g)
    then show ?thesis using k1 keeps_trans [OF k1 k2] keeps_trans [OF keeps_trans [OF k1 k2] k3] by simp
  qed
  show "fst (login_or_register e hasher now nick password db) = Some u \<Longrightarrow>
       has_account (snd (login_or_register e hasher now nick password db)) (u_nickname u) (u_id u)"
    using login_user_account [OF assms, of e hasher now password db u] login_user_account [OF assms, of e hasher now password db2 u] l g
    by (cases a; cases b) (simp_all add: login_or_register_def)
qed

section \<open>Authorized sessions\<close>

definition sessions_ok :: "world \<Rightarrow> database \<Rightarrow> bool" where
  "sessions_ok w db \<longleftrightarrow> (\<forall>p. p_authorized (players w p) \<longrightarrow> has_account db (p_nick (players w p)) (p_user_id (players w p)))"

lemma sessions_ok_keeps: "sessions_ok w db \<Longrightarrow> keeps_accounts db db' \<Longrightarrow> sessions_ok w db'"
  by (auto simp: sessions_ok_def keeps_accounts_def)

lemma sessions_ok_same: "sessions_ok w db \<Longrightarrow> same_identity w w' \<Longrightarrow> sessions_ok w' db"
  by (auto simp: sessions_ok_def same_identity_def identity_def)

lemma sessions_ok_handler:
  assumes "sessions_ok (h (n_world s)) (n_db s)" "sessions_ok (n_world s) (n_db s)"
    and "\<forall>c \<in> set (db_log (h (n_world s))). plain_call c"
  shows "sessions_ok (n_world (run_handler S now h s)) (n_db (run_handler S now h s))"
proof -
  have "\<forall>c \<in> set (drop (length (db_log (n_world s))) (db_log (h (n_world s)))). plain_call c"
    by (meson assms(3) in_set_dropD)
  then show ?thesis
    using sessions_ok_keeps [OF assms(1) keeps_calls] assms(2) by (auto simp: run_handler_def Let_def split: option.split)
qed

lemma sessions_ok_login:
  assumes "sessions_ok w db" "login nick password = None \<or> (\<exists>u. login nick password = Some u \<and> has_account db (u_nickname u) (u_id u))"
  shows "sessions_ok (handle_auth login p nick password w) db"
proof (cases "login nick password")
  case (Some u)
  then show ?thesis using assms
    by (auto simp: handle_auth_def Let_def sessions_ok_def set_player_def send_def)
qed (use assms(1) in \<open>auto simp: handle_auth_def sessions_ok_def send_def\<close>)

lemma login_answer_accounts:
  assumes "plain_login cmd"
  shows "keeps_accounts db (snd (login_answer S now cmd db))"
    "fst (login_answer S now cmd db) = Some u \<Longrightarrow> has_account (snd (login_answer S now cmd db)) (u_nickname u) (u_id u)"
  using assms login_or_register_accounts
  by (cases cmd; auto simp: login_answer_def plain_login_def keeps_refl split: if_splits)+

lemma sessions_ok_command:
  assumes "sessions_ok w db" "plain_login cmd"
  shows "sessions_ok (handle_command (\<lambda>_ _. fst (login_answer S now cmd db)) leaders srt pos p cmd w) (snd (login_answer S now cmd db))"
proof -
  have ok: "sessions_ok w (snd (login_answer S now cmd db))"
    by (rule sessions_ok_keeps [OF assms(1) login_answer_accounts(1) [OF assms(2)]])
  show ?thesis
  proof (cases "\<exists>nick password. cmd = Auth nick password")
    case True
    then obtain nick password where cmd: "cmd = Auth nick password" by blast
    have "fst (login_answer S now cmd db) = None \<or>
        (\<exists>u. fst (login_answer S now cmd db) = Some u \<and> has_account (snd (login_answer S now cmd db)) (u_nickname u) (u_id u))"
      using login_answer_accounts(2) [OF assms(2)] by (cases "fst (login_answer S now cmd db)") auto
    then have "sessions_ok (handle_auth (\<lambda>_ _. fst (login_answer S now cmd db)) p nick password w) (snd (login_answer S now cmd db))"
      by (intro sessions_ok_login ok)
    then show ?thesis by (simp add: handle_command_def cmd)
  next
    case False
    then show ?thesis
      by (intro sessions_ok_same [OF ok] belongs.handle_command_step belongs.refl) blast
  qed
qed

lemma sessions_ok_disconnect: "sessions_ok w db \<Longrightarrow> sessions_ok (on_disconnect p w) db"
  by (erule sessions_ok_same) (rule belongs.on_disconnect_step [OF belongs.refl])

lemma sessions_ok_step:
  assumes "net_inv S s" "plain_event S ev s" "net_step S ev s = Some s'" "sorts (s_srt S)" "initial_position = Some (s_start S)"
    and "sessions_ok (n_world s) (n_db s)"
  shows "sessions_ok (n_world s') (n_db s')"
proof -
  have run: "line_run (s_strtod S) (s_srt S) (s_start S) (n_world s)" using assms(1) by (simp add: net_inv_def)
  have calls: "\<forall>c \<in> set (db_log w). plain_call c" if "line_run (s_strtod S) (s_srt S) (s_start S) w" for w
    using line_run_text [OF assms(4) reachable.start [OF assms(5)] that] by (simp add: world_text_def)
  have gone: "sessions_ok (n_world (run_handler S now (on_disconnect p) (set_conn p c s)))
      (n_db (run_handler S now (on_disconnect p) (set_conn p c s)))" for now p c
    by (rule sessions_ok_handler) (use assms(6) calls [OF line_run.disconnect [OF run]] in \<open>simp_all add: sessions_ok_disconnect\<close>)
  from assms(3) show ?thesis
  proof (cases rule: net_step_cases)
    case (connect p t)
    then show ?thesis using assms(6) by (auto simp: sessions_ok_def accept_def new_session_def)
  next
    case (quiet p c c')
    then show ?thesis using assms(6) by simp
  next
    case (lost p c c' now)
    then show ?thesis using gone by simp
  next
    case (input p now c raw c')
    let ?cmd = "command_of (parse_command (s_strtod S) raw)"
    have pl: "plain_login ?cmd" using assms(2) input by (simp add: plain_event_def with_conn_def)
    show ?thesis unfolding input(4) take_input_eq
    proof (rule sessions_ok_handler)
      show "sessions_ok (n_world (set_conn p c' s\<lparr>n_db := snd (login_answer S now ?cmd (n_db (set_conn p c' s)))\<rparr>))
        (n_db (set_conn p c' s\<lparr>n_db := snd (login_answer S now ?cmd (n_db (set_conn p c' s)))\<rparr>))"
        using sessions_ok_keeps [OF assms(6) login_answer_accounts(1) [OF pl]] by simp
    next
      show "\<forall>c \<in> set (db_log (receive (s_strtod S) (login_of S now (set_conn p c' s) raw)
          (get_top_players (s_by_rating S) 10 (n_db (set_conn p c' s))) (s_srt S) (s_start S) p raw
          (n_world (set_conn p c' s\<lparr>n_db := snd (login_answer S now ?cmd (n_db (set_conn p c' s)))\<rparr>)))). plain_call c"
        using calls [OF line_run.line [OF run login_answer_text [OF pl parsed_command_text]]] by (simp add: login_of_def)
    qed (use sessions_ok_command [OF assms(6) pl] in \<open>simp add: receive_def login_of_def\<close>)
  qed
qed

lemma net_run_sessions:
  assumes "good_setting S db"
  shows "net_run S db s \<Longrightarrow> sessions_ok (n_world s) (n_db s)"
proof (induction rule: net_run.induct)
  case start
  then show ?case by (simp add: sessions_ok_def net_start_def start_world_def new_session_def)
next
  case (step s ev s')
  then show ?case using sessions_ok_step net_run_inv [OF assms] assms unfolding good_setting_def by blast
qed

section \<open>Progress of a connection\<close>

lemma run_handler_conns: "\<exists>ts. n_conns (run_handler S now h s) p = map_option (posts ts) (n_conns s p)"
proof (cases "post_all (s_ftoa S) (drop (length (outbox (n_world s))) (outbox (h (n_world s)))) (n_conns s)")
  case None
  have "posts [] c = c" for c by (simp add: posts_def)
  then have "map_option (posts []) (n_conns s p) = n_conns s p" by (cases "n_conns s p") simp_all
  then show ?thesis using None by (auto simp: run_handler_def Let_def intro!: exI [of _ "[]"])
next
  case (Some cs)
  then show ?thesis using post_all_conns [OF Some, of p] by (auto simp: run_handler_def Let_def)
qed

lemma run_handler_outbox:
  "grows (n_world s) (h (n_world s)) \<Longrightarrow> \<exists>ms. outbox (n_world (run_handler S now h s)) = outbox (n_world s) @ ms"
  by (auto simp: run_handler_def Let_def grows_def split: option.split)

text \<open>How many messages were delivered, and how many reached the outgoing queue.\<close>

definition delivered_count :: "connection \<Rightarrow> nat" where
  "delivered_count c = length (c_delivered c)"

definition queued_count :: "connection \<Rightarrow> nat" where
  "queued_count c = length (c_delivered c) + length (c_outbox c)"

definition advances :: "connection \<Rightarrow> connection \<Rightarrow> bool" where
  "advances c c' \<longleftrightarrow> delivered_count c \<le> delivered_count c' \<and> queued_count c \<le> queued_count c'"

lemma advances_posts: "advances c c' \<Longrightarrow> advances c (posts ts c')"
  by (simp add: advances_def delivered_count_def queued_count_def posts_def)

lemma advances_same: "same_queue c c' \<Longrightarrow> advances c c'"
  by (simp add: advances_def delivered_count_def queued_count_def same_queue_def)

lemma advances_run: "conn_run_posted c = Some c' \<Longrightarrow> advances c c' \<and> queued_count c' = Suc (queued_count c) \<and> c_failed c' = c_failed c"
  using conn_run_posted_fields [of c c'] by (simp add: advances_def delivered_count_def queued_count_def)

lemma advances_write:
  assumes "conn_write_done c = Some (t, c')" "conn_inv c"
  shows "advances c c' \<and> delivered_count c' = Suc (delivered_count c) \<and> c_failed c' = c_failed c"
proof -
  have "c_outbox c \<noteq> []" using assms by (auto simp: conn_write_done_def conn_inv_def split: if_splits)
  then show ?thesis using conn_write_done_fields [OF assms(1)]
    by (simp add: advances_def delivered_count_def queued_count_def)
qed

lemma posts_Nil [simp]: "posts [] c = c"
  by (simp add: posts_def)

lemma handler_conn:
  assumes "n_conns s q = Some c1"
  shows "\<exists>ts. n_conns (run_handler S now h s) q = Some (posts ts c1)"
  using run_handler_conns [of S now h s q] assms by auto

lemma net_step_effect:
  assumes "net_step S ev s = Some s'" "n_conns s p = Some c"
  obtains c0 ts where "if event_player ev = p then conn_effect ev c = Some c0 else c0 = c" "n_conns s' p = Some (posts ts c0)"
  using assms(1)
proof (cases rule: net_step_cases)
  case (connect q t)
  then have "q \<noteq> p" using assms(2) by (auto simp: unused_def)
  then show thesis using that [of c "[]"] connect assms(2) by (simp add: set_conn_def)
next
  case (quiet q d c1)
  then show thesis using that [of "if event_player ev = p then c1 else c" "[]"] assms(2)
    by (cases "event_player ev = p") (auto simp: set_conn_def)
next
  case (lost q d c1 now)
  define c0 where "c0 = (if event_player ev = p then c1 else c)"
  have "n_conns (set_conn q c1 s) p = Some c0" using lost(1) assms(2) by (simp add: set_conn_def c0_def)
  from handler_conn [OF this, of S now "on_disconnect q", folded lost(4)] obtain ts where "n_conns s' p = Some (posts ts c0)" by (elim exE)
  moreover have "if event_player ev = p then conn_effect ev c = Some c0 else c0 = c" using lost(1-3) assms(2) by (auto simp: c0_def)
  ultimately show thesis using that by blast
next
  case (input q now d raw c1)
  define c0 where "c0 = (if event_player ev = p then c1 else c)"
  have "n_conns (set_conn q c1 s) p = Some c0" using input(1) assms(2) by (simp add: set_conn_def c0_def)
  then obtain ts where "n_conns s' p = Some (posts ts c0)" unfolding input(4) take_input_eq using handler_conn by force
  moreover have "if event_player ev = p then conn_effect ev c = Some c0 else c0 = c" using input(1-3) assms(2) by (auto simp: c0_def)
  ultimately show thesis using that by blast
qed

lemma effect_advances:
  assumes "conn_effect ev c = Some c0" "conn_inv c"
  shows "advances c c0 \<and> ((\<forall>p now. ev \<noteq> WriteFailed p now) \<longrightarrow> c_failed c0 = c_failed c) \<and>
    (\<forall>p. ev = RunPosted p \<longrightarrow> queued_count c0 = Suc (queued_count c)) \<and>
    (\<forall>p. ev = WriteDone p \<longrightarrow> delivered_count c0 = Suc (delivered_count c))"
proof (cases ev)
  case (WriteDone p)
  then obtain t where "conn_write_done c = Some (t, c0)" using assms(1) by auto
  then show ?thesis using advances_write [OF _ assms(2)] WriteDone by blast
next
  case (WriteFailed p now)
  then show ?thesis using assms(1)
    by (auto simp: conn_write_failed_def advances_def delivered_count_def queued_count_def split: if_splits)
next
  case (RunPosted p)
  then show ?thesis using assms(1) advances_run by auto
qed (use assms(1) advances_same same_queue_steps in \<open>auto simp: same_queue_def\<close>)

lemma conn_step:
  assumes "net_step S ev s = Some s'" "n_conns s p = Some c" "conn_inv c"
  obtains c' where "n_conns s' p = Some c'" "advances c c'"
    "(\<forall>now. ev \<noteq> WriteFailed p now) \<Longrightarrow> c_failed c' = c_failed c"
    "ev = RunPosted p \<Longrightarrow> queued_count c' = Suc (queued_count c)"
    "ev = WriteDone p \<Longrightarrow> delivered_count c' = Suc (delivered_count c)"
proof -
  obtain c0 ts where c0: "if event_player ev = p then conn_effect ev c = Some c0 else c0 = c" "n_conns s' p = Some (posts ts c0)"
    using net_step_effect [OF assms(1,2)] by blast
  have f: "advances c0 (posts ts c0)" "c_failed (posts ts c0) = c_failed c0" "queued_count (posts ts c0) = queued_count c0"
    "delivered_count (posts ts c0) = delivered_count c0"
    by (simp_all add: posts_def advances_def delivered_count_def queued_count_def)
  show thesis
  proof (cases "event_player ev = p")
    case True
    then have e: "conn_effect ev c = Some c0" using c0(1) by simp
    have w: "\<exists>now. ev = WriteFailed p now" if "ev = WriteFailed q now" for q now using that True by auto
    show thesis
      by (rule that [OF c0(2)]) (use effect_advances [OF e assms(3)] f w in \<open>auto simp: advances_def\<close>)
  next
    case False
    then have "c0 = c" using c0(1) by simp
    then show thesis by (intro that [OF c0(2)]) (use f False in auto)
  qed
qed

lemma step_outbox: "net_step S ev s = Some s' \<Longrightarrow> \<exists>ms. outbox (n_world s') = outbox (n_world s) @ ms"
proof -
  have h: "\<exists>ms. outbox (n_world (run_handler S now h s1)) = outbox (n_world s) @ ms"
    if "n_world s1 = n_world s" "grows (n_world s) (h (n_world s))" for now h s1
    using run_handler_outbox [of s1 h S now] that by simp
  assume "net_step S ev s = Some s'"
  then show ?thesis
  proof (cases rule: net_step_cases)
    case (input p now c raw c')
    then show ?thesis unfolding take_input_eq
      by (simp only:, intro h) (simp_all add: receive_def appended.command_step appended.refl)
  qed (auto simp: accept_def intro!: h appended.on_disconnect_step appended.refl)
qed

end
