(* ===== verification/NetProps.thy ===== *)
theory NetProps
  imports ClientProps NetLib
begin

text \<open>
  The properties of the whole server: the login as an operation on accounts, the accounts of the
  sessions, and the way of the messages to the clients, as an invariant of every run and as a promise
  of every fair one.
\<close>

section \<open>A setting for the witnesses\<close>

definition demo_engine :: engine where
  "demo_engine = \<lparr>raw_exec = (\<lambda>sql db. (False, db)), raw_select = (\<lambda>sql db. None)\<rparr>"

definition demo_setting :: setting where
  "demo_setting = \<lparr>s_strtod = (\<lambda>_. 0), s_ftoa = (\<lambda>_. ''0.0''), s_hasher = (\<lambda>s. of_nat (length s)), s_engine = demo_engine,
     s_srt = (\<lambda>f xs. sort_key f xs), s_by_rating = sort_key (\<lambda>r. - usr_rating r), s_start = the initial_position\<rparr>"

lemma demo_good: "good_setting demo_setting (create_tables True)"
proof -
  have "initial_position = Some (the initial_position)" using initial_exists by auto
  then show ?thesis
    by (simp add: good_setting_def demo_setting_def sorts_sort_key db_inv_create_tables) (simp add: create_tables_def)
qed

text \<open>A client connects and its first line is taken.\<close>

definition demo_conn :: "string \<Rightarrow> connection" where
  "demo_conn raw = conn_receive (raw @ [CHR 0x0A]) (new_connection Tcp)"

definition demo_net :: "string \<Rightarrow> net" where
  "demo_net raw =
     take_input demo_setting ''now'' 7 raw
       (set_conn 7 (new_connection Tcp)
         (set_conn 7 (demo_conn raw)
           (set_conn 7 (new_connection Tcp) ((net_start (create_tables True))\<lparr>n_world := accept 7 start_world\<rparr>))))"

lemma line_split: "c \<notin> set raw \<Longrightarrow> takeWhile (\<lambda>x. x \<noteq> c) (raw @ [c]) = raw \<and> dropWhile (\<lambda>x. x \<noteq> c) (raw @ [c]) = [c]"
  by (induction raw) auto

lemma demo_net_run:
  assumes "CHR 0x0A \<notin> set raw" "plain_login (command_of (parse_command (\<lambda>_. 0) raw))"
  shows "net_run demo_setting (create_tables True) (demo_net raw)"
proof -
  let ?s0 = "net_start (create_tables True)"
  let ?s1 = "set_conn 7 (new_connection Tcp) (?s0\<lparr>n_world := accept 7 start_world\<rparr>)"
  let ?s2 = "set_conn 7 (demo_conn raw) ?s1"
  have "unused 7 ?s0" by (simp add: unused_def net_start_def fresh_session_def start_world_def new_session_def)
  then have st1: "net_step demo_setting (Connect 7 Tcp) ?s0 = Some ?s1" by (simp add: net_step_def) (simp add: net_start_def)
  have st2: "net_step demo_setting (Receive 7 (raw @ [CHR 0x0A])) ?s1 = Some ?s2"
    by (simp add: net_step_def demo_conn_def) (simp add: set_conn_def net_start_def)
  have t: "conn_take (demo_conn raw) = Some (raw, new_connection Tcp)"
    using line_split [OF assms(1)] by (simp add: assms(1) conn_take_def demo_conn_def conn_receive_def new_connection_def)
  have st3: "net_step demo_setting (TakeInput 7 ''now'') ?s2 = Some (demo_net raw)"
    using t by (simp add: net_step_def with_conn_def demo_net_def) (simp add: set_conn_def net_start_def)
  have "plain_event demo_setting (TakeInput 7 ''now'') ?s2"
    using t assms(2) by (simp add: plain_event_def with_conn_def demo_setting_def) (simp add: set_conn_def)
  then show ?thesis
    by (intro net_run.step [OF _ _ st3] net_run.step [OF _ _ st2] net_run.step [OF _ _ st1] net_run.start) (simp_all add: plain_event_def)
qed

lemma handler_world: "n_up (run_handler S now h s) \<Longrightarrow> n_up s \<Longrightarrow>
    n_world (run_handler S now h s) = h (n_world s) \<and>
    n_conns (run_handler S now h s) p = map_option (posts (sent_texts (s_ftoa S) p (drop (length (outbox (n_world s))) (outbox (h (n_world s)))))) (n_conns s p)"
  by (auto simp: run_handler_def Let_def post_all_conns split: option.splits)

lemma demo_fields:
  "s_strtod demo_setting = (\<lambda>_. 0)" "s_ftoa demo_setting = (\<lambda>_. ''0.0'')" "s_srt demo_setting = (\<lambda>f xs. sort_key f xs)"
  "s_by_rating demo_setting = sort_key (\<lambda>r. - usr_rating r)" "s_start demo_setting = the initial_position"
  by (simp_all add: demo_setting_def)

definition demo_handled :: "string \<Rightarrow> world" where
  "demo_handled raw =
     handle_command (\<lambda>_ _. fst (login_answer demo_setting ''now'' (command_of (parse_command (\<lambda>_. 0) raw)) (create_tables True)))
      (get_top_players (sort_key (\<lambda>r. - usr_rating r)) 10 (create_tables True)) (\<lambda>f xs. sort_key f xs) (the initial_position) 7
      (command_of (parse_command (\<lambda>_. 0) raw)) (accept 7 start_world)"

lemma demo_net_state:
  assumes "CHR 0x0A \<notin> set raw" "plain_login (command_of (parse_command (\<lambda>_. 0) raw))"
  shows "n_world (demo_net raw) = demo_handled raw"
    "n_conns (demo_net raw) 7 = Some (posts (sent_texts (\<lambda>_. ''0.0'') 7 (outbox (demo_handled raw))) (new_connection Tcp))"
proof -
  have up: "n_up (demo_net raw)" using net_run_inv [OF demo_good demo_net_run [OF assms]] by (simp add: net_inv_def)
  have f: "n_world (net_start db) = start_world" "n_db (net_start db) = db" "n_up (net_start db)" for db
    by (simp_all add: net_start_def)
  have o: "outbox (accept 7 start_world) = []" by (simp add: accept_def start_world_def)
  let ?s = "(set_conn 7 (new_connection Tcp) (set_conn 7 (demo_conn raw)
      (set_conn 7 (new_connection Tcp) ((net_start (create_tables True))\<lparr>n_world := accept 7 start_world\<rparr>))))
      \<lparr>n_db := snd (login_answer demo_setting ''now'' (command_of (parse_command (\<lambda>_. 0) raw)) (create_tables True))\<rparr>"
  have n: "demo_net raw = run_handler demo_setting ''now''
      (\<lambda>w. demo_handled raw) ?s"
    by (simp add: demo_net_def take_input_eq run_handler_def receive_def login_of_def demo_handled_def f demo_fields)
  have w: "n_world (demo_net raw) = demo_handled raw \<and> n_conns (demo_net raw) 7 =
      map_option (posts (sent_texts (s_ftoa demo_setting) 7 (drop (length (outbox (n_world ?s))) (outbox (demo_handled raw))))) (n_conns ?s 7)"
    unfolding n by (rule handler_world) (use up n in \<open>simp_all add: f\<close>)
  then show "n_world (demo_net raw) = demo_handled raw" by simp
  show "n_conns (demo_net raw) 7 = Some (posts (sent_texts (\<lambda>_. ''0.0'') 7 (outbox (demo_handled raw))) (new_connection Tcp))"
    using w by (simp add: o demo_fields) (simp add: set_conn_def)
qed

definition demo_auth :: string where
  "demo_auth = ''{\"type\":\"auth\",\"nick\":\"ann\",\"password\":\"xy\"}''"

lemma demo_lines:
  "command_of (parse_command (\<lambda>_. 0) demo_auth) = Auth ''ann'' ''xy''" "CHR 0x0A \<notin> set demo_auth"
  "command_of (parse_command (\<lambda>_. 0) ''junk'') = Invalid" "CHR 0x0A \<notin> set ''junk''"
  by code_simp+

section \<open>Logging in\<close>

text \<open>
  C2: for a nickname that SQLite reads back, \<open>login_or_register\<close> is an operation on the accounts: an unknown
  nickname gets a new account with the next id and rating 1000, a known one is let in exactly when the
  hash of the password is the stored one, and nothing else of any account changes but the time of the login.
\<close>

theorem login_refines_accounts:
  assumes "connected db" "db_inv db" "sql_plain nick" "users_seq db + 1 < 2 ^ 31"
    and "login_or_register e hasher now nick password db = (answer, db')"
  shows "map_option info_of_row (fst (login_spec hasher now nick password (users_seq db + 1) (accounts db))) = answer \<and>
    accounts db' = snd (login_spec hasher now nick password (users_seq db + 1) (accounts db)) \<and> db_inv db'"
  using login_refines_spec [OF assms] db_inv_login_or_register [OF assms(2,3), of e hasher now password] assms(5) by simp

theorem login_refines_accounts_witness:
  "\<exists>db'. login_or_register demo_engine (\<lambda>s. of_nat (length s)) ''now'' ''ann'' ''xy'' (create_tables True) =
     (Some \<lparr>u_id = 1, u_nickname = ''ann'', u_rating = 1000, u_games_played = 0, u_games_won = 0, u_games_drawn = 0\<rparr>, db')"
proof -
  obtain a db' where l: "login_or_register demo_engine (\<lambda>s. of_nat (length s)) ''now'' ''ann'' ''xy'' (create_tables True) = (a, db')"
    by (metis surj_pair)
  have c: "connected (create_tables True)" "users_seq (create_tables True) + 1 < 2 ^ 31" "users (create_tables True) = []"
    "users_seq (create_tables True) = 0"
    by (simp_all add: create_tables_def)
  have "a = map_option info_of_row (fst (login_spec (\<lambda>s. of_nat (length s)) ''now'' ''ann'' ''xy'' 1 (accounts (create_tables True))))"
    using login_refines_accounts [OF c(1) db_inv_create_tables _ c(2) l] by (simp add: sql_plain_def c)
  then have "a = Some \<lparr>u_id = 1, u_nickname = ''ann'', u_rating = 1000, u_games_played = 0, u_games_won = 0, u_games_drawn = 0\<rparr>"
    by (simp add: login_spec_def accounts_def c info_of_row_def fresh_user_def column_int_small Let_def)
  then show ?thesis using l by blast
qed

section \<open>Runs\<close>


lemma junk_plain: "plain_login (command_of (parse_command (\<lambda>_. 0) ''junk''))"
  by (simp add: demo_lines plain_login_def)

lemma demo_junk:
  obtains t where "n_conns (demo_net ''junk'') 7 = Some (posts [t] (new_connection Tcp))"
    "sent_texts (\<lambda>_. ''0.0'') 7 (outbox (n_world (demo_net ''junk''))) = [t]"
proof -
  have w: "outbox (demo_handled ''junk'') = [(7, StatusError ''Invalid format'')]"
    by (simp add: demo_handled_def demo_lines handle_command_def send_def accept_def start_world_def)
  obtain t where t: "sent_texts (\<lambda>_. ''0.0'') 7 (outbox (demo_handled ''junk'')) = [t]"
    unfolding w by (simp add: sent_texts_def)
  show thesis
    by (rule that [of t]) (simp_all only: demo_net_state [OF demo_lines(4) junk_plain] t)
qed






section \<open>Delivery\<close>

text \<open>
  A run that never ends, in which the event loop runs what was posted for a session and the operating
  system completes its writes, each some time later and without an error.
\<close>

definition fair_run :: "setting \<Rightarrow> nat \<Rightarrow> (nat \<Rightarrow> event) \<Rightarrow> (nat \<Rightarrow> net) \<Rightarrow> bool" where
  "fair_run S p ev \<sigma> \<longleftrightarrow>
     (\<forall>i. plain_event S (ev i) (\<sigma> i) \<and> net_step S (ev i) (\<sigma> i) = Some (\<sigma> (Suc i))) \<and>
     (\<forall>i c. n_conns (\<sigma> i) p = Some c \<longrightarrow> c_posted c \<noteq> [] \<longrightarrow> (\<exists>j \<ge> i. ev j = RunPosted p)) \<and>
     (\<forall>i c. n_conns (\<sigma> i) p = Some c \<longrightarrow> c_writing c \<longrightarrow> (\<exists>j \<ge> i. ev j = WriteDone p)) \<and>
     (\<forall>i now. ev i \<noteq> WriteFailed p now)"

lemma fair_runs: "fair_run S p ev \<sigma> \<Longrightarrow> net_run S db (\<sigma> 0) \<Longrightarrow> net_run S db (\<sigma> i)"
  by (induction i) (auto simp: fair_run_def intro: net_run.step)

text \<open>The connection never goes away and never moves back.\<close>

lemma fair_conn:
  assumes "good_setting S db" "fair_run S p ev \<sigma>" "net_run S db (\<sigma> 0)" "n_conns (\<sigma> i) p = Some c" "i \<le> j"
  obtains c' ms where "n_conns (\<sigma> j) p = Some c'" "advances c c'" "c_failed c' = c_failed c"
    "outbox (n_world (\<sigma> j)) = outbox (n_world (\<sigma> i)) @ ms"
proof -
  have "\<exists>c' ms. n_conns (\<sigma> (i + k)) p = Some c' \<and> advances c c' \<and> c_failed c' = c_failed c \<and>
      outbox (n_world (\<sigma> (i + k))) = outbox (n_world (\<sigma> i)) @ ms" for k
  proof (induction k)
    case 0
    then show ?case using assms(4) by (auto simp: advances_def)
  next
    case (Suc k)
    then obtain d ms where d: "n_conns (\<sigma> (i + k)) p = Some d" "advances c d" "c_failed d = c_failed c"
      "outbox (n_world (\<sigma> (i + k))) = outbox (n_world (\<sigma> i)) @ ms" by blast
    have st: "net_step S (ev (i + k)) (\<sigma> (i + k)) = Some (\<sigma> (Suc (i + k)))" "\<forall>now. ev (i + k) \<noteq> WriteFailed p now"
      using assms(2) by (simp_all add: fair_run_def)
    have "conn_inv d"
      using net_run_inv [OF assms(1) fair_runs [OF assms(2,3)], of "i + k"] d(1) by (simp add: net_inv_def delivery_ok_def)
    then obtain d' where d': "n_conns (\<sigma> (Suc (i + k))) p = Some d'" "advances d d'" "c_failed d' = c_failed d"
      using conn_step [OF st(1) d(1)] st(2) by metis
    obtain ms' where "outbox (n_world (\<sigma> (Suc (i + k)))) = outbox (n_world (\<sigma> (i + k))) @ ms'"
      using step_outbox [OF st(1)] by blast
    then show ?case using d d' by (auto simp: advances_def intro: le_trans)
  qed
  from this [of "j - i"] show thesis using that assms(5) by auto
qed

lemma fair_inv:
  assumes "good_setting S db" "fair_run S p ev \<sigma>" "net_run S db (\<sigma> 0)" "n_conns (\<sigma> i) p = Some c"
  shows "conn_inv c" "c_delivered c @ conn_content c = sent_texts (s_ftoa S) p (outbox (n_world (\<sigma> i)))"
  using net_run_inv [OF assms(1) fair_runs [OF assms(2,3)], of i] assms(4) by (simp_all add: net_inv_def delivery_ok_def)

text \<open>
  One round of a stage: as long as \<open>cnt\<close> has not passed \<open>k\<close>, some later step adds one to it.
\<close>

lemma stage_passes:
  assumes "good_setting S db" "fair_run S p ev \<sigma>" "net_run S db (\<sigma> 0)" "n_conns (\<sigma> i) p = Some c" "Q i"
    and round: "\<And>i c. n_conns (\<sigma> i) p = Some c \<Longrightarrow> Q i \<Longrightarrow> cnt c \<le> k \<Longrightarrow> \<exists>j \<ge> i. ev j = e"
    and adds: "\<And>j d d'. ev j = e \<Longrightarrow> n_conns (\<sigma> j) p = Some d \<Longrightarrow> n_conns (\<sigma> (Suc j)) p = Some d' \<Longrightarrow> cnt d' = Suc (cnt d)"
    and mono: "\<And>d d'. advances d d' \<Longrightarrow> cnt d \<le> cnt d'"
    and keeps: "\<And>i j. Q i \<Longrightarrow> i \<le> j \<Longrightarrow> Q j"
  shows "\<exists>j \<ge> i. \<exists>c'. n_conns (\<sigma> j) p = Some c' \<and> k < cnt c'"
  using assms(4,5)
proof (induction "Suc k - cnt c" arbitrary: i c rule: less_induct)
  case less
  show ?case
  proof (cases "k < cnt c")
    case True
    then show ?thesis using less.prems(1) by blast
  next
    case False
    then obtain j where j: "i \<le> j" "ev j = e" using round [OF less.prems] by auto
    obtain d where d: "n_conns (\<sigma> j) p = Some d" "advances c d" using fair_conn [OF assms(1-3) less.prems(1) j(1)] by metis
    obtain d' where d': "n_conns (\<sigma> (Suc j)) p = Some d'"
      using fair_conn [OF assms(1-3) d(1), of "Suc j"] by (metis le_SucI order_refl)
    have "cnt d' = Suc (cnt d)" "cnt c \<le> cnt d" using adds [OF j(2) d(1) d'] mono [OF d(2)] by simp_all
    then have "Suc k - cnt d' < Suc k - cnt c" using False by simp
    from less.hyps [OF this d' keeps [OF less.prems(2)]] j(1)
    obtain j' c' where "Suc j \<le> j'" "n_conns (\<sigma> j') p = Some c'" "k < cnt c'" by (meson le_SucI)
    then show ?thesis using j(1) by (intro exI [of _ j']) auto
  qed
qed

lemma eventually_queued:
  assumes "good_setting S db" "fair_run S p ev \<sigma>" "net_run S db (\<sigma> 0)" "n_conns (\<sigma> i) p = Some c"
    and "k < length (sent_texts (s_ftoa S) p (outbox (n_world (\<sigma> i))))"
  shows "\<exists>j \<ge> i. \<exists>c'. n_conns (\<sigma> j) p = Some c' \<and> k < queued_count c'"
proof (rule stage_passes [where e = "RunPosted p" and Q = "\<lambda>i. \<exists>c. n_conns (\<sigma> i) p = Some c \<and>
    k < length (sent_texts (s_ftoa S) p (outbox (n_world (\<sigma> i))))", OF assms(1-4)])
  show "\<exists>c. n_conns (\<sigma> i) p = Some c \<and> k < length (sent_texts (s_ftoa S) p (outbox (n_world (\<sigma> i))))"
    using assms(4,5) by blast
next
  fix i c assume c: "n_conns (\<sigma> i) p = Some c" "queued_count c \<le> k"
    and "\<exists>c. n_conns (\<sigma> i) p = Some c \<and> k < length (sent_texts (s_ftoa S) p (outbox (n_world (\<sigma> i))))"
  then have k: "k < length (sent_texts (s_ftoa S) p (outbox (n_world (\<sigma> i))))" by blast
  have "c_posted c \<noteq> []"
    using k c(2) unfolding fair_inv(2) [OF assms(1-3) c(1), symmetric] by (auto simp: queued_count_def conn_content_def)
  then show "\<exists>j \<ge> i. ev j = RunPosted p" using assms(2) c(1) unfolding fair_run_def by blast
next
  fix j d d' assume e: "ev j = RunPosted p" "n_conns (\<sigma> j) p = Some d" "n_conns (\<sigma> (Suc j)) p = Some d'"
  have st: "net_step S (ev j) (\<sigma> j) = Some (\<sigma> (Suc j))" using assms(2) by (simp add: fair_run_def)
  show "queued_count d' = Suc (queued_count d)"
    using conn_step [OF st e(2) fair_inv(1) [OF assms(1-3) e(2)]] e(1,3) by (metis option.inject)
next
  fix i j assume "\<exists>c. n_conns (\<sigma> i) p = Some c \<and> k < length (sent_texts (s_ftoa S) p (outbox (n_world (\<sigma> i))))" "i \<le> j"
  then obtain c where c: "n_conns (\<sigma> i) p = Some c" "k < length (sent_texts (s_ftoa S) p (outbox (n_world (\<sigma> i))))" by blast
  obtain c' ms where c': "n_conns (\<sigma> j) p = Some c'" "outbox (n_world (\<sigma> j)) = outbox (n_world (\<sigma> i)) @ ms"
    using fair_conn [OF assms(1-3) c(1) \<open>i \<le> j\<close>] by metis
  then show "\<exists>c. n_conns (\<sigma> j) p = Some c \<and> k < length (sent_texts (s_ftoa S) p (outbox (n_world (\<sigma> j))))" using c(2) by simp
qed (simp add: advances_def)

lemma eventually_written:
  assumes "good_setting S db" "fair_run S p ev \<sigma>" "net_run S db (\<sigma> 0)" "n_conns (\<sigma> i) p = Some c"
    and "\<not> c_failed c" "k < queued_count c"
  shows "\<exists>j \<ge> i. \<exists>c'. n_conns (\<sigma> j) p = Some c' \<and> k < delivered_count c'"
proof (rule stage_passes [where e = "WriteDone p" and Q = "\<lambda>i. \<exists>c. n_conns (\<sigma> i) p = Some c \<and> \<not> c_failed c \<and>
    k < queued_count c", OF assms(1-4)])
  show "\<exists>c. n_conns (\<sigma> i) p = Some c \<and> \<not> c_failed c \<and> k < queued_count c" using assms(4-6) by blast
next
  fix i c assume c: "n_conns (\<sigma> i) p = Some c" "delivered_count c \<le> k"
    and "\<exists>c. n_conns (\<sigma> i) p = Some c \<and> \<not> c_failed c \<and> k < queued_count c"
  then have k: "\<not> c_failed c" "k < queued_count c" by auto
  then have "c_outbox c \<noteq> []" using c(2) by (auto simp: queued_count_def delivered_count_def)
  then have "c_writing c" using fair_inv(1) [OF assms(1-3) c(1)] k(1) by (simp add: conn_inv_def)
  then show "\<exists>j \<ge> i. ev j = WriteDone p" using assms(2) c(1) unfolding fair_run_def by blast
next
  fix j d d' assume e: "ev j = WriteDone p" "n_conns (\<sigma> j) p = Some d" "n_conns (\<sigma> (Suc j)) p = Some d'"
  have st: "net_step S (ev j) (\<sigma> j) = Some (\<sigma> (Suc j))" using assms(2) by (simp add: fair_run_def)
  show "delivered_count d' = Suc (delivered_count d)"
    using conn_step [OF st e(2) fair_inv(1) [OF assms(1-3) e(2)]] e(1,3) by (metis option.inject)
next
  fix i j assume "\<exists>c. n_conns (\<sigma> i) p = Some c \<and> \<not> c_failed c \<and> k < queued_count c" "i \<le> j"
  then obtain c where c: "n_conns (\<sigma> i) p = Some c" "\<not> c_failed c" "k < queued_count c" by blast
  obtain c' where c': "n_conns (\<sigma> j) p = Some c'" "advances c c'" "c_failed c' = c_failed c"
    using fair_conn [OF assms(1-3) c(1) \<open>i \<le> j\<close>] by metis
  then show "\<exists>c. n_conns (\<sigma> j) p = Some c \<and> \<not> c_failed c \<and> k < queued_count c"
    using c(2,3) by (intro exI [of _ c']) (simp add: advances_def)
qed (simp add: advances_def)

text \<open>
  C7: in every such run each message that a handler sent to a connection is delivered some time later,
  as the text that \<open>send\<close> wrote for it and in its place, whatever else happens meanwhile.
\<close>

theorem messages_arrive:
  assumes "good_setting S db" "net_run S db (\<sigma> 0)" "fair_run S p ev \<sigma>"
    and "n_conns (\<sigma> i) p = Some c" "\<not> c_failed c" "k < length (sent_texts (s_ftoa S) p (outbox (n_world (\<sigma> i))))"
  shows "\<exists>j \<ge> i. \<exists>c'. n_conns (\<sigma> j) p = Some c' \<and> k < length (c_delivered c') \<and>
    c_delivered c' ! k = sent_texts (s_ftoa S) p (outbox (n_world (\<sigma> i))) ! k"
proof -
  obtain j c1 where j: "i \<le> j" "n_conns (\<sigma> j) p = Some c1" "k < queued_count c1"
    using eventually_queued [OF assms(1,3,2,4,6)] by blast
  have "\<not> c_failed c1" using fair_conn [OF assms(1,3,2,4) j(1)] j(2) assms(5) by (metis option.inject)
  then obtain j' c2 where j': "j \<le> j'" "n_conns (\<sigma> j') p = Some c2" "k < delivered_count c2"
    using eventually_written [OF assms(1,3,2) j(2) _ j(3)] by blast
  obtain ms where ms: "outbox (n_world (\<sigma> j')) = outbox (n_world (\<sigma> i)) @ ms"
    using fair_conn [OF assms(1,3,2,4), of j'] j(1) j'(1) by (metis le_trans)
  have "c_delivered c2 @ conn_content c2 = sent_texts (s_ftoa S) p (outbox (n_world (\<sigma> i))) @ sent_texts (s_ftoa S) p ms"
    using fair_inv(2) [OF assms(1,3,2) j'(2)] ms by simp
  then have "c_delivered c2 ! k = sent_texts (s_ftoa S) p (outbox (n_world (\<sigma> i))) ! k"
    using assms(6) j'(3) by (metis delivered_count_def nth_append)
  then show ?thesis using j(1) j' by (intro exI [of _ j']) (auto simp: delivered_count_def)
qed

text \<open>The refused line of the witness is answered, and then nothing happens any more.\<close>

definition demo_events :: "nat \<Rightarrow> event" where
  "demo_events i = (if i = 0 then RunPosted 7 else if i = 1 then WriteDone 7 else Receive 7 [])"

primrec demo_states :: "nat \<Rightarrow> net" where
  "demo_states 0 = demo_net ''junk''"
| "demo_states (Suc i) = the (net_step demo_setting (demo_events i) (demo_states i))"

lemma demo_fair: "fair_run demo_setting 7 demo_events demo_states"
proof -
  obtain t where c0: "n_conns (demo_net ''junk'') 7 = Some (posts [t] (new_connection Tcp))" using demo_junk by blast
  have up: "n_up (demo_net ''junk'')"
    using net_run_inv [OF demo_good demo_net_run [OF demo_lines(4) junk_plain]] by (simp add: net_inv_def)
  let ?c1 = "(new_connection Tcp)\<lparr>c_outbox := [t], c_writing := True\<rparr>"
  let ?c2 = "(new_connection Tcp)\<lparr>c_delivered := [t]\<rparr>"
  have st0: "net_step demo_setting (demo_events 0) (demo_states 0) = Some (set_conn 7 ?c1 (demo_net ''junk''))"
    using up c0 by (simp add: net_step_def demo_events_def with_conn_def posts_def new_connection_def conn_run_posted_def do_write_def Let_def)
  then have s1: "demo_states 1 = set_conn 7 ?c1 (demo_net ''junk'')" by simp
  have st1: "net_step demo_setting (demo_events 1) (demo_states 1) = Some (set_conn 7 ?c2 (demo_net ''junk''))"
    unfolding s1 using up
    by (simp add: net_step_def demo_events_def with_conn_def set_conn_def new_connection_def conn_write_done_def Let_def)
  have later: "demo_states (Suc (Suc i)) = set_conn 7 ?c2 (demo_net ''junk'')" for i
  proof (induction i)
    case 0
    then show ?case using st1 by simp
  next
    case (Suc i)
    have "net_step demo_setting (demo_events (Suc (Suc i))) (demo_states (Suc (Suc i))) = Some (set_conn 7 ?c2 (demo_net ''junk''))"
      unfolding Suc using up
      by (simp add: net_step_def demo_events_def set_conn_def new_connection_def conn_receive_def)
    then show ?case by simp
  qed
  have steps: "net_step demo_setting (demo_events i) (demo_states i) = Some (demo_states (Suc i))" for i
  proof (cases i)
    case (Suc k)
    show ?thesis
    proof (cases k)
      case 0
      then show ?thesis using st1 Suc by simp
    next
      case (Suc m)
      have "net_step demo_setting (demo_events (Suc (Suc m))) (demo_states (Suc (Suc m))) = Some (set_conn 7 ?c2 (demo_net ''junk''))"
        unfolding later using up
        by (simp add: net_step_def demo_events_def set_conn_def new_connection_def conn_receive_def)
      then show ?thesis using \<open>i = Suc k\<close> Suc by simp
    qed
  qed (use st0 in simp)
  have conns: "n_conns (demo_states i) 7 = Some (if i = 0 then posts [t] (new_connection Tcp) else if i = 1 then ?c1 else ?c2)" for i
  proof (cases i)
    case (Suc k)
    then show ?thesis using s1 later [of "k - 1"] by (cases k) (simp_all add: set_conn_def)
  qed (simp add: c0)
  show ?thesis unfolding fair_run_def
  proof (intro conjI allI impI)
    fix i show "plain_event demo_setting (demo_events i) (demo_states i)" by (simp add: plain_event_def demo_events_def)
    show "net_step demo_setting (demo_events i) (demo_states i) = Some (demo_states (Suc i))" by (rule steps)
    show "demo_events i \<noteq> WriteFailed 7 now" for now by (simp add: demo_events_def)
  next
    fix i c assume "n_conns (demo_states i) 7 = Some c" "c_posted c \<noteq> []"
    then have "i = 0" by (auto simp: conns new_connection_def split: if_splits)
    then show "\<exists>j \<ge> i. demo_events j = RunPosted 7" by (auto simp: demo_events_def)
  next
    fix i c assume "n_conns (demo_states i) 7 = Some c" "c_writing c"
    then have "i = 1" by (auto simp: conns new_connection_def posts_def split: if_splits)
    then show "\<exists>j \<ge> i. demo_events j = WriteDone 7" by (auto simp: demo_events_def intro!: exI [of _ 1])
  qed
qed

theorem messages_arrive_witness:
  "\<exists>j c'. n_conns (demo_states j) 7 = Some c' \<and>
    c_delivered c' ! 0 = sent_texts (\<lambda>_. ''0.0'') 7 (outbox (n_world (demo_net ''junk''))) ! 0"
proof -
  obtain t where t: "n_conns (demo_net ''junk'') 7 = Some (posts [t] (new_connection Tcp))"
    "sent_texts (\<lambda>_. ''0.0'') 7 (outbox (n_world (demo_net ''junk''))) = [t]" by (rule demo_junk)
  have r: "net_run demo_setting (create_tables True) (demo_states 0)" using demo_net_run [OF demo_lines(4) junk_plain] by simp
  have "\<exists>j \<ge> 0. \<exists>c'. n_conns (demo_states j) 7 = Some c' \<and> 0 < length (c_delivered c') \<and>
      c_delivered c' ! 0 = sent_texts (s_ftoa demo_setting) 7 (outbox (n_world (demo_states 0))) ! 0"
    by (rule messages_arrive [OF demo_good r demo_fair, of 0 "posts [t] (new_connection Tcp)"])
      (simp_all add: t demo_fields, simp add: posts_def new_connection_def)
  then show ?thesis by (auto simp: demo_fields)
qed

end
