(* ===== verification/WordBits.thy ===== *)
theory WordBits
  imports Prelude
begin

text \<open>
  Equations between words of a fixed width are decided bit by bit: the rules split them into one
  equation per bit, which the simplifier settles with \<open>bit_simps\<close>.
\<close>

lemma upt8: "[0..<8] = ([0,1,2,3,4,5,6,7] :: nat list)"
  by code_simp

lemma bits8:
  fixes a b :: "8 word"
  assumes "list_all (\<lambda>n. bit a n = bit b n) [0,1,2,3,4,5,6,7]"
  shows "a = b"
proof (rule bit_word_eqI)
  fix n :: nat assume "n < LENGTH(8)"
  then have "n \<in> set [0..<8]" by simp
  then show "bit a n = bit b n" using assms unfolding upt8 list_all_iff by blast
qed

lemma upt16: "[0..<16] = ([0,1,2,3,4,5,6,7,8,9,10,11,12,13,14,15] :: nat list)"
  by code_simp

lemma bits16:
  fixes a b :: "16 word"
  assumes "list_all (\<lambda>n. bit a n = bit b n) [0,1,2,3,4,5,6,7,8,9,10,11,12,13,14,15]"
  shows "a = b"
proof (rule bit_word_eqI)
  fix n :: nat assume "n < LENGTH(16)"
  then have "n \<in> set [0..<16]" by simp
  then show "bit a n = bit b n" using assms unfolding upt16 list_all_iff by blast
qed

lemma upt32: "[0..<32] = ([0,1,2,3,4,5,6,7,8,9,10,11,12,13,14,15,16,17,18,19,20,21,22,23,24,25,26,27,28,29,30,31] :: nat list)"
  by code_simp

lemma bits32:
  fixes a b :: "32 word"
  assumes "list_all (\<lambda>n. bit a n = bit b n) [0,1,2,3,4,5,6,7,8,9,10,11,12,13,14,15,16,17,18,19,20,21,22,23,24,25,26,27,28,29,30,31]"
  shows "a = b"
proof (rule bit_word_eqI)
  fix n :: nat assume "n < LENGTH(32)"
  then have "n \<in> set [0..<32]" by simp
  then show "bit a n = bit b n" using assms unfolding upt32 list_all_iff by blast
qed

lemma upt64: "[0..<64] = ([0,1,2,3,4,5,6,7,8,9,10,11,12,13,14,15,16,17,18,19,20,21,22,23,24,25,26,27,28,29,30,31,32,33,34,35,36,37,38,39,40,41,42,43,44,45,46,47,48,49,50,51,52,53,54,55,56,57,58,59,60,61,62,63] :: nat list)"
  by code_simp

lemma bits64:
  fixes a b :: "64 word"
  assumes "list_all (\<lambda>n. bit a n = bit b n) [0,1,2,3,4,5,6,7,8,9,10,11,12,13,14,15,16,17,18,19,20,21,22,23,24,25,26,27,28,29,30,31,32,33,34,35,36,37,38,39,40,41,42,43,44,45,46,47,48,49,50,51,52,53,54,55,56,57,58,59,60,61,62,63]"
  shows "a = b"
proof (rule bit_word_eqI)
  fix n :: nat assume "n < LENGTH(64)"
  then have "n \<in> set [0..<64]" by simp
  then show "bit a n = bit b n" using assms unfolding upt64 list_all_iff by blast
qed

lemma bit_u8_high: "8 \<le> n \<Longrightarrow> \<not> bit (x :: u8) n"
  by (auto dest: bit_word_less)

lemma bit_u32_high: "32 \<le> n \<Longrightarrow> \<not> bit (x :: u32) n"
  by (auto dest: bit_word_less)

lemma bit_u64_high: "64 \<le> n \<Longrightarrow> \<not> bit (x :: u64) n"
  by (auto dest: bit_word_less)

text \<open>The bits of a word above a shift that clears it.\<close>

lemma drop_bit_0_bit: "drop_bit k (w :: 'a::len word) = 0 \<Longrightarrow> k \<le> n \<Longrightarrow> \<not> bit w n"
  by (metis bit_0 bit_drop_bit_eq comp_apply le_add_diff_inverse bit_word_0)

lemma drop_bit_0_unat: "drop_bit k v = 0 \<longleftrightarrow> unat v < 2 ^ k" for v :: "'a::len word"
proof -
  have "drop_bit k v = 0 \<longleftrightarrow> unat (drop_bit k v) = 0" by (rule unat_eq_0 [symmetric])
  also have "\<dots> \<longleftrightarrow> unat v div 2 ^ k = 0" by (simp only: unat_drop_bit_eq) (simp only: drop_bit_eq_div)
  finally show ?thesis by (simp add: div_eq_0_iff)
qed

end
