(* ===== verification/SqlVarint.thy ===== *)
theory SqlVarint
  imports WordBits
begin

text \<open>
  Variable-length integers and big-endian fields of the SQLite file format
  (\<^verbatim>\<open>sqlite/sqlite3.c\<close>, section \<^verbatim>\<open>util.c\<close>): \<open>sqlite3PutVarint\<close>, \<open>sqlite3GetVarint\<close>,
  \<open>sqlite3GetVarint32\<close>, \<open>sqlite3VarintLen\<close>, \<open>sqlite3Get4byte\<close> and \<open>sqlite3Put4byte\<close>. Memory
  that is read is a function from offsets to bytes; a writer returns the bytes it writes, whose
  number is the value it returns. The reader works on two 32-bit accumulators as in the source;
  the lemmas give it a reference decoder and prove the round trip.
\<close>

type_synonym mem = "nat \<Rightarrow> u8"

abbreviation w32 :: "u8 \<Rightarrow> u32" where "w32 b \<equiv> ucast b"

section \<open>Writing\<close>

text \<open>The loop from \<open>p[7]\<close> down to \<open>p[0]\<close> of the nine-byte form.\<close>

fun put_high :: "nat \<Rightarrow> u64 \<Rightarrow> u8 list \<Rightarrow> u8 list" where
  "put_high 0 v p = p"
| "put_high (Suc i) v p = put_high i (drop_bit 7 v) (ucast ((v AND 0x7f) OR 0x80) # p)"

lemma drop_bit_7_less: "v \<noteq> 0 \<Longrightarrow> unat (drop_bit 7 v) < unat v" for v :: u64
proof -
  assume "v \<noteq> 0"
  then have "0 < unat v" by (simp add: unat_gt_0)
  moreover have "unat (drop_bit 7 v) = unat v div 128" by (simp add: drop_bit_eq_div unat_div_distrib)
  ultimately show ?thesis by simp
qed

text \<open>The \<^verbatim>\<open>do ... while\<close> that fills \<open>buf\<close> with the groups, least significant first.\<close>

function buf_loop :: "u64 \<Rightarrow> u8 list \<Rightarrow> u8 list" where
  "buf_loop v buf =
     (let buf' = buf @ [ucast ((v AND 0x7f) OR 0x80)]; v' = drop_bit 7 v
      in if v' \<noteq> 0 then buf_loop v' buf' else buf')"
  by pat_completeness auto

termination
proof (relation "measure (\<lambda>(v, buf). unat v)")
  fix v :: u64 and buf :: "u8 list" and x xa
  assume "x = buf @ [ucast (v AND 0x7f OR 0x80)]" and "xa = drop_bit 7 v" "xa \<noteq> 0"
  then have "v \<noteq> 0" by auto
  then show "((xa, x), (v, buf)) \<in> measure (\<lambda>(v, buf). unat v)"
    using \<open>xa = drop_bit 7 v\<close> drop_bit_7_less by simp
qed simp

declare buf_loop.simps [simp del]

definition putVarint64 :: "u64 \<Rightarrow> u8 list" where
  "putVarint64 v =
     (if v AND push_bit 32 0xff000000 \<noteq> 0 then put_high 8 (drop_bit 8 v) [ucast v]
      else let buf = buf_loop v [] in rev (buf[0 := (buf ! 0) AND 0x7f]))"

definition PutVarint :: "u64 \<Rightarrow> u8 list" where
  "PutVarint v =
     (if v \<le> 0x7f then [ucast (v AND 0x7f)]
      else if v \<le> 0x3fff then [ucast ((drop_bit 7 v AND 0x7f) OR 0x80), ucast (v AND 0x7f)]
      else putVarint64 v)"

function VarintLen_loop :: "nat \<Rightarrow> u64 \<Rightarrow> nat" where
  "VarintLen_loop i v = (let v' = drop_bit 7 v in if v' \<noteq> 0 then VarintLen_loop (i + 1) v' else i)"
  by pat_completeness auto

termination
proof (relation "measure (\<lambda>(i, v). unat v)")
  fix i :: nat and v x :: u64
  assume "x = drop_bit 7 v" "x \<noteq> 0"
  then have "v \<noteq> 0" by auto
  then show "((i + 1, x), (i, v)) \<in> measure (\<lambda>(i, v). unat v)" using \<open>x = drop_bit 7 v\<close> drop_bit_7_less by simp
qed simp

declare VarintLen_loop.simps [simp del]

definition VarintLen :: "u64 \<Rightarrow> nat" where
  "VarintLen v = VarintLen_loop 1 v"

definition Put4byte :: "u32 \<Rightarrow> u8 list" where
  "Put4byte v = [ucast (drop_bit 24 v), ucast (drop_bit 16 v), ucast (drop_bit 8 v), ucast v]"

section \<open>Reading\<close>

definition SLOT_2_0 :: u32 where "SLOT_2_0 = 0x001fc07f"
definition SLOT_4_2_0 :: u32 where "SLOT_4_2_0 = 0xf01fc07f"

definition GetVarint :: "mem \<Rightarrow> nat \<times> u64" where
  "GetVarint p =
     (if \<not> bit (p 0) 7 then (1, ucast (p 0))
      else if \<not> bit (p 1) 7 then (2, ucast (push_bit 7 (w32 (p 0 AND 0x7f)) OR w32 (p 1)))
      else
        let a = push_bit 14 (w32 (p 0)); b = w32 (p 1); a = a OR w32 (p 2) in
        if a AND 0x80 = 0 then
          (let a = a AND SLOT_2_0; b = b AND 0x7f; b = push_bit 7 b; a = a OR b in (3, ucast a))
        else
        let a = a AND SLOT_2_0; b = push_bit 14 b; b = b OR w32 (p 3) in
        if b AND 0x80 = 0 then
          (let b = b AND SLOT_2_0; a = push_bit 7 a; a = a OR b in (4, ucast a))
        else
        let b = b AND SLOT_2_0; s = a; a = push_bit 14 a; a = a OR w32 (p 4) in
        if a AND 0x80 = 0 then
          (let b = push_bit 7 b; a = a OR b; s = drop_bit 18 s in (5, push_bit 32 (ucast s) OR ucast a))
        else
        let s = push_bit 7 s; s = s OR b; b = push_bit 14 b; b = b OR w32 (p 5) in
        if b AND 0x80 = 0 then
          (let a = a AND SLOT_2_0; a = push_bit 7 a; a = a OR b; s = drop_bit 18 s
           in (6, push_bit 32 (ucast s) OR ucast a))
        else
        let a = push_bit 14 a; a = a OR w32 (p 6) in
        if a AND 0x80 = 0 then
          (let a = a AND SLOT_4_2_0; b = b AND SLOT_2_0; b = push_bit 7 b; a = a OR b; s = drop_bit 11 s
           in (7, push_bit 32 (ucast s) OR ucast a))
        else
        let a = a AND SLOT_2_0; b = push_bit 14 b; b = b OR w32 (p 7) in
        if b AND 0x80 = 0 then
          (let b = b AND SLOT_4_2_0; a = push_bit 7 a; a = a OR b; s = drop_bit 4 s
           in (8, push_bit 32 (ucast s) OR ucast a))
        else
        let a = push_bit 15 a; a = a OR w32 (p 8); b = b AND SLOT_2_0; b = push_bit 8 b; a = a OR b;
            s = push_bit 4 s; b = w32 (p 4); b = b AND 0x7f; b = drop_bit 3 b; s = s OR b
        in (9, push_bit 32 (ucast s) OR ucast a))"

text \<open>Only called when the first byte has its high bit set, as the macro \<open>getVarint32\<close> sees to.\<close>

definition GetVarint32 :: "mem \<Rightarrow> nat \<times> u32" where
  "GetVarint32 p =
     (if p 1 AND 0x80 = 0 then (2, push_bit 7 (w32 (p 0) AND 0x7f) OR w32 (p 1))
      else if p 2 AND 0x80 = 0
      then (3, push_bit 14 (w32 (p 0) AND 0x7f) OR push_bit 7 (w32 (p 1) AND 0x7f) OR w32 (p 2))
      else case GetVarint p of
             (n, v64) \<Rightarrow> if v64 AND 0xffffffff \<noteq> v64 then (n, 0xffffffff) else (n, ucast v64))"

definition Get4byte :: "mem \<Rightarrow> u32" where
  "Get4byte p = push_bit 24 (w32 (p 0)) OR push_bit 16 (w32 (p 1)) OR push_bit 8 (w32 (p 2)) OR w32 (p 3)"

section \<open>The reference decoder\<close>

text \<open>
  Seven bits of each byte that has its high bit set and of the first that has not; the ninth byte
  gives all of its eight bits.
\<close>

fun groups :: "mem \<Rightarrow> nat \<Rightarrow> u64" where
  "groups p 0 = 0"
| "groups p (Suc k) = push_bit 7 (groups p k) OR (ucast (p k) AND 0x7f)"

fun varint_scan :: "nat \<Rightarrow> mem \<Rightarrow> nat \<Rightarrow> nat \<times> u64" where
  "varint_scan 0 p i = (9, push_bit 8 (groups p 8) OR ucast (p 8))"
| "varint_scan (Suc k) p i = (if \<not> bit (p i) 7 then (Suc i, groups p (Suc i)) else varint_scan k p (Suc i))"

definition varint_spec :: "mem \<Rightarrow> nat \<times> u64" where
  "varint_spec p = varint_scan 8 p 0"

lemma bit_0x80: "bit (0x80 :: u32) n \<longleftrightarrow> n = 7"
proof -
  have e: "(0x80 :: u32) = push_bit 7 1" by simp
  have "bit (push_bit 7 1 :: u32) n \<longleftrightarrow> n = 7" by (subst bit_push_bit_iff) (auto simp only: bit_1_iff, auto)
  then show ?thesis by (simp only: e)
qed

lemma and_0x80: "w AND 0x80 = 0 \<longleftrightarrow> \<not> bit w 7" for w :: u32
  unfolding word_eq_0_bits bit_and_iff bit_0x80 by auto

lemma cond14: "bit (push_bit 14 u OR w32 y) 7 = bit y 7" "bit (push_bit 14 (u AND v) OR w32 y) 7 = bit y 7"
  by (simp_all add: bit_simps)

lemma groups_simps: "groups p 1 = ucast (p 0) AND 0x7f" "groups p 2 = push_bit 7 (groups p 1) OR (ucast (p 1) AND 0x7f)"
 "groups p 3 = push_bit 7 (groups p 2) OR (ucast (p 2) AND 0x7f)"
 "groups p 4 = push_bit 7 (groups p 3) OR (ucast (p 3) AND 0x7f)"
 "groups p 5 = push_bit 7 (groups p 4) OR (ucast (p 4) AND 0x7f)"
 "groups p 6 = push_bit 7 (groups p 5) OR (ucast (p 5) AND 0x7f)"
 "groups p 7 = push_bit 7 (groups p 6) OR (ucast (p 6) AND 0x7f)"
 "groups p 8 = push_bit 7 (groups p 7) OR (ucast (p 7) AND 0x7f)"
  by (simp_all add: eval_nat_numeral)

lemma varint_spec_eq:
  "varint_spec p =
    (if \<not> bit (p 0) 7 then (1, groups p 1) else if \<not> bit (p 1) 7 then (2, groups p 2)
     else if \<not> bit (p 2) 7 then (3, groups p 3) else if \<not> bit (p 3) 7 then (4, groups p 4)
     else if \<not> bit (p 4) 7 then (5, groups p 5) else if \<not> bit (p 5) 7 then (6, groups p 6)
     else if \<not> bit (p 6) 7 then (7, groups p 7) else if \<not> bit (p 7) 7 then (8, groups p 8)
     else (9, push_bit 8 (groups p 8) OR ucast (p 8)))"
  by (simp add: varint_spec_def eval_nat_numeral)


lemmas groups_bits = groups_simps bit_simps bit_u8_high SLOT_2_0_def SLOT_4_2_0_def

lemma GetVarint_spec: "GetVarint p = varint_spec p"
  unfolding varint_spec_eq GetVarint_def Let_def and_0x80 cond14
  apply (intro if_cong [OF refl])
  apply (simp_all only: prod.inject simp_thms)
  apply (rule bits64, simp add: groups_bits; fail)+
  done

section \<open>The round trip\<close>

text \<open>The memory that starts with the given bytes.\<close>

definition at_bytes :: "u8 list \<Rightarrow> mem \<Rightarrow> mem" where
  "at_bytes bs rest = (\<lambda>i. if i < length bs then bs ! i else rest (i - length bs))"

text \<open>The form with fewer than nine bytes: \<open>n\<close> groups, the most significant first.\<close>

definition group_bytes :: "nat \<Rightarrow> u64 \<Rightarrow> u8 list" where
  "group_bytes n v = map (\<lambda>i. ucast (drop_bit (7 * (n - 1 - i)) v AND 0x7f OR (if i < n - 1 then 0x80 else 0))) [0..<n]"

lemma VarintLen_loop_add: "VarintLen_loop (Suc i) v = Suc (VarintLen_loop i v)"
proof (induction i v rule: VarintLen_loop.induct)
  case (1 i v)
  then show ?case by (subst (1 2) VarintLen_loop.simps) (simp add: Let_def)
qed

lemma VarintLen_rec: "VarintLen v = (if drop_bit 7 v = 0 then 1 else Suc (VarintLen (drop_bit 7 v)))"
  unfolding VarintLen_def by (subst VarintLen_loop.simps) (simp add: Let_def VarintLen_loop_add)

lemma VarintLen_induct:
  assumes "\<And>v. (drop_bit 7 v \<noteq> 0 \<Longrightarrow> P (drop_bit 7 v)) \<Longrightarrow> P v"
  shows "P (v :: u64)"
  by (induction v rule: measure_induct_rule [of unat]) (metis assms drop_bit_7_less drop_bit_of_0)

lemma drop_bit_VarintLen: "drop_bit (7 * VarintLen v) v = 0"
  by (induction v rule: VarintLen_induct) (subst VarintLen_rec, auto simp: drop_bit_drop_bit ac_simps)

lemma VarintLen_le: "drop_bit (7 * Suc k) v = 0 \<Longrightarrow> VarintLen v \<le> Suc k"
proof (induction k arbitrary: v)
  case 0
  then show ?case by (subst VarintLen_rec) simp
next
  case (Suc k)
  have "drop_bit (7 * Suc k) (drop_bit 7 v) = 0" using Suc.prems by (simp add: drop_bit_drop_bit ac_simps)
  then show ?case using Suc.IH [of "drop_bit 7 v"] by (subst VarintLen_rec) simp
qed

lemma VarintLen_pos: "1 \<le> VarintLen v"
  by (subst VarintLen_rec) simp

lemma buf_loop_groups:
  "buf_loop v buf = buf @ map (\<lambda>i. ucast (drop_bit (7 * i) v AND 0x7f OR 0x80)) [0..<VarintLen v]"
proof (induction v arbitrary: buf rule: VarintLen_induct)
  case (1 v)
  let ?c = "\<lambda>v. ucast (v AND 0x7f OR 0x80) :: u8"
  show ?case
  proof (cases "drop_bit 7 v = 0")
    case True
    then show ?thesis by (subst buf_loop.simps, subst VarintLen_rec) (simp add: Let_def)
  next
    case False
    have "map (\<lambda>i. ?c (drop_bit (7 * i) v)) [0..<Suc (VarintLen (drop_bit 7 v))] =
        ?c v # map (\<lambda>i. ?c (drop_bit (7 * i) (drop_bit 7 v))) [0..<VarintLen (drop_bit 7 v)]"
      by (subst map_upt_Suc) (simp add: drop_bit_drop_bit ac_simps)
    then show ?thesis
      using False "1" by (subst buf_loop.simps, subst VarintLen_rec) (simp add: Let_def)
  qed
qed

lemma put_small:
  "putVarint64 v = group_bytes (VarintLen v) v" if "v AND push_bit 32 0xff000000 = 0"
proof -
  let ?n = "VarintLen v"
  let ?c = "\<lambda>i. ucast (drop_bit (7 * i) v AND 0x7f OR 0x80) :: u8"
  let ?b = "map ?c [0..<?n]"
  have n: "0 < ?n" using VarintLen_pos [of v] by linarith
  have "putVarint64 v = rev (?b[0 := (?b ! 0) AND 0x7f])" using that by (simp add: putVarint64_def buf_loop_groups Let_def)
  also have "\<dots> = group_bytes ?n v"
  proof (rule nth_equalityI)
    fix i assume "i < length (rev (?b[0 := (?b ! 0) AND 0x7f]))"
    then have i: "i < ?n" by simp
    have z: "ucast (v AND 0x7f OR 0x80) AND 0x7f = (ucast (v AND 0x7f) :: u8)"
      by (rule bits8) (simp add: bit_simps)
    show "rev (?b[0 := (?b ! 0) AND 0x7f]) ! i = group_bytes ?n v ! i"
      using i n z by (auto simp: rev_nth group_bytes_def nth_list_update)
  qed (simp add: group_bytes_def)
  finally show ?thesis .
qed

lemma high_bits_zero: "v AND push_bit 32 0xff000000 = 0 \<longleftrightarrow> drop_bit 56 v = 0" for v :: u64
proof -
  have e: "v AND push_bit 32 0xff000000 = push_bit 56 (drop_bit 56 v)" by (rule bits64) (simp add: bit_simps)
  have "drop_bit 56 (push_bit 56 (drop_bit 56 v)) = drop_bit 56 v"
    by (rule bits64) (simp add: bit_simps bit_u64_high)
  then show ?thesis unfolding e by auto
qed

lemma small_values:
  fixes v :: u64
  shows "v \<le> 0x7f \<longleftrightarrow> drop_bit 7 v = 0" "v \<le> 0x3fff \<longleftrightarrow> drop_bit 14 v = 0"
  by (simp_all only: drop_bit_0_unat word_le_nat_alt) (simp_all, linarith+)

lemma PutVarint_short:
  assumes "drop_bit 56 v = 0"
  shows "PutVarint v = group_bytes (VarintLen v) v"
proof -
  consider (one) "v \<le> 0x7f" | (two) "\<not> v \<le> 0x7f" "v \<le> 0x3fff" | (more) "\<not> v \<le> 0x3fff" "\<not> v \<le> 0x7f"
    by force
  then show ?thesis
  proof cases
    case one
    then have "VarintLen v = 1" by (subst VarintLen_rec) (simp add: small_values)
    then show ?thesis using one by (simp add: PutVarint_def group_bytes_def)
  next
    case two
    then have "drop_bit 7 v \<noteq> 0" "drop_bit 7 (drop_bit 7 v) = 0" by (simp_all add: small_values drop_bit_drop_bit)
    then have "VarintLen v = 2" by (subst VarintLen_rec, subst VarintLen_rec) simp
    then show ?thesis using two by (simp add: PutVarint_def group_bytes_def upt_rec)
  next
    case more
    then show ?thesis using put_small assms high_bits_zero by (simp add: PutVarint_def)
  qed
qed

text \<open>What the nine-byte form holds.\<close>

lemma put_nine:
  assumes "drop_bit 56 v \<noteq> 0"
  shows "GetVarint (at_bytes (PutVarint v) rest) = (9, v) \<and> length (PutVarint v) = 9"
proof -
  have "\<not> v \<le> 0x3fff" "\<not> v \<le> 0x7f" using assms by (auto simp: small_values drop_bit_0_unat)
  then have p: "PutVarint v = put_high 8 (drop_bit 8 v) [ucast v]"
    using assms high_bits_zero by (simp add: PutVarint_def putVarint64_def)
  let ?m = "at_bytes (PutVarint v) rest"
  have m: "?m 0 = ucast ((drop_bit 57 v AND 0x7f) OR 0x80)" "?m (Suc 0) = ucast ((drop_bit 50 v AND 0x7f) OR 0x80)"
    "?m 2 = ucast ((drop_bit 43 v AND 0x7f) OR 0x80)" "?m 3 = ucast ((drop_bit 36 v AND 0x7f) OR 0x80)"
    "?m 4 = ucast ((drop_bit 29 v AND 0x7f) OR 0x80)" "?m 5 = ucast ((drop_bit 22 v AND 0x7f) OR 0x80)"
    "?m 6 = ucast ((drop_bit 15 v AND 0x7f) OR 0x80)" "?m 7 = ucast ((drop_bit 8 v AND 0x7f) OR 0x80)"
    "?m 8 = ucast v"
    by (simp_all add: p at_bytes_def eval_nat_numeral drop_bit_drop_bit)
  have "push_bit 8 (groups ?m 8) OR ucast (?m 8) = v"
    by (rule bits64) (simp add: groups_simps m bit_simps)
  then have "varint_spec ?m = (9, v)" by (simp add: varint_spec_eq m bit_simps)
  then show ?thesis by (simp add: GetVarint_spec p eval_nat_numeral)
qed

lemma get_group_bytes:
  assumes "1 \<le> n" "n \<le> 8" "drop_bit (7 * n) v = 0"
  shows "GetVarint (at_bytes (group_bytes n v) rest) = (n, v)"
proof -
  note hi = drop_bit_0_bit [OF assms(3)]
  have "n \<in> {1, 2, 3, 4, 5, 6, 7, 8}" using assms(1,2) by auto
  then show ?thesis
    unfolding GetVarint_spec varint_spec_eq group_bytes_def at_bytes_def
    using hi
    apply (elim insertE emptyE)
    apply (simp_all add: upt_rec bit_simps)
    apply (rule bits64, simp add: groups_simps bit_simps upt_rec; fail)+
    done
qed

lemma length_group_bytes [simp]: "length (group_bytes n v) = n"
  by (simp add: group_bytes_def)

lemma get_put: "GetVarint (at_bytes (PutVarint v) rest) = (length (PutVarint v), v)"
proof (cases "drop_bit 56 v = 0")
  case True
  then have "VarintLen v \<le> 8" using VarintLen_le [of 7 v] by simp
  then show ?thesis
    using get_group_bytes [OF VarintLen_pos _ drop_bit_VarintLen] by (simp add: PutVarint_short [OF True])
qed (simp add: put_nine)

lemma VarintLen_ge: "drop_bit (7 * k) v \<noteq> 0 \<Longrightarrow> k < VarintLen v"
proof (rule ccontr)
  assume d: "drop_bit (7 * k) v \<noteq> 0" and "\<not> k < VarintLen v"
  then have "7 * k = 7 * VarintLen v + 7 * (k - VarintLen v)" by simp
  then have "drop_bit (7 * k) v = drop_bit (7 * (k - VarintLen v)) (drop_bit (7 * VarintLen v) v)"
    by (simp add: drop_bit_drop_bit add.commute)
  then show False using d by (simp add: drop_bit_VarintLen)
qed

text \<open>The predicted length is right below \<open>2 ^ 63\<close>; above, the loop counts a tenth group.\<close>

lemma VarintLen_length:
  "length (PutVarint v) = (if drop_bit 63 v = 0 then VarintLen v else VarintLen v - 1)"
proof (cases "drop_bit 56 v = 0")
  case True
  then have "drop_bit 63 v = 0" by (simp add: drop_bit_0_unat)
  then show ?thesis by (simp add: PutVarint_short [OF True])
next
  case False
  then have l: "length (PutVarint v) = 9" by (simp add: put_nine)
  have g: "8 < VarintLen v" using VarintLen_ge [of 8 v] False by simp
  have "VarintLen v \<le> 10"
    using VarintLen_le [of 9 v] drop_bit_0_unat [of 70 v] unsigned_less [of v, where 'a = nat] by simp
  moreover have "VarintLen v \<le> 9" if "drop_bit 63 v = 0" using VarintLen_le [of 8 v] that by simp
  moreover have "9 < VarintLen v" if "drop_bit 63 v \<noteq> 0" using VarintLen_ge [of 9 v] that by simp
  ultimately show ?thesis using l g by (cases "drop_bit 63 v = 0") fastforce+
qed

lemma get_put_4byte: "Get4byte (at_bytes (Put4byte v) rest) = v"
  by (rule bits32) (simp add: Get4byte_def at_bytes_def Put4byte_def bit_simps)

lemma and_0x80_u8: "b AND 0x80 = 0 \<longleftrightarrow> \<not> bit b 7" for b :: u8
proof -
  have "(0x80 :: u8) = push_bit 7 1" by simp
  then have "bit (0x80 :: u8) n \<longleftrightarrow> n = 7" for n by (simp only: bit_push_bit_iff bit_1_iff) auto
  then show ?thesis unfolding word_eq_0_bits bit_and_iff by auto
qed

text \<open>The 32-bit reader truncates, and stores all ones when the value does not fit.\<close>

lemma GetVarint32_eq:
  assumes "bit (p 0) 7"
  shows "GetVarint32 p = (case GetVarint p of (n, v) \<Rightarrow> (n, if unat v < 2 ^ 32 then ucast v else 0xffffffff))"
proof -
  have m: "v AND 0xffffffff \<noteq> v \<longleftrightarrow> \<not> unat v < 2 ^ 32" for v :: u64
  proof -
    have "v AND 0xffffffff = take_bit 32 v" by (rule bits64) (simp add: bit_simps)
    moreover have "take_bit 32 v = v \<longleftrightarrow> unat v < 2 ^ 32"
      by (metis take_bit_nat_eq_self_iff unsigned_take_bit_eq word_unat_eq_iff)
    ultimately show ?thesis by simp
  qed
  consider (two) "\<not> bit (p 1) 7" | (three) "bit (p 1) 7" "\<not> bit (p 2) 7" | (more) "bit (p 1) 7" "bit (p 2) 7" by blast
  then show ?thesis
  proof cases
    case two
    have g: "GetVarint p = (2, groups p 2)" using assms two by (simp add: GetVarint_spec varint_spec_eq)
    have "drop_bit 32 (groups p 2) = 0" by (rule bits64) (simp add: groups_simps bit_simps bit_u8_high)
    then have "unat (groups p 2) < 2 ^ 32" by (simp only: drop_bit_0_unat)
    moreover have "push_bit 7 (w32 (p 0) AND 0x7f) OR w32 (p 1) = ucast (groups p 2)"
      using two by (intro bits32) (simp add: groups_simps bit_simps bit_u8_high)
    ultimately show ?thesis using two by (simp add: GetVarint32_def g and_0x80_u8)
  next
    case three
    have g: "GetVarint p = (3, groups p 3)" using assms three by (simp add: GetVarint_spec varint_spec_eq)
    have "drop_bit 32 (groups p 3) = 0" by (rule bits64) (simp add: groups_simps bit_simps bit_u8_high)
    then have "unat (groups p 3) < 2 ^ 32" by (simp only: drop_bit_0_unat)
    moreover have "push_bit 14 (w32 (p 0) AND 0x7f) OR push_bit 7 (w32 (p 1) AND 0x7f) OR w32 (p 2) = ucast (groups p 3)"
      using three by (intro bits32) (simp add: groups_simps bit_simps bit_u8_high)
    ultimately show ?thesis using three by (simp add: GetVarint32_def g and_0x80_u8)
  next
    case more
    then show ?thesis by (simp add: GetVarint32_def and_0x80_u8 m split: prod.split)
  qed
qed

section \<open>Properties\<close>

text \<open>
  Every 64-bit value survives a round trip through its variable-length form, whatever
  follows it in memory, and the reader consumes exactly the bytes that were written.
\<close>

lemma varint_round_trip:
  "GetVarint (at_bytes (PutVarint v) rest) = (length (PutVarint v), v)"
  by (rule get_put)

text \<open>
  The predicted length of a variable-length integer is the number of bytes written for values
  below \<open>2 ^ 63\<close>; for the others it is one too many.
\<close>

lemma varint_length:
  "VarintLen v = (if unat v < 2 ^ 63 then length (PutVarint v) else length (PutVarint v) + 1)"
  using VarintLen_length [of v] VarintLen_pos [of v] drop_bit_0_unat [of 63 v] by simp

end
