(* ===== verification/SqlRecord.thy ===== *)
theory SqlRecord
  imports SqlVarint
begin

text \<open>
  The record format of SQLite (\<^verbatim>\<open>sqlite/sqlite3.c\<close>), in which the rows of the server's tables are
  stored: \<open>OP_MakeRecord\<close> of the virtual machine writes a list of values as a header of varints, one
  serial type for each value, and the data after it; \<open>sqlite3VdbeSerialGet\<close> reads one value and
  \<open>sqlite3VdbeRecordUnpack\<close> the values of a record.

  A value is null, a 64-bit integer, the bits of a double, a text or a blob. Not modelled: the
  affinities that the opcode may apply first, blobs with a tail of zeros that is not stored
  (\<open>MEM_Zero\<close>), integers that stand for reals (\<open>MEM_IntReal\<close>), and the failure of an allocation.
  Memory is a function from offsets to bytes, as in \<open>SqlVarint\<close>.
\<close>

datatype sql_value = SNull | SInt u64 | SReal u64 | SText "u8 list" | SBlob "u8 list"

section \<open>Writing\<close>

definition SmallTypeSizes :: "nat list" where
  "SmallTypeSizes =
    [0, 1, 2, 3, 4, 6, 8, 8, 0, 0,
     0, 0, 0, 0, 1, 1, 2, 2, 3, 3,
     4, 4, 5, 5, 6, 6, 7, 7, 8, 8,
     9, 9, 10, 10, 11, 11, 12, 12, 13, 13,
     14, 14, 15, 15, 16, 16, 17, 17, 18, 18,
     19, 19, 20, 20, 21, 21, 22, 22, 23, 23,
     24, 24, 25, 25, 26, 26, 27, 27, 28, 28,
     29, 29, 30, 30, 31, 31, 32, 32, 33, 33,
     34, 34, 35, 35, 36, 36, 37, 37, 38, 38,
     39, 39, 40, 40, 41, 41, 42, 42, 43, 43,
     44, 44, 45, 45, 46, 46, 47, 47, 48, 48,
     49, 49, 50, 50, 51, 51, 52, 52, 53, 53,
     54, 54, 55, 55, 56, 56, 57, 57]"

definition SerialTypeLen :: "u32 \<Rightarrow> nat" where
  "SerialTypeLen st = (if 128 \<le> st then unat ((st - 12) div 2) else SmallTypeSizes ! unat st)"

text \<open>The first loop: the serial type of a value; \<open>ff4\<close> is whether the file format is at least 4.\<close>

definition int_magnitude :: "u64 \<Rightarrow> u64" where
  "int_magnitude i = (if sint i < 0 then NOT i else i)"

definition int_serial_type :: "bool \<Rightarrow> u64 \<Rightarrow> u32" where
  "int_serial_type ff4 i =
     (let uu = int_magnitude i in
      if uu \<le> 127 then (if i AND 1 = i \<and> ff4 then 8 + ucast uu else 1)
      else if uu \<le> 32767 then 2
      else if uu \<le> 8388607 then 3
      else if uu \<le> 2147483647 then 4
      else if uu \<le> 140737488355327 then 5
      else 6)"

definition bytes_serial_type :: "nat \<Rightarrow> bool \<Rightarrow> u32" where
  "bytes_serial_type n is_str = of_nat n * 2 + 12 + (if is_str then 1 else 0)"

fun serial_type :: "bool \<Rightarrow> sql_value \<Rightarrow> u32" where
  "serial_type ff4 SNull = 0"
| "serial_type ff4 (SInt i) = int_serial_type ff4 i"
| "serial_type ff4 (SReal r) = 7"
| "serial_type ff4 (SText bs) = bytes_serial_type (length bs) True"
| "serial_type ff4 (SBlob bs) = bytes_serial_type (length bs) False"

text \<open>What the value adds to \<open>nData\<close> and to \<open>nHdr\<close>.\<close>

fun data_size :: "bool \<Rightarrow> sql_value \<Rightarrow> nat" where
  "data_size ff4 SNull = 0"
| "data_size ff4 (SInt i) =
     (let uu = int_magnitude i in
      if uu \<le> 127 then (if i AND 1 = i \<and> ff4 then 0 else 1)
      else if uu \<le> 32767 then 2
      else if uu \<le> 8388607 then 3
      else if uu \<le> 2147483647 then 4
      else if uu \<le> 140737488355327 then 6
      else 8)"
| "data_size ff4 (SReal r) = 8"
| "data_size ff4 (SText bs) = length bs"
| "data_size ff4 (SBlob bs) = length bs"

fun header_size :: "bool \<Rightarrow> sql_value \<Rightarrow> nat" where
  "header_size ff4 SNull = 1"
| "header_size ff4 (SInt i) = 1"
| "header_size ff4 (SReal r) = 1"
| "header_size ff4 v = VarintLen (ucast (serial_type ff4 v))"

text \<open>The size of the header with the varint that holds it.\<close>

definition full_header_size :: "nat \<Rightarrow> nat" where
  "full_header_size nHdr =
     (if nHdr \<le> 126 then nHdr + 1
      else
        let nVarint = VarintLen (of_nat nHdr); nHdr' = nHdr + nVarint
        in if nVarint < VarintLen (of_nat nHdr') then nHdr' + 1 else nHdr')"

definition store :: "nat \<Rightarrow> u8 list \<Rightarrow> mem \<Rightarrow> mem" where
  "store off bs m = (\<lambda>i. if off \<le> i \<and> i < off + length bs then bs ! (i - off) else m i)"

text \<open>The \<open>switch\<close> on the length, from the last byte to the first.\<close>

definition be_bytes :: "nat \<Rightarrow> u64 \<Rightarrow> u8 list" where
  "be_bytes len v = map (\<lambda>k. ucast (drop_bit (8 * (len - 1 - k)) v)) [0..<len]"

fun value_word :: "sql_value \<Rightarrow> u64" where
  "value_word (SInt i) = i"
| "value_word (SReal r) = r"
| "value_word _ = 0"

fun value_bytes :: "sql_value \<Rightarrow> u8 list" where
  "value_bytes (SText bs) = bs"
| "value_bytes (SBlob bs) = bs"
| "value_bytes _ = []"

text \<open>The second loop, at the places \<open>zHdr\<close> and \<open>zPayload\<close>.\<close>

fun write_fields :: "bool \<Rightarrow> sql_value list \<Rightarrow> nat \<Rightarrow> nat \<Rightarrow> mem \<Rightarrow> nat \<times> nat \<times> mem" where
  "write_fields ff4 [] zHdr zPayload m = (zHdr, zPayload, m)"
| "write_fields ff4 (v # vs) zHdr zPayload m =
     (let st = serial_type ff4 v; n = length (value_bytes v) in
      if st \<le> 7 then
        let m1 = store zHdr [ucast st] m in
        if st = 0 then write_fields ff4 vs (zHdr + 1) zPayload m1
        else let len = SmallTypeSizes ! unat st
             in write_fields ff4 vs (zHdr + 1) (zPayload + len) (store zPayload (be_bytes len (value_word v)) m1)
      else if st < 0x80 then
        let m1 = store zHdr [ucast st] m in
        if 14 \<le> st \<and> 0 < n then write_fields ff4 vs (zHdr + 1) (zPayload + n) (store zPayload (value_bytes v) m1)
        else write_fields ff4 vs (zHdr + 1) zPayload m1
      else
        let hv = PutVarint (ucast st); m1 = store zHdr hv m in
        if n \<noteq> 0 then write_fields ff4 vs (zHdr + length hv) (zPayload + n) (store zPayload (value_bytes v) m1)
        else write_fields ff4 vs (zHdr + length hv) zPayload m1)"

text \<open>
  The opcode: \<open>None\<close> for a record longer than the limit, else the memory and the length. \<open>szMalloc\<close> is
  the size of the buffer that the output register already has.
\<close>

definition make_record :: "bool \<Rightarrow> nat \<Rightarrow> nat \<Rightarrow> sql_value list \<Rightarrow> mem \<Rightarrow> (mem \<times> nat) option" where
  "make_record ff4 szMalloc limit vs m =
     (let nData = sum_list (map (data_size ff4) vs);
          nHdr = full_header_size (sum_list (map (header_size ff4) vs));
          nByte = nHdr + nData
      in if \<not> nByte \<le> szMalloc \<and> nByte > limit then None
         else
           let hv = (if nHdr < 0x80 then [of_nat nHdr] else PutVarint (of_nat nHdr))
           in case write_fields ff4 vs (length hv) nHdr (store 0 hv m) of (zHdr, zPayload, m') \<Rightarrow> Some (m', nByte))"

section \<open>Reading\<close>

definition getVarint32 :: "mem \<Rightarrow> nat \<times> u32" where
  "getVarint32 p = (if p 0 < 0x80 then (1, w32 (p 0)) else GetVarint32 p)"

definition offset :: "nat \<Rightarrow> mem \<Rightarrow> mem" where
  "offset n p = (\<lambda>i. p (n + i))"

definition ONE_BYTE_INT :: "mem \<Rightarrow> u64" where
  "ONE_BYTE_INT x = scast (x 0)"

definition TWO_BYTE_INT :: "mem \<Rightarrow> u64" where
  "TWO_BYTE_INT x = scast (256 * scast (x 0) OR w32 (x 1) :: u32)"

definition THREE_BYTE_INT :: "mem \<Rightarrow> u64" where
  "THREE_BYTE_INT x = scast (65536 * scast (x 0) OR push_bit 8 (w32 (x 1)) OR w32 (x 2) :: u32)"

definition FOUR_BYTE_INT :: "mem \<Rightarrow> u64" where
  "FOUR_BYTE_INT x = scast (16777216 * scast (x 0) OR push_bit 16 (w32 (x 1)) OR push_bit 8 (w32 (x 2)) OR w32 (x 3) :: u32)"

definition FOUR_BYTE_UINT :: "mem \<Rightarrow> u32" where
  "FOUR_BYTE_UINT x = push_bit 24 (w32 (x 0)) OR push_bit 16 (w32 (x 1)) OR push_bit 8 (w32 (x 2)) OR w32 (x 3)"

definition EXP754 :: u64 where "EXP754 = push_bit 52 0x7ff"
definition MAN754 :: u64 where "MAN754 = push_bit 52 1 - 1"

definition IsNaN :: "u64 \<Rightarrow> bool" where
  "IsNaN x \<longleftrightarrow> x AND EXP754 = EXP754 \<and> x AND MAN754 \<noteq> 0"

definition serialGet :: "mem \<Rightarrow> u32 \<Rightarrow> sql_value" where
  "serialGet buf st =
     (let x = ucast (FOUR_BYTE_UINT buf); y = FOUR_BYTE_UINT (offset 4 buf); x = push_bit 32 x + ucast y
      in if st = 6 then SInt x else if IsNaN x then SNull else SReal x)"

definition SerialGet :: "mem \<Rightarrow> u32 \<Rightarrow> sql_value" where
  "SerialGet buf st =
     (if st = 10 \<or> st = 11 \<or> st = 0 then SNull
      else if st = 1 then SInt (ONE_BYTE_INT buf)
      else if st = 2 then SInt (TWO_BYTE_INT buf)
      else if st = 3 then SInt (THREE_BYTE_INT buf)
      else if st = 4 then SInt (FOUR_BYTE_INT buf)
      else if st = 5 then SInt (ucast (FOUR_BYTE_UINT (offset 2 buf)) + push_bit 32 1 * TWO_BYTE_INT buf)
      else if st = 6 \<or> st = 7 then serialGet buf st
      else if st = 8 \<or> st = 9 then SInt (ucast (st - 8))
      else let bs = map buf [0..<unat ((st - 12) div 2)]
           in if st AND 1 = 1 then SText bs else SBlob bs)"

text \<open>
  The loop, where \<open>k\<close> more fields may follow the one that is read: the values, and \<open>d\<close> at its end.
\<close>

fun unpack_fields :: "nat \<Rightarrow> mem \<Rightarrow> nat \<Rightarrow> u32 \<Rightarrow> u32 \<Rightarrow> u32 \<Rightarrow> sql_value list \<times> u32" where
  "unpack_fields k aKey nKey szHdr idx d =
     (if idx < szHdr \<and> unat d \<le> nKey then
        let (n, st) = getVarint32 (offset (unat idx) aKey);
            v = SerialGet (offset (unat d) aKey) st;
            d1 = d + of_nat (SerialTypeLen st)
        in case k of
             0 \<Rightarrow> ([v], d1)
           | Suc k1 \<Rightarrow> let (vs, d2) = unpack_fields k1 aKey nKey szHdr (idx + of_nat n) d1 in (v # vs, d2)
      else ([], d))"

declare unpack_fields.simps [simp del]

definition record_unpack :: "nat \<Rightarrow> mem \<Rightarrow> nat \<Rightarrow> sql_value list" where
  "record_unpack nKey aKey nField =
     (let (idx, szHdr) = getVarint32 aKey;
          (vs, d) = unpack_fields (nField - 1) aKey nKey szHdr (of_nat idx) szHdr
      in if unat d > nKey \<and> vs \<noteq> [] then butlast vs @ [SNull] else vs)"

end
