(* ===== verification/SqlRecordLib.thy ===== *)
theory SqlRecordLib
  imports SqlRecord
begin

text \<open>The lemmas under the round trip of records: integers, serial types, sizes and the two loops.\<close>

section \<open>Codecs\<close>

lemma at_bytes_append: "at_bytes (xs @ ys) r = at_bytes xs (at_bytes ys r)"
  by (rule ext) (auto simp: at_bytes_def nth_append)

lemma offset_at_bytes: "n = length xs \<Longrightarrow> offset n (at_bytes (xs @ ys) r) = at_bytes ys r"
  by (rule ext) (auto simp: at_bytes_def offset_def)

text \<open>
  A writer of bytes and a reader of memory fit together when the reader finds the value of what was
  written at the start of the memory, and how long it is, whatever comes after it.
\<close>

locale byte_codec =
  fixes enc :: "'a \<Rightarrow> u8 list" and rd :: "mem \<Rightarrow> nat \<times> 'b" and val :: "'a \<Rightarrow> 'b"
  assumes read_back: "rd (at_bytes (enc x @ bs) r) = (length (enc x), val x)"
begin

lemma read_at: "n = length xs \<Longrightarrow> rd (offset n (at_bytes (xs @ enc x @ ys) r)) = (length (enc x), val x)"
  by (simp add: offset_at_bytes read_back)

lemma read_last: "n = length xs \<Longrightarrow> rd (offset n (at_bytes (xs @ enc x) r)) = (length (enc x), val x)"
  using read_at [of n xs x "[]" r] by simp

lemma read_first: "rd (at_bytes (enc x) r) = (length (enc x), val x)"
  using read_back [of x "[]" r] by simp

text \<open>No code is the start of another one: equal texts hold equal values.\<close>

lemma unique:
  assumes "enc x @ xs = enc y @ ys"
  shows "val x = val y \<and> xs = ys"
proof -
  have "rd (at_bytes (enc x @ xs) (\<lambda>_. 0)) = rd (at_bytes (enc y @ ys) (\<lambda>_. 0))" by (simp only: assms)
  then have e: "length (enc x) = length (enc y)" "val x = val y" unfolding read_back by simp_all
  have "enc x = enc y \<and> xs = ys" using assms by (simp only: append_eq_append_conv [OF disjI1 [OF e(1)]])
  then show ?thesis using e(2) by blast
qed

lemma unique_list: "concat (map enc xs) = concat (map enc ys) \<Longrightarrow> length xs = length ys \<Longrightarrow> map val xs = map val ys"
proof (induction xs arbitrary: ys)
  case (Cons x xs)
  then obtain y ys' where ys: "ys = y # ys'" by (cases ys) simp_all
  have "val x = val y \<and> concat (map enc xs) = concat (map enc ys')"
    using Cons.prems(1) by (intro unique) (simp add: ys)
  then show ?case using Cons.IH [of ys'] Cons.prems(2) by (simp add: ys)
qed simp

end

interpretation varint: byte_codec PutVarint GetVarint "\<lambda>v. v"
  by unfold_locales (simp add: at_bytes_append get_put)

interpretation field4: byte_codec Put4byte "\<lambda>p. (4, Get4byte p)" "\<lambda>v. v"
proof
  have "length (Put4byte x) = 4" for x by (simp add: Put4byte_def)
  then show "(4, Get4byte (at_bytes (Put4byte x @ bs) r)) = (length (Put4byte x), x)" for x bs r
    by (simp only: at_bytes_append get_put_4byte)
qed

section \<open>Integers\<close>

lemma bit_sint_neg: "sint i < 0 \<longleftrightarrow> bit i 63" for i :: u64
  using bit_last_iff [of i] by simp

lemma magnitude_bit: "m < 64 \<Longrightarrow> bit (int_magnitude i) m \<longleftrightarrow> bit i m \<noteq> bit i 63"
  by (auto simp: int_magnitude_def bit_sint_neg bit_not_iff)

lemma word_le_mask_bits:
  fixes w :: u64
  assumes "unat w < 2 ^ n" "n \<le> m" shows "\<not> bit w m"
proof -
  have "drop_bit n w = 0" using assms(1) by (simp only: drop_bit_0_unat)
  then show ?thesis using drop_bit_0_bit [of n w m] assms(2) by auto
qed

text \<open>An integer of small magnitude is the sign extension of its low bits.\<close>

lemma magnitude_extend:
  assumes "unat (int_magnitude i) < 2 ^ n" "n < 64"
  shows "signed_take_bit n i = i"
proof (rule bit_word_eqI)
  fix m :: nat assume "m < LENGTH(64)"
  then have m: "m < 64" by simp
  have hi: "bit i k = bit i 63" if "n \<le> k" "k < 64" for k
    using word_le_mask_bits [OF assms(1) that(1)] magnitude_bit [OF that(2)] by simp
  show "bit (signed_take_bit n i) m = bit i m"
    using hi [of n] hi [of m] m assms(2) by (cases "m \<le> n") (simp_all add: bit_signed_take_bit_iff min_def)
qed

lemma be_bytes_eval:
  "be_bytes 1 v = [ucast v]" "be_bytes (Suc 0) v = [ucast v]"
  "be_bytes 2 v = [ucast (drop_bit 8 v), ucast v]"
  "be_bytes 3 v = [ucast (drop_bit 16 v), ucast (drop_bit 8 v), ucast v]"
  "be_bytes 4 v = [ucast (drop_bit 24 v), ucast (drop_bit 16 v), ucast (drop_bit 8 v), ucast v]"
  "be_bytes 6 v = [ucast (drop_bit 40 v), ucast (drop_bit 32 v), ucast (drop_bit 24 v), ucast (drop_bit 16 v), ucast (drop_bit 8 v), ucast v]"
  "be_bytes 8 v = [ucast (drop_bit 56 v), ucast (drop_bit 48 v), ucast (drop_bit 40 v), ucast (drop_bit 32 v), ucast (drop_bit 24 v),
     ucast (drop_bit 16 v), ucast (drop_bit 8 v), ucast v]"
  by (simp_all add: be_bytes_def upt_rec)

lemma scaled_byte:
  "256 * w = push_bit 8 w" "65536 * w = push_bit 16 w" "16777216 * w = push_bit 24 w" for w :: u32
  by (simp_all add: push_bit_eq_mult)

lemma one_byte: "ONE_BYTE_INT (at_bytes (be_bytes 1 v @ rest) r) = signed_take_bit 7 v"
  by (rule bits64) (simp add: ONE_BYTE_INT_def be_bytes_eval at_bytes_def bit_simps bit_signed_take_bit_iff min_def)

lemma two_byte: "TWO_BYTE_INT (at_bytes (be_bytes 2 v @ rest) r) = signed_take_bit 15 v"
  by (rule bits64) (simp add: TWO_BYTE_INT_def be_bytes_eval at_bytes_def scaled_byte bit_simps bit_signed_take_bit_iff min_def bit_u8_high)

lemma three_byte: "THREE_BYTE_INT (at_bytes (be_bytes 3 v @ rest) r) = signed_take_bit 23 v"
  by (rule bits64) (simp add: THREE_BYTE_INT_def be_bytes_eval at_bytes_def scaled_byte bit_simps bit_signed_take_bit_iff min_def bit_u8_high)

lemma four_byte: "FOUR_BYTE_INT (at_bytes (be_bytes 4 v @ rest) r) = signed_take_bit 31 v"
  by (rule bits64) (simp add: FOUR_BYTE_INT_def be_bytes_eval at_bytes_def scaled_byte bit_simps bit_signed_take_bit_iff min_def bit_u8_high)

lemma eight_byte:
  "push_bit 32 (ucast (FOUR_BYTE_UINT (at_bytes (be_bytes 8 v @ rest) r))) + ucast (FOUR_BYTE_UINT (offset 4 (at_bytes (be_bytes 8 v @ rest) r))) = v"
proof -
  let ?x = "push_bit 32 (ucast (FOUR_BYTE_UINT (at_bytes (be_bytes 8 v @ rest) r))) :: u64"
  let ?y = "ucast (FOUR_BYTE_UINT (offset 4 (at_bytes (be_bytes 8 v @ rest) r))) :: u64"
  have "?x AND ?y = 0" by (rule bits64) (simp add: bit_simps bit_u32_high)
  then have "?x + ?y = ?x OR ?y" by (rule disjunctive_add_eq_or)
  also have "\<dots> = v"
    by (rule bits64) (simp add: FOUR_BYTE_UINT_def offset_def be_bytes_eval at_bytes_def bit_simps bit_u8_high bit_u32_high)
  finally show ?thesis .
qed

lemma six_byte:
  "ucast (FOUR_BYTE_UINT (offset 2 (at_bytes (be_bytes 6 v @ rest) r))) + push_bit 32 1 * TWO_BYTE_INT (at_bytes (be_bytes 6 v @ rest) r) =
     signed_take_bit 47 v"
proof -
  let ?x = "push_bit 32 (TWO_BYTE_INT (at_bytes (be_bytes 6 v @ rest) r))"
  let ?y = "ucast (FOUR_BYTE_UINT (offset 2 (at_bytes (be_bytes 6 v @ rest) r))) :: u64"
  have e: "push_bit 32 1 * w = push_bit 32 w" for w :: u64 by (simp add: push_bit_eq_mult)
  have "?y AND ?x = 0" by (rule bits64) (simp add: bit_simps bit_u32_high)
  then have "?y + ?x = ?y OR ?x" by (rule disjunctive_add_eq_or)
  also have "\<dots> = signed_take_bit 47 v"
    by (rule bits64) (simp add: FOUR_BYTE_UINT_def TWO_BYTE_INT_def offset_def be_bytes_eval at_bytes_def scaled_byte bit_simps
        bit_signed_take_bit_iff min_def bit_u8_high bit_u32_high)
  finally show ?thesis by (simp only: e)
qed

section \<open>Serial types\<close>

lemma nat_less_128: "n < 128 \<Longrightarrow> 12 \<le> n \<Longrightarrow> SmallTypeSizes ! n = (n - 12) div 2"
proof -
  have "list_all (\<lambda>n. SmallTypeSizes ! n = (n - 12) div 2) [12..<128]" by code_simp
  then have "\<forall>n \<in> {12..<128}. SmallTypeSizes ! n = (n - 12) div 2" by (simp only: list_all_iff set_upt)
  then show "n < 128 \<Longrightarrow> 12 \<le> n \<Longrightarrow> ?thesis" by (meson atLeastLessThan_iff)
qed

lemma half_serial: "12 \<le> st \<Longrightarrow> unat ((st - 12) div 2) = (unat st - 12) div 2" for st :: u32
proof -
  assume le: "12 \<le> st"
  have "unat (st - 12) = unat st - unat (12 :: u32)" by (rule unat_sub [OF le])
  then show ?thesis by (simp add: unat_div_distrib)
qed

lemma SerialTypeLen_bytes: "12 \<le> st \<Longrightarrow> SerialTypeLen st = (unat st - 12) div 2"
proof (cases "128 \<le> st")
  case False
  then have "unat st < 128" by (simp add: word_le_nat_alt)
  moreover assume "12 \<le> st"
  ultimately show ?thesis using nat_less_128 [of "unat st"] False by (simp add: SerialTypeLen_def word_le_nat_alt)
qed (simp add: SerialTypeLen_def half_serial)

definition value_ok :: "sql_value \<Rightarrow> bool" where
  "value_ok v \<longleftrightarrow> length (value_bytes v) \<le> 1000000000"

text \<open>What a value becomes: a NaN is read as null.\<close>

fun nan_null :: "sql_value \<Rightarrow> sql_value" where
  "nan_null (SReal r) = (if IsNaN r then SNull else SReal r)"
| "nan_null v = v"

lemma unat_bytes_type:
  assumes "n \<le> 1000000000"
  shows "unat (bytes_serial_type n s) = 2 * n + 12 + (if s then 1 else 0)"
proof -
  have e: "bytes_serial_type n s = of_nat (2 * n + 12 + (if s then 1 else 0))" by (simp add: bytes_serial_type_def mult.commute)
  have "2 * n + 12 + (if s then 1 else 0) < 2 ^ LENGTH(32)" using assms by simp
  then show ?thesis unfolding e by (simp only: unat_of_nat mod_less)
qed

lemma int_type_cases:
  obtains (zero_one) "ff4" "i = 0 \<or> i = 1" "int_serial_type ff4 i = 8 + ucast i" "data_size ff4 (SInt i) = 0"
  | (one) "signed_take_bit 7 i = i" "int_serial_type ff4 i = 1" "data_size ff4 (SInt i) = 1"
  | (two) "signed_take_bit 15 i = i" "int_serial_type ff4 i = 2" "data_size ff4 (SInt i) = 2"
  | (three) "signed_take_bit 23 i = i" "int_serial_type ff4 i = 3" "data_size ff4 (SInt i) = 3"
  | (four) "signed_take_bit 31 i = i" "int_serial_type ff4 i = 4" "data_size ff4 (SInt i) = 4"
  | (six) "signed_take_bit 47 i = i" "int_serial_type ff4 i = 5" "data_size ff4 (SInt i) = 6"
  | (eight) "int_serial_type ff4 i = 6" "data_size ff4 (SInt i) = 8"
proof -
  let ?u = "int_magnitude i"
  have fit: "signed_take_bit n i = i" if "?u \<le> k" "unat k < 2 ^ n" "n < 64" for k n
    using that by (intro magnitude_extend) (simp_all add: word_le_nat_alt)
  consider "?u \<le> 127" "i AND 1 = i \<and> ff4" | "?u \<le> 127" "\<not> (i AND 1 = i \<and> ff4)"
    | "\<not> ?u \<le> 127" "?u \<le> 32767" | "\<not> ?u \<le> 127" "\<not> ?u \<le> 32767" "?u \<le> 8388607"
    | "\<not> ?u \<le> 127" "\<not> ?u \<le> 32767" "\<not> ?u \<le> 8388607" "?u \<le> 2147483647"
    | "\<not> ?u \<le> 127" "\<not> ?u \<le> 32767" "\<not> ?u \<le> 8388607" "\<not> ?u \<le> 2147483647" "?u \<le> 140737488355327"
    | "\<not> ?u \<le> 127" "\<not> ?u \<le> 32767" "\<not> ?u \<le> 8388607" "\<not> ?u \<le> 2147483647" "\<not> ?u \<le> 140737488355327"
    by blast
  then show thesis
  proof cases
    case 1
    have "i AND 1 = (if bit i 0 then 1 else 0)" by (simp add: and_one_eq odd_iff_mod_2_eq_one bit_0)
    then have i: "i = 0 \<or> i = 1" using 1(2) by (auto split: if_splits)
    then have "?u = i" by (auto simp: int_magnitude_def)
    then show thesis using 1 i zero_one by (simp add: int_serial_type_def)
  next
    case 2
    then show thesis using one fit [of 127 7] by (auto simp: int_serial_type_def Let_def)
  next
    case 3
    then show thesis using two fit [of 32767 15] by (auto simp: int_serial_type_def)
  next
    case 4
    then show thesis using three fit [of 8388607 23] by (auto simp: int_serial_type_def)
  next
    case 5
    then show thesis using four fit [of 2147483647 31] by (auto simp: int_serial_type_def)
  next
    case 6
    then show thesis using six fit [of 140737488355327 47] by (auto simp: int_serial_type_def)
  next
    case 7
    then show thesis using eight by (auto simp: int_serial_type_def)
  qed
qed

section \<open>One field\<close>

definition varint_bytes :: "u32 \<Rightarrow> u8 list" where
  "varint_bytes st = (if st < 0x80 then [ucast st] else PutVarint (ucast st))"

definition header_bytes :: "bool \<Rightarrow> sql_value \<Rightarrow> u8 list" where
  "header_bytes ff4 v = varint_bytes (serial_type ff4 v)"

definition payload_bytes :: "bool \<Rightarrow> sql_value \<Rightarrow> u8 list" where
  "payload_bytes ff4 v =
     (case v of SNull \<Rightarrow> [] | SInt i \<Rightarrow> be_bytes (data_size ff4 v) i | SReal r \<Rightarrow> be_bytes 8 r | SText bs \<Rightarrow> bs | SBlob bs \<Rightarrow> bs)"

lemma length_be_bytes [simp]: "length (be_bytes n v) = n"
  by (simp add: be_bytes_def)

lemma length_payload: "length (payload_bytes ff4 v) = data_size ff4 v"
  by (cases v) (simp_all add: payload_bytes_def)

lemma ucast_small: "unat (ucast st :: u64) = unat st" for st :: u32
  using unsigned_less [of st, where 'a = nat] by (simp add: unsigned_ucast_eq take_bit_nat_eq_self_iff)

lemma unat_w32: "unat (w32 b) = unat b"
  using unsigned_less [of b, where 'a = nat] by (simp add: unsigned_ucast_eq take_bit_nat_eq_self_iff)

lemma unat_w64: "unat (ucast b :: u64) = unat b" for b :: u8
  using unsigned_less [of b, where 'a = nat] by (simp add: unsigned_ucast_eq take_bit_nat_eq_self_iff)

lemma ucast_byte: "st < 0x80 \<Longrightarrow> unat (ucast st :: u8) = unat st" for st :: u32
  by (simp add: unsigned_ucast_eq take_bit_nat_eq_self_iff word_less_nat_alt)

lemma length_PutVarint_small: "unat v < 2 ^ 63 \<Longrightarrow> length (PutVarint v) = VarintLen v"
  using VarintLen_length [of v] by (simp add: drop_bit_0_unat)

lemma VarintLen_iff: "0 < k \<Longrightarrow> VarintLen v \<le> k \<longleftrightarrow> unat v < 2 ^ (7 * k)"
proof
  assume "0 < k" "VarintLen v \<le> k"
  then have "\<not> k < VarintLen v" by simp
  then have "drop_bit (7 * k) v = 0" using VarintLen_ge by blast
  then show "unat v < 2 ^ (7 * k)" by (simp only: drop_bit_0_unat)
next
  assume k: "0 < k" and "unat v < 2 ^ (7 * k)"
  then have "drop_bit (7 * Suc (k - 1)) v = 0" by (simp add: drop_bit_0_unat)
  then show "VarintLen v \<le> k" using VarintLen_le k by fastforce
qed

lemma VarintLen_1: "unat v < 128 \<longleftrightarrow> VarintLen v = 1"
  using VarintLen_iff [of 1 v] VarintLen_pos [of v] by auto

lemma length_header: "length (header_bytes ff4 v) = header_size ff4 v"
proof -
  have "length (PutVarint (ucast st)) = VarintLen (ucast st)" for st :: u32
  proof -
    have "unat (ucast st :: u64) < 2 ^ 63" using unsigned_less [of st, where 'a = nat] by (simp add: ucast_small)
    then show ?thesis by (rule length_PutVarint_small)
  qed
  moreover have "VarintLen (ucast st) = 1" if "st < 0x80" for st :: u32
    using that VarintLen_1 [of "ucast st"] by (simp add: ucast_small word_less_nat_alt)
  moreover have "int_serial_type ff4 i < 0x80" for i
    by (cases rule: int_type_cases [of ff4 i]) auto
  ultimately show ?thesis by (cases v) (auto simp: header_bytes_def varint_bytes_def Let_def)
qed

lemma small_byte_bit: "b < 0x80 \<Longrightarrow> \<not> bit b 7" for b :: u8
proof -
  assume "b < 0x80"
  then have "unat b < 2 ^ 7" by (simp add: word_less_nat_alt)
  then have "drop_bit 7 b = 0" by (simp only: drop_bit_0_unat)
  then show ?thesis using drop_bit_0_bit [of 7 b 7] by simp
qed

text \<open>A 32-bit varint is read back.\<close>

lemma read_varint_bytes: "getVarint32 (at_bytes (varint_bytes st @ rest) r) = (length (varint_bytes st), st)"
proof (cases "st < 0x80")
  case True
  have u: "unat (ucast st :: u8) = unat st" by (rule ucast_byte [OF True])
  have "ucast st < (0x80 :: u8)" using True u by (simp add: word_less_nat_alt)
  moreover have "w32 (ucast st) = st" by (simp add: word_unat_eq_iff unat_w32 u)
  ultimately show ?thesis using True by (simp add: getVarint32_def varint_bytes_def at_bytes_def)
next
  case False
  let ?v = "ucast st :: u64"
  let ?p = "at_bytes (PutVarint ?v @ rest) r"
  have g: "GetVarint ?p = (length (PutVarint ?v), ?v)" unfolding at_bytes_append by (rule get_put)
  have big: "128 \<le> unat ?v" using False by (simp add: ucast_small word_less_nat_alt)
  have b: "bit (?p 0) 7"
  proof (rule ccontr)
    assume nb: "\<not> bit (?p 0) 7"
    then have "?v = ucast (?p 0)" using g by (simp add: GetVarint_def)
    then have "unat ?v = unat (?p 0)" by (metis unat_w64)
    moreover have "unat (?p 0) < 128"
    proof -
      have "drop_bit 7 (?p 0) = 0" by (rule bits8) (use nb in \<open>simp add: bit_simps bit_u8_high\<close>)
      then show ?thesis by (simp add: drop_bit_eq_div word_unat_eq_iff unat_div_distrib div_eq_0_iff)
    qed
    ultimately show False using big by linarith
  qed
  have "\<not> ?p 0 < 0x80" using small_byte_bit b by blast
  moreover have "unat ?v < 2 ^ 32" using unsigned_less [of st, where 'a = nat] by (simp add: ucast_small)
  moreover have "ucast ?v = st" by (rule bits32) (simp add: bit_simps)
  ultimately show ?thesis
    using False g GetVarint32_eq [of ?p] b by (simp add: getVarint32_def varint_bytes_def)
qed

interpretation varint32: byte_codec varint_bytes getVarint32 "\<lambda>v. v"
  by unfold_locales (rule read_varint_bytes)

interpretation serial_types: byte_codec "header_bytes ff4" getVarint32 "serial_type ff4" for ff4
  by unfold_locales (simp only: header_bytes_def read_varint_bytes)

text \<open>The data of the value is read back.\<close>

lemma at_bytes_map: "map (at_bytes (bs @ rest) r) [0..<length bs] = bs"
  by (rule nth_equalityI) (auto simp: at_bytes_def nth_append)

lemma serial_type_bytes:
  assumes "length bs \<le> 1000000000"
  shows "12 \<le> bytes_serial_type (length bs) s" "unat ((bytes_serial_type (length bs) s - 12) div 2) = length bs"
    "bytes_serial_type (length bs) s AND 1 = 1 \<longleftrightarrow> s" "SerialTypeLen (bytes_serial_type (length bs) s) = length bs"
proof -
  note u = unat_bytes_type [OF assms, of s]
  show ge: "12 \<le> bytes_serial_type (length bs) s" using u by (simp add: word_le_nat_alt)
  show "unat ((bytes_serial_type (length bs) s - 12) div 2) = length bs" using half_serial [OF ge] u by (cases s) simp_all
  show "SerialTypeLen (bytes_serial_type (length bs) s) = length bs" using SerialTypeLen_bytes [OF ge] u by (cases s) simp_all
  have "bytes_serial_type (length bs) s AND 1 = 1 \<longleftrightarrow> odd (unat (bytes_serial_type (length bs) s))"
    by (simp add: and_one_eq odd_iff_mod_2_eq_one [symmetric] bit_0 [symmetric] bit_unsigned_iff)
  then show "bytes_serial_type (length bs) s AND 1 = 1 \<longleftrightarrow> s" using u by (cases s) simp_all
qed

lemma read_payload:
  assumes "value_ok v"
  shows "SerialGet (at_bytes (payload_bytes ff4 v @ rest) r) (serial_type ff4 v) = nan_null v"
    "SerialTypeLen (serial_type ff4 v) = length (payload_bytes ff4 v)"
proof -
  have sizes: "SerialTypeLen 0 = 0" "SerialTypeLen 1 = 1" "SerialTypeLen 2 = 2" "SerialTypeLen 3 = 3" "SerialTypeLen 4 = 4"
    "SerialTypeLen 5 = 6" "SerialTypeLen 6 = 8" "SerialTypeLen 7 = 8" "SerialTypeLen 8 = 0" "SerialTypeLen 9 = 0"
    by (simp_all add: SerialTypeLen_def SmallTypeSizes_def word_le_nat_alt)
  have "SerialGet (at_bytes (payload_bytes ff4 v @ rest) r) (serial_type ff4 v) = nan_null v \<and>
      SerialTypeLen (serial_type ff4 v) = length (payload_bytes ff4 v)"
  proof (cases v)
    case SNull
    then show ?thesis by (simp add: SerialGet_def sizes payload_bytes_def)
  next
    case (SReal x)
    then show ?thesis using assms eight_byte [of x rest r]
      by (simp add: SerialGet_def serialGet_def sizes payload_bytes_def value_ok_def Let_def)
  next
    case (SText bs)
    then have l: "length bs \<le> 1000000000" using assms by (simp add: value_ok_def)
    note f = serial_type_bytes [OF l, of True]
    have "\<not> bytes_serial_type (length bs) True < 12" using f(1) by simp
    then show ?thesis using f SText at_bytes_map [of bs rest r]
      by (auto simp: SerialGet_def payload_bytes_def)
  next
    case (SBlob bs)
    then have l: "length bs \<le> 1000000000" using assms by (simp add: value_ok_def)
    note f = serial_type_bytes [OF l, of False]
    have "\<not> bytes_serial_type (length bs) False < 12" using f(1) by simp
    then show ?thesis using f SBlob at_bytes_map [of bs rest r]
      by (auto simp: SerialGet_def payload_bytes_def)
  next
    case (SInt i)
    show ?thesis
    proof (cases rule: int_type_cases [of ff4 i])
      case zero_one
      then have "serial_type ff4 v = 8 \<and> i = 0 \<or> serial_type ff4 v = 9 \<and> i = 1" using SInt by auto
      then show ?thesis using zero_one(4) SInt by (auto simp: SerialGet_def sizes payload_bytes_def)
    next
      case one
      then show ?thesis using SInt one_byte [of i rest r] by (simp add: SerialGet_def sizes payload_bytes_def)
    next
      case two
      then show ?thesis using SInt two_byte [of i rest r] by (simp add: SerialGet_def sizes payload_bytes_def)
    next
      case three
      then show ?thesis using SInt three_byte [of i rest r] by (simp add: SerialGet_def sizes payload_bytes_def)
    next
      case four
      then show ?thesis using SInt four_byte [of i rest r] by (simp add: SerialGet_def sizes payload_bytes_def)
    next
      case six
      then show ?thesis using SInt six_byte [of i rest r] by (simp add: SerialGet_def sizes payload_bytes_def)
    next
      case eight
      then show ?thesis using SInt eight_byte [of i rest r]
        by (simp add: SerialGet_def serialGet_def sizes payload_bytes_def Let_def)
    qed
  qed
  then show "SerialGet (at_bytes (payload_bytes ff4 v @ rest) r) (serial_type ff4 v) = nan_null v"
    "SerialTypeLen (serial_type ff4 v) = length (payload_bytes ff4 v)" by simp_all
qed

section \<open>Writing all fields\<close>

lemma store_append: "store (off + length xs) ys (store off xs m) = store off (xs @ ys) m"
  by (rule ext) (auto simp: store_def nth_append)

lemma store_Nil [simp]: "store off [] m = m"
  by (rule ext) (auto simp: store_def)

lemma store_commute: "a + length xs \<le> b \<Longrightarrow> store b ys (store a xs m) = store a xs (store b ys m)"
  by (rule ext) (auto simp: store_def)

lemma write_field:
  "write_fields ff4 (v # vs) h p m =
     write_fields ff4 vs (h + length (header_bytes ff4 v)) (p + length (payload_bytes ff4 v))
       (store p (payload_bytes ff4 v) (store h (header_bytes ff4 v) m))"
  if "value_ok v"
proof (cases v)
  case SNull
  then show ?thesis by (simp add: header_bytes_def varint_bytes_def payload_bytes_def)
next
  case (SReal x)
  then show ?thesis by (simp add: header_bytes_def varint_bytes_def payload_bytes_def SmallTypeSizes_def)
next
  case (SInt i)
  show ?thesis
  proof (cases rule: int_type_cases [of ff4 i])
    case zero_one
    then have "serial_type ff4 v = 8 \<or> serial_type ff4 v = 9" using SInt by auto
    then show ?thesis using zero_one(4) SInt
      by (auto simp: header_bytes_def varint_bytes_def payload_bytes_def be_bytes_def)
  qed (simp_all add: SInt header_bytes_def varint_bytes_def payload_bytes_def SmallTypeSizes_def Let_def)
next
  case (SText bs)
  then have l: "length bs \<le> 1000000000" using that by (simp add: value_ok_def)
  note u = unat_bytes_type [OF l, of True]
  show ?thesis using SText u
    by (cases bs) (auto simp: header_bytes_def varint_bytes_def payload_bytes_def word_le_nat_alt word_less_nat_alt Let_def)
next
  case (SBlob bs)
  then have l: "length bs \<le> 1000000000" using that by (simp add: value_ok_def)
  note u = unat_bytes_type [OF l, of False]
  show ?thesis using SBlob u
    by (cases bs) (auto simp: header_bytes_def varint_bytes_def payload_bytes_def word_le_nat_alt word_less_nat_alt Let_def)
qed

lemma write_fields_eq:
  assumes "list_all value_ok vs" "h + length (concat (map (header_bytes ff4) vs)) \<le> p"
  shows "write_fields ff4 vs h p m =
    (h + length (concat (map (header_bytes ff4) vs)), p + length (concat (map (payload_bytes ff4) vs)),
     store p (concat (map (payload_bytes ff4) vs)) (store h (concat (map (header_bytes ff4) vs)) m))"
  using assms
proof (induction vs arbitrary: h p m)
  case (Cons v vs)
  have ok: "value_ok v" "list_all value_ok vs" using Cons.prems(1) by simp_all
  have h: "h + length (header_bytes ff4 v) + length (concat (map (header_bytes ff4) vs)) \<le> p + length (payload_bytes ff4 v)"
    using Cons.prems(2) by simp
  let ?hv = "header_bytes ff4 v" let ?pv = "payload_bytes ff4 v"
  let ?hs = "concat (map (header_bytes ff4) vs)" let ?ps = "concat (map (payload_bytes ff4) vs)"
  have "h + length ?hv + length ?hs \<le> p" using Cons.prems(2) by simp
  then have "store (h + length ?hv) ?hs (store p ?pv (store h ?hv m)) = store p ?pv (store h (?hv @ ?hs) m)"
    using store_commute [of "h + length ?hv" ?hs p ?pv "store h ?hv m"] by (simp add: store_append)
  then show ?case
    unfolding write_field [OF ok(1)] Cons.IH [OF ok(2) h]
    by (simp add: store_append add.assoc)
qed simp

section \<open>The whole record\<close>

lemma header_fits:
  assumes "h \<le> 1000000000" "N = full_header_size h"
  shows "N = length (if N < 0x80 then [of_nat N] else PutVarint (of_nat N)) + h"
proof (cases "h \<le> 126")
  case True
  then show ?thesis using assms by (simp add: full_header_size_def)
next
  case False
  let ?l = "\<lambda>n. VarintLen (of_nat n)"
  let ?k = "?l h"
  have u: "unat (of_nat n :: u64) = n" if "n < 2000000000" for n
    using that by (simp add: unat_of_nat)
  have iff: "?l n \<le> k \<longleftrightarrow> n < 2 ^ (7 * k)" if "n < 2000000000" "0 < k" for n k
    using VarintLen_iff [OF that(2), of "of_nat n"] by (simp only: u [OF that(1)])
  have k: "0 < ?k" "?k \<le> 9" using VarintLen_pos [of "of_nat h"] iff [of h 9] assms(1) by simp_all
  have h: "h < 2 ^ (7 * ?k)" using iff [of h ?k] k assms(1) by simp
  have len: "length (PutVarint (of_nat n)) = ?l n" if "n < 2000000000" for n
    using that by (intro length_PutVarint_small) (simp add: u)
  define M where "M = h + ?k"
  have M: "M < 1500000000" using assms(1) k by (simp add: M_def)
  show ?thesis
  proof (cases "?k < ?l M")
    case True
    have N: "N = M + 1" using False True assms(2) by (simp add: full_header_size_def M_def Let_def)
    have ge: "2 ^ (7 * ?k) \<le> M + 1" using True iff [of M ?k] M k by simp
    have "M + 1 < 2 ^ (7 * (?k + 1))"
    proof -
      have "7 * ?k < 2 ^ (7 * ?k)" by (rule less_exp)
      then have "M + 1 < 128 * 2 ^ (7 * ?k)" using h k unfolding M_def by linarith
      then show ?thesis by (simp add: power_add)
    qed
    then have "?l (M + 1) \<le> ?k + 1" using iff [of "M + 1" "?k + 1"] M by simp
    moreover have "\<not> ?l (M + 1) \<le> ?k" using iff [of "M + 1" ?k] ge M k by simp
    ultimately have "?l (M + 1) = ?k + 1" by simp
    then show ?thesis using N False k len [of "M + 1"] M by (simp add: M_def)
  next
    case no: False
    have N: "N = M" using False no assms(2) by (simp add: full_header_size_def M_def Let_def)
    have "\<not> ?l M \<le> ?k - 1" if k1: "?k \<noteq> 1"
    proof -
      have pos: "0 < ?k - 1" using k1 k by simp
      have "\<not> ?k \<le> ?k - 1" using k by simp
      then have "\<not> h < 2 ^ (7 * (?k - 1))" using iff [OF _ pos, of h] assms(1) by simp
      then have "\<not> M < 2 ^ (7 * (?k - 1))" unfolding M_def by linarith
      then show ?thesis using iff [OF _ pos, of M] M by simp
    qed
    then have "?l M = ?k" using no VarintLen_pos [of "of_nat M"] by (cases "?k = 1") simp_all
    then show ?thesis using N False k len [of M] M by (simp add: M_def)
  qed
qed

lemma at_bytes_all: "store 0 bs m = at_bytes bs (offset (length bs) m)"
  by (rule ext) (auto simp: store_def at_bytes_def offset_def)

lemma unat_small: "n \<le> 1000000000 \<Longrightarrow> unat (of_nat n :: u32) = n"
  by (simp add: unat_of_nat)

lemma of_nat_less_small: "a \<le> 1000000000 \<Longrightarrow> b \<le> 1000000000 \<Longrightarrow> of_nat a < (of_nat b :: u32) \<longleftrightarrow> a < b"
  by (simp only: word_less_nat_alt unat_small)

abbreviation headers :: "bool \<Rightarrow> sql_value list \<Rightarrow> u8 list" where
  "headers ff4 vs \<equiv> concat (map (header_bytes ff4) vs)"

abbreviation payloads :: "bool \<Rightarrow> sql_value list \<Rightarrow> u8 list" where
  "payloads ff4 vs \<equiv> concat (map (payload_bytes ff4) vs)"

lemma length_headers: "length (headers ff4 vs) = sum_list (map (header_size ff4) vs)"
  by (induction vs) (simp_all add: length_header)

lemma length_payloads: "length (payloads ff4 vs) = sum_list (map (data_size ff4) vs)"
  by (induction vs) (simp_all add: length_payload)

lemma header_pos: "0 < length (header_bytes ff4 v)"
  using VarintLen_pos by (cases v) (auto simp: length_header Suc_le_eq)

text \<open>The fields behind the prefix \<open>xs\<close> of the header and the prefix \<open>ys\<close> of the data.\<close>

lemma unpack_written:
  assumes "list_all value_ok vs" "length vs \<le> Suc k"
    and "nKey = length (xs @ headers ff4 vs @ ys @ payloads ff4 vs)" "nKey \<le> 1000000000"
  shows "unpack_fields k (at_bytes (xs @ headers ff4 vs @ ys @ payloads ff4 vs) r) nKey
      (of_nat (length (xs @ headers ff4 vs))) (of_nat (length xs)) (of_nat (length (xs @ headers ff4 vs @ ys))) = (map nan_null vs, of_nat nKey)"
  using assms
proof (induction vs arbitrary: k xs ys)
  case Nil
  then show ?case by (simp add: unpack_fields.simps)
next
  case (Cons v vs)
  let ?hv = "header_bytes ff4 v" let ?pv = "payload_bytes ff4 v"
  let ?hs = "headers ff4 vs" let ?ps = "payloads ff4 vs"
  let ?m = "at_bytes (xs @ (?hv @ ?hs) @ ys @ ?pv @ ?ps) r"
  have v: "value_ok v" and vs: "list_all value_ok vs" using Cons.prems(1) by simp_all
  have n: "length (xs @ (?hv @ ?hs) @ ys @ ?pv @ ?ps) \<le> 1000000000" "nKey = length (xs @ (?hv @ ?hs) @ ys @ ?pv @ ?ps)"
    using Cons.prems(3,4) by simp_all
  let ?i = "of_nat (length xs) :: u32" let ?s = "of_nat (length (xs @ ?hv @ ?hs)) :: u32"
  let ?d = "of_nat (length (xs @ (?hv @ ?hs) @ ys)) :: u32"
  have ui: "unat ?i = length xs" and ud: "unat ?d = length (xs @ (?hv @ ?hs) @ ys)"
    by (rule unat_small, use n(1) in simp)+
  have c: "?i < ?s" using n(1) header_pos [of ff4 v] by (subst of_nat_less_small) simp_all
  have h: "getVarint32 (offset (unat ?i) ?m) = (length ?hv, serial_type ff4 v)"
    unfolding ui using serial_types.read_at [of _ xs ff4 v "?hs @ ys @ ?pv @ ?ps" r] by simp
  have p: "SerialGet (offset (unat ?d) ?m) (serial_type ff4 v) = nan_null v"
    unfolding ud using read_payload(1) [OF v, of ff4 ?ps r] offset_at_bytes [of _ "xs @ (?hv @ ?hs) @ ys" "?pv @ ?ps" r] by simp
  have l: "SerialTypeLen (serial_type ff4 v) = length ?pv" by (rule read_payload(2) [OF v])
  have step: "unpack_fields k ?m nKey ?s ?i ?d =
      (case k of 0 \<Rightarrow> ([nan_null v], ?d + of_nat (length ?pv))
       | Suc k1 \<Rightarrow> let (vs, d2) = unpack_fields k1 ?m nKey ?s (?i + of_nat (length ?hv)) (?d + of_nat (length ?pv)) in (nan_null v # vs, d2))"
  proof -
    have "unat ?d \<le> nKey" unfolding ud using n(2) by simp
    then show ?thesis unfolding unpack_fields.simps [of k] h p l
      using c by (simp only: if_True simp_thms Let_def prod.case p l)
  qed
  show ?case
  proof (cases k)
    case 0
    then have "vs = []" using Cons.prems(2) by simp
    then show ?thesis using step n(2) 0 by (simp add: add_ac)
  next
    case (Suc k1)
    have "unpack_fields k1 (at_bytes ((xs @ ?hv) @ ?hs @ (ys @ ?pv) @ ?ps) r) nKey
      (of_nat (length ((xs @ ?hv) @ ?hs))) (of_nat (length (xs @ ?hv))) (of_nat (length ((xs @ ?hv) @ ?hs @ (ys @ ?pv)))) = (map nan_null vs, of_nat nKey)"
      by (rule Cons.IH [OF vs]) (use Cons.prems(2-4) Suc in simp_all)
    then show ?thesis using step Suc by (simp add: add_ac)
  qed
qed

lemma make_record_bytes:
  assumes "make_record ff4 szMalloc limit vs m = Some (m', n)" "n \<le> 1000000000"
  obtains xs where "m' = at_bytes (xs @ headers ff4 vs @ payloads ff4 vs) (offset n m)"
    "n = length (xs @ headers ff4 vs @ payloads ff4 vs)"
    "xs = varint_bytes (of_nat (length (xs @ headers ff4 vs)))" "list_all value_ok vs"
proof -
  let ?h = "sum_list (map (header_size ff4) vs)"
  define N where "N = full_header_size ?h"
  define xs where "xs = (if N < 0x80 then [of_nat N] else PutVarint (of_nat N))"
  obtain a b where w: "write_fields ff4 vs (length xs) N (store 0 xs m) = (a, b, m')" and n: "n = N + sum_list (map (data_size ff4) vs)"
    using assms(1) by (auto simp: make_record_def Let_def N_def xs_def split: if_splits prod.splits)
  have "?h \<le> N" by (simp add: N_def full_header_size_def Let_def)
  then have N: "N = length (xs @ headers ff4 vs)"
    using header_fits [of ?h N] n assms(2) by (simp add: N_def xs_def length_headers)
  have nn: "n = length (xs @ headers ff4 vs @ payloads ff4 vs)" using n N by (simp add: length_payloads)
  have vals: "list_all value_ok vs"
  proof (unfold list_all_iff, intro ballI)
    fix v assume "v \<in> set vs"
    then have "data_size ff4 v \<le> sum_list (map (data_size ff4) vs)" by (intro member_le_sum_list) simp_all
    then have "data_size ff4 v \<le> 1000000000" using n assms(2) by linarith
    then show "value_ok v" by (cases v) (simp_all add: value_ok_def)
  qed
  have "m' = store N (payloads ff4 vs) (store (length xs) (headers ff4 vs) (store 0 xs m))"
    using w write_fields_eq [OF vals, of "length xs" ff4 N "store 0 xs m"] N by simp
  also have "\<dots> = store 0 (xs @ headers ff4 vs @ payloads ff4 vs) m"
    using store_append [of 0 xs "headers ff4 vs" m] store_append [of 0 "xs @ headers ff4 vs" "payloads ff4 vs" m] N by simp
  also have "\<dots> = at_bytes (xs @ headers ff4 vs @ payloads ff4 vs) (offset n m)" by (simp only: at_bytes_all nn)
  finally have m': "m' = at_bytes (xs @ headers ff4 vs @ payloads ff4 vs) (offset n m)" .
  have small: "N \<le> 1000000000" using n assms(2) by linarith
  have "xs = varint_bytes (of_nat N)"
  proof (cases "N < 0x80")
    case True
    then have "unat (of_nat N :: u32) < 0x80" using small by (simp add: unat_small)
    moreover have "(ucast (of_nat N :: u32) :: u8) = of_nat N" by (rule bits8) (simp add: bit_simps)
    ultimately show ?thesis using True by (simp add: xs_def varint_bytes_def word_less_nat_alt)
  next
    case False
    then have "\<not> unat (of_nat N :: u32) < 0x80" using small by (simp add: unat_small)
    moreover have "(ucast (of_nat N :: u32) :: u64) = of_nat N"
      by (simp add: word_unat_eq_iff ucast_small unat_small [OF small] unat_of_nat) (use small in simp)
    ultimately show ?thesis using False by (simp add: xs_def varint_bytes_def word_less_nat_alt)
  qed
  then show thesis using that m' nn vals unfolding N by blast
qed

text \<open>The bytes of a record are read back wherever they stand in the memory.\<close>

lemma record_read:
  assumes "list_all value_ok vs" "xs = varint_bytes (of_nat (length (xs @ headers ff4 vs)))"
    and "n = length (xs @ headers ff4 vs @ payloads ff4 vs)" "n \<le> 1000000000" "length vs \<le> nField"
  shows "record_unpack n (at_bytes (xs @ headers ff4 vs @ payloads ff4 vs) r) nField = map nan_null vs"
proof -
  let ?m = "at_bytes (xs @ headers ff4 vs @ payloads ff4 vs) r"
  let ?s = "of_nat (length (xs @ headers ff4 vs)) :: u32"
  have hd: "getVarint32 ?m = (length xs, ?s)"
    using varint32.read_back [of ?s "headers ff4 vs @ payloads ff4 vs" r] assms(2) by simp
  have "length vs \<le> Suc (nField - 1)" using assms(5) by simp
  then have u: "unpack_fields (nField - 1) ?m n ?s (of_nat (length xs)) ?s = (map nan_null vs, of_nat n)"
    using unpack_written [OF assms(1), of "nField - 1" n xs ff4 "[]" r] assms(3,4) by simp
  show ?thesis unfolding record_unpack_def hd using u unat_small [OF assms(4)] by simp
qed

section \<open>Properties\<close>

text \<open>
  C18: A record that the virtual machine writes is read back value by value, a NaN as null: whatever
  the values are and wherever the header's own length pushes it to one more byte, as long as the
  record is not longer than the default limit of SQLite, a thousand million bytes. The bytes after
  the record are not written.
\<close>

theorem record_round_trip:
  assumes "make_record ff4 szMalloc limit vs m = Some (m', n)" "n \<le> 1000000000"
    and "vs \<noteq> []" "length vs \<le> nField"
  shows "record_unpack n m' nField = map nan_null vs \<and> offset n m' = offset n m"
proof -
  obtain xs where m': "m' = at_bytes (xs @ headers ff4 vs @ payloads ff4 vs) (offset n m)"
    and n: "n = length (xs @ headers ff4 vs @ payloads ff4 vs)"
    and xs: "xs = varint_bytes (of_nat (length (xs @ headers ff4 vs)))" and ok: "list_all value_ok vs"
    by (rule make_record_bytes [OF assms(1,2)])
  have "record_unpack n m' nField = map nan_null vs"
    unfolding m' by (rule record_read [OF ok xs n assms(2,4)])
  moreover have "offset n m' = offset n m"
    using offset_at_bytes [of n "xs @ headers ff4 vs @ payloads ff4 vs" "[]" "offset n m"] n
    by (simp add: m' at_bytes_def offset_def)
  ultimately show ?thesis ..
qed

definition row :: "sql_value list" where
  "row = [SInt (- 300), SText [0x61, 0x62, 0x63], SNull, SInt 1, SReal 0x3ff8000000000000, SBlob [0, 255], SReal 0x7ff8000000000000]"

definition row_record :: "mem \<times> nat" where
  "row_record = the (make_record True 0 1000 row (\<lambda>i. 7))"

lemma row_made: "make_record True 0 1000 row (\<lambda>i. 7) = Some (fst row_record, 31)"
proof -
  have "map_option snd (make_record True 0 1000 row (\<lambda>i. 7)) = Some 31" by code_simp
  then show ?thesis by (auto simp: row_record_def)
qed

theorem record_round_trip_witness:
  "record_unpack 31 (fst row_record) 7 =
     [SInt (- 300), SText [0x61, 0x62, 0x63], SNull, SInt 1, SReal 0x3ff8000000000000, SBlob [0, 255], SNull] \<and>
   fst row_record 31 = 7"
proof -
  have r: "row \<noteq> []" "length row \<le> 7" by (simp_all add: row_def)
  note u = record_round_trip [OF row_made _ r]
  have "IsNaN 0x7ff8000000000000" "\<not> IsNaN 0x3ff8000000000000" by code_simp+
  then have "map nan_null row =
     [SInt (- 300), SText [0x61, 0x62, 0x63], SNull, SInt 1, SReal 0x3ff8000000000000, SBlob [0, 255], SNull]"
    by (simp add: row_def)
  moreover have "offset 31 (fst row_record) 0 = offset 31 (\<lambda>i. 7) 0" using u by simp
  ultimately show ?thesis using u by (simp add: offset_def)
qed

end
