(* ===== verification/SqlCell.thy ===== *)
theory SqlCell
  imports SqlRecordLib
begin

text \<open>
  Cells of the B-tree pages of SQLite (\<^verbatim>\<open>sqlite/sqlite3.c\<close>, section \<^verbatim>\<open>btree.c\<close>): the kinds of
  pages (\<open>decodeFlags\<close>) with the limits of the payload that stays on the page, the three functions that
  parse a cell, the four that compute its size, and the part of \<open>fillInCell\<close> that lays out a new cell
  up to the first byte that spills to another page. A pointer into the cell is an offset from its
  start; \<open>xParseCell\<close> and \<open>xCellSize\<close> name the function they point to. Overflow pages are not modelled.

  The varints of a cell are decoded in line. The functions differ from \<open>sqlite3GetVarint32\<close> (see
  \<open>payload_varint_differs\<close>), but not on what the writer stores.
\<close>

type_synonym u16 = "16 word"

section \<open>Pages\<close>

datatype parse_method = ParsePtr | ParsePtrNoPayload | ParsePtrIndex
datatype size_method = SizePtr | SizePtrIdxLeaf | SizePtrNoPayload | SizePtrTableLeaf

record bt_shared =
  usableSize :: u32
  bt_maxLocal :: u16
  bt_minLocal :: u16
  bt_maxLeaf :: u16
  bt_minLeaf :: u16

text \<open>The limits that \<open>lockBtree\<close> computes from the usable size of a page.\<close>

definition bt_limits :: "u32 \<Rightarrow> bt_shared" where
  "bt_limits usable =
     \<lparr>usableSize = usable,
      bt_maxLocal = ucast ((usable - 12) * 64 div 255 - 23),
      bt_minLocal = ucast ((usable - 12) * 32 div 255 - 23),
      bt_maxLeaf = ucast (usable - 35),
      bt_minLeaf = ucast ((usable - 12) * 32 div 255 - 23)\<rparr>"

record mem_page =
  intKey :: bool
  intKeyLeaf :: bool
  leaf :: bool
  childPtrSize :: nat
  maxLocal :: u16
  minLocal :: u16
  xCellSize :: size_method
  xParseCell :: parse_method
  pBt :: bt_shared

definition PTF_INTKEY :: int where "PTF_INTKEY = 1"
definition PTF_ZERODATA :: int where "PTF_ZERODATA = 2"
definition PTF_LEAFDATA :: int where "PTF_LEAFDATA = 4"
definition PTF_LEAF :: int where "PTF_LEAF = 8"

text \<open>The page, and whether the flags are those of no supported page; then the limits keep their value.\<close>

definition decodeFlags :: "mem_page \<Rightarrow> int \<Rightarrow> bool \<times> mem_page" where
  "decodeFlags pg flagByte =
     (if flagByte \<ge> (PTF_ZERODATA OR PTF_LEAF) then
        let pg = pg\<lparr>childPtrSize := 0, leaf := True\<rparr> in
        if flagByte = (PTF_LEAFDATA OR PTF_INTKEY OR PTF_LEAF) then
          (True, pg\<lparr>intKeyLeaf := True, xCellSize := SizePtrTableLeaf, xParseCell := ParsePtr, intKey := True,
                   maxLocal := bt_maxLeaf (pBt pg), minLocal := bt_minLeaf (pBt pg)\<rparr>)
        else if flagByte = (PTF_ZERODATA OR PTF_LEAF) then
          (True, pg\<lparr>intKey := False, intKeyLeaf := False, xCellSize := SizePtrIdxLeaf, xParseCell := ParsePtrIndex,
                   maxLocal := bt_maxLocal (pBt pg), minLocal := bt_minLocal (pBt pg)\<rparr>)
        else
          (False, pg\<lparr>intKey := False, intKeyLeaf := False, xCellSize := SizePtrIdxLeaf, xParseCell := ParsePtrIndex\<rparr>)
      else
        let pg = pg\<lparr>childPtrSize := 4, leaf := False\<rparr> in
        if flagByte = PTF_ZERODATA then
          (True, pg\<lparr>intKey := False, intKeyLeaf := False, xCellSize := SizePtr, xParseCell := ParsePtrIndex,
                   maxLocal := bt_maxLocal (pBt pg), minLocal := bt_minLocal (pBt pg)\<rparr>)
        else if flagByte = (PTF_LEAFDATA OR PTF_INTKEY) then
          (True, pg\<lparr>intKeyLeaf := False, xCellSize := SizePtrNoPayload, xParseCell := ParsePtrNoPayload, intKey := True,
                   maxLocal := bt_maxLeaf (pBt pg), minLocal := bt_minLeaf (pBt pg)\<rparr>)
        else
          (False, pg\<lparr>intKey := False, intKeyLeaf := False, xCellSize := SizePtr, xParseCell := ParsePtrIndex\<rparr>))"

section \<open>Parsing a cell\<close>

record cell_info =
  nKey :: u64
  pPayload :: "nat option"
  nPayload :: u32
  nLocal :: u16
  nSize :: u16

text \<open>The loop in the varint of the payload's size, of the width of the variable it is in.\<close>

function payload_loop :: "mem \<Rightarrow> nat \<Rightarrow> 'a::len word \<Rightarrow> nat \<times> 'a word" where
  "payload_loop p i n =
     (let i' = i + 1; n' = push_bit 7 n OR ucast (p i' AND 0x7f)
      in if p i' \<ge> 0x80 \<and> i' < 8 then payload_loop p i' n' else (i', n'))"
  by pat_completeness auto

termination
  by (relation "measure (\<lambda>(p, i, n). 8 - i)") auto

text \<open>The varint: its length and its value.\<close>

definition payload_varint :: "mem \<Rightarrow> nat \<times> 'a::len word" where
  "payload_varint p =
     (if p 0 \<ge> 0x80 then case payload_loop p 0 (ucast (p 0) AND 0x7f) of (i, n) \<Rightarrow> (i + 1, n)
      else (1, ucast (p 0)))"

text \<open>The unrolled varint of the key; the constants remove the flag bits that were shifted in.\<close>

definition key_varint :: "mem \<Rightarrow> nat \<times> u64" where
  "key_varint p =
     (let k = ucast (p 0) in if \<not> p 0 \<ge> 0x80 then (1, k) else
      let x = p 1; k = push_bit 7 k XOR ucast x in if \<not> x \<ge> 0x80 then (2, k XOR 0x4000) else
      let x = p 2; k = push_bit 7 k XOR ucast x in if \<not> x \<ge> 0x80 then (3, k XOR 0x204000) else
      let x = p 3; k = push_bit 7 k XOR 0x10204000 XOR ucast x in if \<not> x \<ge> 0x80 then (4, k) else
      let x = p 4; k = push_bit 7 k XOR 0x4000 XOR ucast x in if \<not> x \<ge> 0x80 then (5, k) else
      let x = p 5; k = push_bit 7 k XOR 0x4000 XOR ucast x in if \<not> x \<ge> 0x80 then (6, k) else
      let x = p 6; k = push_bit 7 k XOR 0x4000 XOR ucast x in if \<not> x \<ge> 0x80 then (7, k) else
      let x = p 7; k = push_bit 7 k XOR 0x4000 XOR ucast x in if \<not> x \<ge> 0x80 then (8, k) else
      (9, push_bit 8 k XOR 0x8000 XOR ucast (p 8)))"

text \<open>The first two steps work on \<open>u32\<close> and \<open>int\<close>; the surplus is below the page size and fits both.\<close>

definition btreeParseCellAdjustSizeForOverflow :: "mem_page \<Rightarrow> nat \<Rightarrow> cell_info \<Rightarrow> cell_info" where
  "btreeParseCellAdjustSizeForOverflow pg payload info =
     (let surplus = ucast (minLocal pg) + (nPayload info - ucast (minLocal pg)) mod (usableSize (pBt pg) - 4);
          local = (if sint surplus \<le> uint (maxLocal pg) then ucast surplus else minLocal pg)
      in info\<lparr>nLocal := local, nSize := of_nat (payload + unat local) + 4\<rparr>)"

definition fit_cell :: "mem_page \<Rightarrow> nat \<Rightarrow> cell_info \<Rightarrow> cell_info" where
  "fit_cell pg payload info =
     (if nPayload info \<le> ucast (maxLocal pg) then
        let size = ucast (nPayload info) + of_nat payload
        in info\<lparr>nSize := (if size < 4 then 4 else size), nLocal := ucast (nPayload info)\<rparr>
      else btreeParseCellAdjustSizeForOverflow pg payload info)"

definition btreeParseCellPtrNoPayload :: "mem \<Rightarrow> cell_info" where
  "btreeParseCellPtrNoPayload cell =
     (case GetVarint (offset 4 cell) of
        (n, key) \<Rightarrow> \<lparr>nKey = key, pPayload = None, nPayload = 0, nLocal = 0, nSize = of_nat (4 + n)\<rparr>)"

definition btreeParseCellPtr :: "mem_page \<Rightarrow> mem \<Rightarrow> cell_info" where
  "btreeParseCellPtr pg cell =
     (let (n1, payload) = payload_varint cell :: nat \<times> u64;
          payload = payload AND 0xffffffff;
          (n2, key) = key_varint (offset n1 cell);
          iter = n1 + n2
      in fit_cell pg iter \<lparr>nKey = key, pPayload = Some iter, nPayload = ucast payload, nLocal = 0, nSize = 0\<rparr>)"

definition btreeParseCellPtrIndex :: "mem_page \<Rightarrow> mem \<Rightarrow> cell_info" where
  "btreeParseCellPtrIndex pg cell =
     (let (n, payload) = payload_varint (offset (childPtrSize pg) cell) :: nat \<times> u32;
          iter = childPtrSize pg + n
      in fit_cell pg iter \<lparr>nKey = ucast payload, pPayload = Some iter, nPayload = payload, nLocal = 0, nSize = 0\<rparr>)"

definition parse_cell :: "mem_page \<Rightarrow> mem \<Rightarrow> cell_info" where
  "parse_cell pg cell =
     (case xParseCell pg of
        ParsePtr \<Rightarrow> btreeParseCellPtr pg cell
      | ParsePtrNoPayload \<Rightarrow> btreeParseCellPtrNoPayload cell
      | ParsePtrIndex \<Rightarrow> btreeParseCellPtrIndex pg cell)"

section \<open>The size of a cell\<close>

definition spilled_size :: "mem_page \<Rightarrow> nat \<Rightarrow> u32 \<Rightarrow> u32" where
  "spilled_size pg iter n =
     (let n = ucast (minLocal pg) + (n - ucast (minLocal pg)) mod (usableSize (pBt pg) - 4);
          n = (if n > ucast (maxLocal pg) then ucast (minLocal pg) else n)
      in n + (4 + ucast (of_nat iter :: u16)))"

definition cellSizePtr :: "mem_page \<Rightarrow> mem \<Rightarrow> u16" where
  "cellSizePtr pg cell =
     (let (k, n) = payload_varint (offset 4 cell) :: nat \<times> u32; iter = 4 + k
      in ucast (if n \<le> ucast (maxLocal pg) then n + of_nat iter else spilled_size pg iter n))"

definition cellSizePtrIdxLeaf :: "mem_page \<Rightarrow> mem \<Rightarrow> u16" where
  "cellSizePtrIdxLeaf pg cell =
     (let (iter, n) = payload_varint cell :: nat \<times> u32
      in ucast (if n \<le> ucast (maxLocal pg) then (let n = n + of_nat iter in if n < 4 then 4 else n)
                else spilled_size pg iter n))"

text \<open>The loop over the bytes of a varint, at most \<open>k\<close> of them.\<close>

fun skip_varint :: "nat \<Rightarrow> mem \<Rightarrow> nat \<Rightarrow> nat" where
  "skip_varint 0 p i = i"
| "skip_varint (Suc k) p i = (if p i AND 0x80 \<noteq> 0 \<and> k \<noteq> 0 then skip_varint k p (i + 1) else i + 1)"

definition cellSizePtrNoPayload :: "mem \<Rightarrow> u16" where
  "cellSizePtrNoPayload cell = of_nat (skip_varint 9 cell 4)"

text \<open>The key is skipped by a chain of eight tests that ends in a ninth step.\<close>

definition skip_key :: "mem \<Rightarrow> nat \<Rightarrow> nat" where
  "skip_key p i =
     (if p i AND 0x80 = 0 then i + 1 else if p (i + 1) AND 0x80 = 0 then i + 2
      else if p (i + 2) AND 0x80 = 0 then i + 3 else if p (i + 3) AND 0x80 = 0 then i + 4
      else if p (i + 4) AND 0x80 = 0 then i + 5 else if p (i + 5) AND 0x80 = 0 then i + 6
      else if p (i + 6) AND 0x80 = 0 then i + 7 else if p (i + 7) AND 0x80 = 0 then i + 8
      else i + 9)"

definition cellSizePtrTableLeaf :: "mem_page \<Rightarrow> mem \<Rightarrow> u16" where
  "cellSizePtrTableLeaf pg cell =
     (let (k, n) = payload_varint cell :: nat \<times> u32; iter = skip_key cell k
      in ucast (if n \<le> ucast (maxLocal pg) then (let n = n + of_nat iter in if n < 4 then 4 else n)
                else spilled_size pg iter n))"

definition cell_size :: "mem_page \<Rightarrow> mem \<Rightarrow> u16" where
  "cell_size pg cell =
     (case xCellSize pg of
        SizePtr \<Rightarrow> cellSizePtr pg cell
      | SizePtrIdxLeaf \<Rightarrow> cellSizePtrIdxLeaf pg cell
      | SizePtrNoPayload \<Rightarrow> cellSizePtrNoPayload cell
      | SizePtrTableLeaf \<Rightarrow> cellSizePtrTableLeaf pg cell)"

section \<open>Laying out a new cell\<close>

record btree_payload =
  x_nKey :: u64
  x_pKey :: "u8 list"
  x_pData :: "u8 list"
  x_nZero :: nat

text \<open>
  \<open>fillInCell\<close> up to the payload: the header, the payload's size and source, and what of it stays on the
  page. For a payload that fits, all of it is written. For a longer one the function goes on to
  overflow pages; here its local part and the place of the page number are laid out and not yet filled.
\<close>

record cell_layout =
  l_cell :: mem
  l_nHeader :: nat
  l_nPayload :: nat
  l_nSize :: nat
  l_spaceLeft :: nat

definition cell_source :: "mem_page \<Rightarrow> btree_payload \<Rightarrow> u8 list \<times> nat" where
  "cell_source pg x =
     (if intKey pg then (x_pData x, length (x_pData x) + x_nZero x) else (take (unat (x_nKey x)) (x_pKey x), unat (x_nKey x)))"

definition cell_header :: "mem_page \<Rightarrow> btree_payload \<Rightarrow> u8 list" where
  "cell_header pg x =
     (if intKey pg then varint_bytes (of_nat (snd (cell_source pg x))) @ PutVarint (x_nKey x)
      else varint_bytes (of_nat (snd (cell_source pg x))))"

definition fillInCell :: "mem_page \<Rightarrow> btree_payload \<Rightarrow> mem \<Rightarrow> cell_layout" where
  "fillInCell pg x cell =
     (let (src, payload) = cell_source pg x;
          hdr = childPtrSize pg + length (cell_header pg x);
          m = store (childPtrSize pg) (cell_header pg x) cell
      in if payload \<le> unat (maxLocal pg) then
           let n = hdr + payload;
               m = (if n < 4 then store (hdr + payload) [0] m else m);
               n = (if n < 4 then 4 else n)
           in \<lparr>l_cell = store (hdr + length src) (replicate (payload - length src) 0) (store hdr src m),
               l_nHeader = hdr, l_nPayload = payload, l_nSize = n, l_spaceLeft = payload\<rparr>
         else
           let mn = unat (minLocal pg);
               n = mn + (payload - mn) mod (unat (usableSize (pBt pg)) - 4);
               n = (if n > unat (maxLocal pg) then mn else n)
           in \<lparr>l_cell = m, l_nHeader = hdr, l_nPayload = payload, l_nSize = n + hdr + 4, l_spaceLeft = n\<rparr>)"

end
