(* ===== verification/SqlCellLib.thy ===== *)
theory SqlCellLib
  imports SqlCell
begin

text \<open>The varints of a cell, the agreement of the size functions with the parsers, and the layout of a new cell.\<close>

section \<open>Varints\<close>

text \<open>The number of bytes of a varint.\<close>

fun varint_end :: "nat \<Rightarrow> mem \<Rightarrow> nat \<Rightarrow> nat" where
  "varint_end 0 p i = i + 1"
| "varint_end (Suc k) p i = (if bit (p i) 7 then varint_end k p (i + 1) else i + 1)"

definition varint_len :: "mem \<Rightarrow> nat" where
  "varint_len p = varint_end 8 p 0"

lemma varint_len_eq:
  "varint_len p =
    (if \<not> bit (p 0) 7 then 1 else if \<not> bit (p 1) 7 then 2 else if \<not> bit (p 2) 7 then 3 else if \<not> bit (p 3) 7 then 4
     else if \<not> bit (p 4) 7 then 5 else if \<not> bit (p 5) 7 then 6 else if \<not> bit (p 6) 7 then 7 else if \<not> bit (p 7) 7 then 8 else 9)"
  by (simp add: varint_len_def eval_nat_numeral)

lemma varint_len_bounds: "1 \<le> varint_len p" "varint_len p \<le> 9"
  by (simp_all add: varint_len_eq)

lemma varint_spec_len:
  "varint_spec p = (varint_len p, if varint_len p = 9 then push_bit 8 (groups p 8) OR ucast (p 8) else groups p (varint_len p))"
  by (simp add: varint_spec_eq varint_len_eq)

lemma large_byte: "b \<ge> 0x80 \<longleftrightarrow> bit b 7" for b :: u8
proof
  assume "b \<ge> 0x80"
  then have "\<not> unat b < 2 ^ 7" by (simp add: word_le_nat_alt)
  then have "drop_bit 7 b \<noteq> 0" using drop_bit_0_unat [of 7 b] by blast
  then obtain n where "bit (drop_bit 7 b) n" by (auto simp: word_eq_0_bits)
  then have "bit b (7 + n)" by (simp add: bit_drop_bit_eq)
  then have "n = 0" using bit_u8_high [of "7 + n" b] by (cases n) simp_all
  then show "bit b 7" using \<open>bit b (7 + n)\<close> by simp
next
  assume "bit b 7"
  then show "b \<ge> 0x80" using small_byte_bit by (meson not_le)
qed

lemma low_bits: "\<not> bit b 7 \<Longrightarrow> bit b n \<Longrightarrow> n < 7" for b :: u8
  using bit_u8_high [of n b] by (cases "n = 7"; cases "8 \<le> n") auto

lemma key_varint_eq: "key_varint p = GetVarint p"
  unfolding GetVarint_spec varint_spec_eq key_varint_def Let_def large_byte
  apply (intro if_cong [OF refl])
  apply (simp_all only: prod.inject simp_thms)
  apply (rule bits64, simp add: groups_bits; fail)+
  done

lemma skip_varint_eq: "skip_varint 9 p i = i + varint_len (offset i p)"
  by (simp add: eval_nat_numeral varint_len_eq and_0x80_u8 offset_def)

lemma skip_key_eq: "skip_key p i = i + varint_len (offset i p)"
  by (simp add: skip_key_def varint_len_eq and_0x80_u8 offset_def)

text \<open>The loop of the payload's size gathers the same groups, of the width of its variable.\<close>

lemma and_0x7f: "w AND 0x7f = take_bit 7 w" for w :: "'a::len word"
  by (simp add: take_bit_eq_mask mask_eq_exp_minus_1)

lemma group_step:
  "LENGTH('a::len) \<le> 64 \<Longrightarrow>
   push_bit 7 (ucast g :: 'a word) OR ucast (b AND 0x7f) = ucast (push_bit 7 g OR (ucast b AND 0x7f))"
  for g :: u64 and b :: u8
  by (rule bit_word_eqI) (auto simp: and_0x7f bit_simps bit_u8_high)

declare payload_loop.simps [simp del]

lemma payload_loop_eq:
  assumes "LENGTH('a::len) \<le> 64" "i \<le> 7"
  shows "payload_loop p i (ucast (groups p (i + 1)) :: 'a word) =
    (varint_end (7 - i) p (i + 1) - 1, ucast (groups p (varint_end (7 - i) p (i + 1))))"
  using assms(2)
proof (induction "7 - i" arbitrary: i)
  case 0
  then have "i = 7" by simp
  moreover have "groups p 9 = push_bit 7 (groups p 8) OR (ucast (p 8) AND 0x7f)" by (simp add: eval_nat_numeral)
  ultimately show ?case by (simp add: payload_loop.simps group_step [OF assms(1)])
next
  case (Suc k)
  then have k: "7 - i = Suc k" "k = 7 - (i + 1)" "i + 1 \<le> 7" by simp_all
  show ?case
    using Suc.hyps(1) [OF k(2,3)] k
    by (simp add: payload_loop.simps [of p i] group_step [OF assms(1)] large_byte flip: k(2))
qed

lemma payload_varint_eq:
  assumes "LENGTH('a::len) \<le> 64"
  shows "payload_varint p = (varint_len p, ucast (groups p (varint_len p)) :: 'a word)"
proof -
  have "varint_end 7 p 1 \<noteq> 0" by (simp add: eval_nat_numeral)
  moreover have "(ucast (p 0) AND 0x7f :: 'a word) = ucast (groups p 1)"
    using assms by (intro bit_word_eqI) (auto simp: and_0x7f bit_simps groups_simps)
  moreover have "(ucast (p 0) :: 'a word) = ucast (groups p 1)" if "\<not> bit (p 0) 7"
    using assms that by (intro bit_word_eqI) (auto simp: and_0x7f bit_simps groups_simps low_bits)
  ultimately show ?thesis
    using payload_loop_eq [OF assms, of 0 p] by (simp add: payload_varint_def large_byte varint_len_def eval_nat_numeral)
qed

section \<open>The limits of a page\<close>

lemma unat_u16_u32: "unat (ucast w :: u32) = unat w" for w :: u16
  using unsigned_less [of w, where 'a = nat] by (simp add: unsigned_ucast_eq take_bit_nat_eq_self_iff)

lemma unat_u32_u16: "unat w < 65536 \<Longrightarrow> unat (ucast w :: u16) = unat w" for w :: u32
  by (simp add: unsigned_ucast_eq take_bit_nat_eq_self_iff)

lemma limits_nat:
  fixes usable :: u32
  assumes "480 \<le> unat usable" "unat usable \<le> 65536"
  shows "unat (bt_maxLocal (bt_limits usable)) = (unat usable - 12) * 64 div 255 - 23"
    "unat (bt_minLocal (bt_limits usable)) = (unat usable - 12) * 32 div 255 - 23"
    "unat (bt_maxLeaf (bt_limits usable)) = unat usable - 35"
    "unat (bt_minLeaf (bt_limits usable)) = (unat usable - 12) * 32 div 255 - 23"
proof -
  define u where "u = unat usable"
  have u: "480 \<le> u" "u \<le> 65536" and usable: "usable = of_nat u" using assms by (simp_all add: u_def)
  have small: "unat (of_nat n :: u32) = n" if "n < 4294967296" for n using that by (simp add: unat_of_nat)
  have part: "unat ((usable - 12) * of_nat k div 255 - 23) = (u - 12) * k div 255 - 23" if "k = 64 \<or> k = 32" for k
  proof -
    have "usable - 12 = of_nat (u - 12)" using u(1) by (simp add: usable of_nat_diff)
    then have "unat ((usable - 12) * of_nat k) = (u - 12) * k"
      using small [of "(u - 12) * k"] u(2) that by auto
    then have d: "unat ((usable - 12) * of_nat k div 255) = (u - 12) * k div 255" by (simp add: unat_div_distrib)
    have "(468 * 32) div 255 \<le> (u - 12) * k div 255" by (rule div_le_mono) (use u(1) that in auto)
    then have "(23 :: u32) \<le> (usable - 12) * of_nat k div 255" by (simp add: word_le_nat_alt d)
    then show ?thesis using unat_sub [of "23 :: u32"] by (simp add: d)
  qed
  have le: "(u - 12) * k div 255 - 23 < 65536" if "k \<le> 64" for k
  proof -
    have "(u - 12) * k \<le> 65524 * 64" using u(2) that by (intro mult_le_mono) auto
    then have "(u - 12) * k div 255 \<le> 65524 * 64 div 255" by (rule div_le_mono)
    then show ?thesis by simp
  qed
  show "unat (bt_maxLocal (bt_limits usable)) = (unat usable - 12) * 64 div 255 - 23"
    using part [of 64] le [of 64] by (simp add: bt_limits_def unat_u32_u16 flip: u_def)
  show "unat (bt_minLocal (bt_limits usable)) = (unat usable - 12) * 32 div 255 - 23"
    using part [of 32] le [of 32] by (simp add: bt_limits_def unat_u32_u16 flip: u_def)
  then show "unat (bt_minLeaf (bt_limits usable)) = (unat usable - 12) * 32 div 255 - 23"
    by (simp add: bt_limits_def)
  have "unat (usable - 35) = u - 35"
    using u(1) unat_sub [of 35 usable] by (simp add: word_le_nat_alt u_def)
  then show "unat (bt_maxLeaf (bt_limits usable)) = unat usable - 35"
    using u by (simp add: bt_limits_def unat_u32_u16 flip: u_def)
qed

text \<open>The pages that \<open>decodeFlags\<close> accepts.\<close>

definition btree_page :: "u32 \<Rightarrow> mem_page \<Rightarrow> bool" where
  "btree_page usable pg \<longleftrightarrow>
     480 \<le> unat usable \<and> unat usable \<le> 65536 \<and> (\<exists>pg0 flags. pBt pg0 = bt_limits usable \<and> decodeFlags pg0 flags = (True, pg))"

lemma btree_page_cases:
  assumes "btree_page usable pg"
  obtains (table_leaf) "intKey pg" "childPtrSize pg = 0" "xCellSize pg = SizePtrTableLeaf" "xParseCell pg = ParsePtr"
      "unat (maxLocal pg) = unat usable - 35" "unat (minLocal pg) \<le> unat (maxLocal pg)"
  | (index_leaf) "\<not> intKey pg" "childPtrSize pg = 0" "xCellSize pg = SizePtrIdxLeaf" "xParseCell pg = ParsePtrIndex"
      "unat (maxLocal pg) = (unat usable - 12) * 64 div 255 - 23" "unat (minLocal pg) \<le> unat (maxLocal pg)"
  | (index_interior) "\<not> intKey pg" "childPtrSize pg = 4" "xCellSize pg = SizePtr" "xParseCell pg = ParsePtrIndex"
      "unat (maxLocal pg) = (unat usable - 12) * 64 div 255 - 23" "unat (minLocal pg) \<le> unat (maxLocal pg)"
  | (table_interior) "intKey pg" "childPtrSize pg = 4" "xCellSize pg = SizePtrNoPayload" "xParseCell pg = ParsePtrNoPayload"
proof -
  obtain pg0 flags where d: "decodeFlags pg0 flags = (True, pg)" "pBt pg0 = bt_limits usable"
    and u: "480 \<le> unat usable" "unat usable \<le> 65536"
    using assms by (auto simp: btree_page_def)
  note l = limits_nat [OF u]
  have m: "(unat usable - 12) * 32 div 255 - 23 \<le> (unat usable - 12) * 64 div 255 - 23"
    by (intro diff_le_mono div_le_mono) simp
  have m': "(unat usable - 12) * 32 div 255 - 23 \<le> unat usable - 35"
  proof -
    have "(unat usable - 12) * 32 div 255 \<le> (unat usable - 12) * 255 div 255" by (intro div_le_mono) simp
    then show ?thesis by simp
  qed
  have "intKey pg \<and> childPtrSize pg = 0 \<and> xCellSize pg = SizePtrTableLeaf \<and> xParseCell pg = ParsePtr \<and>
        maxLocal pg = bt_maxLeaf (pBt pg0) \<and> minLocal pg = bt_minLeaf (pBt pg0)
    \<or> \<not> intKey pg \<and> childPtrSize pg = 0 \<and> xCellSize pg = SizePtrIdxLeaf \<and> xParseCell pg = ParsePtrIndex \<and>
        maxLocal pg = bt_maxLocal (pBt pg0) \<and> minLocal pg = bt_minLocal (pBt pg0)
    \<or> \<not> intKey pg \<and> childPtrSize pg = 4 \<and> xCellSize pg = SizePtr \<and> xParseCell pg = ParsePtrIndex \<and>
        maxLocal pg = bt_maxLocal (pBt pg0) \<and> minLocal pg = bt_minLocal (pBt pg0)
    \<or> intKey pg \<and> childPtrSize pg = 4 \<and> xCellSize pg = SizePtrNoPayload \<and> xParseCell pg = ParsePtrNoPayload"
    using d(1) unfolding decodeFlags_def Let_def
    by (simp only: prod.inject simp_thms split: if_split_asm) (hypsubst, simp)+
  then show thesis
  proof (elim disjE conjE)
    assume "intKey pg" "childPtrSize pg = 0" "xCellSize pg = SizePtrTableLeaf" "xParseCell pg = ParsePtr"
      "maxLocal pg = bt_maxLeaf (pBt pg0)" "minLocal pg = bt_minLeaf (pBt pg0)"
    then show thesis using m' by (intro table_leaf) (simp_all add: d(2) l)
  next
    assume "\<not> intKey pg" "childPtrSize pg = 0" "xCellSize pg = SizePtrIdxLeaf" "xParseCell pg = ParsePtrIndex"
      "maxLocal pg = bt_maxLocal (pBt pg0)" "minLocal pg = bt_minLocal (pBt pg0)"
    then show thesis using m by (intro index_leaf) (simp_all add: d(2) l)
  next
    assume "\<not> intKey pg" "childPtrSize pg = 4" "xCellSize pg = SizePtr" "xParseCell pg = ParsePtrIndex"
      "maxLocal pg = bt_maxLocal (pBt pg0)" "minLocal pg = bt_minLocal (pBt pg0)"
    then show thesis using m by (intro index_interior) (simp_all add: d(2) l)
  qed (rule table_interior)
qed

lemma btree_page_pBt: "btree_page usable pg \<Longrightarrow> pBt pg = bt_limits usable"
  unfolding btree_page_def decodeFlags_def Let_def
  by (elim exE conjE, simp only: prod.inject simp_thms split: if_split_asm) (hypsubst, simp)+

section \<open>The size functions agree with the parsers\<close>

lemma low16_add: "(ucast (a + b) :: u16) = ucast a + ucast b" for a b :: u32
proof (transfer, simp)
  fix a b :: int
  have "take_bit 16 (take_bit 32 a + take_bit 32 b) = take_bit 16 (take_bit 16 (take_bit 32 a) + take_bit 16 (take_bit 32 b))"
    by (simp only: take_bit_add)
  also have "\<dots> = take_bit 16 (a + b)" by (simp add: take_bit_take_bit take_bit_add)
  finally show "take_bit 16 (a + b) = take_bit 16 (take_bit 32 a + take_bit 32 b)" ..
qed

lemma low16_of_nat: "(ucast (of_nat n :: u32) :: u16) = of_nat n"
  by (rule bits16) (simp add: bit_simps)

lemma low16_numeral: "(ucast (4 :: u32) :: u16) = 4"
  by simp

lemma low16_back: "(ucast (ucast w :: u32) :: u16) = w" for w :: u16
  by (rule bits16) (simp add: bit_simps)

lemma surplus_small:
  assumes "usable = usableSize (pBt pg)" "480 \<le> unat usable" "unat usable \<le> 65536"
  shows "unat (ucast (minLocal pg) + (n - ucast (minLocal pg)) mod (usable - 4) :: u32) < 131072"
proof -
  have u: "unat (usable - 4) = unat usable - 4" using assms(2) unat_sub [of 4 usable] by (simp add: word_le_nat_alt)
  have "unat ((n - ucast (minLocal pg)) mod (usable - 4)) < unat usable - 4"
    using assms(2) by (simp add: unat_mod_distrib u)
  moreover have "unat (ucast (minLocal pg) :: u32) < 65536"
    using unsigned_less [of "minLocal pg", where 'a = nat] by (simp add: unat_u16_u32)
  ultimately have s: "unat (ucast (minLocal pg) :: u32) + unat ((n - ucast (minLocal pg)) mod (usable - 4)) < 131072"
    using assms(3) by linarith
  then show ?thesis by (subst unat_add_lem [THEN iffD1]) simp_all
qed

lemma sint_small: "sint w = int (unat w)" if w: "unat w < 131072" for w :: u32
proof -
  have "unat w < 2 ^ 31" using w by simp
  then have "drop_bit 31 w = 0" by (simp only: drop_bit_0_unat)
  then have "\<not> bit w 31" by (rule drop_bit_0_bit) simp
  then have "\<not> bit (uint w) 31" by (simp only: bit_uint_iff) simp
  then have "signed_take_bit 31 (uint w) = take_bit 31 (uint w)" by (rule signed_take_bit_eq_if_positive)
  also have "\<dots> = uint w"
  proof (rule take_bit_int_eq_self)
    have "int (unat w) < int 131072" using w by (simp only: of_nat_less_iff)
    moreover have "int 131072 < 2 ^ 31" by simp
    ultimately show "uint w < 2 ^ 31" unfolding uint_nat by (rule less_trans)
  qed simp
  finally have "signed_take_bit 31 (uint w) = uint w" .
  then show ?thesis unfolding sint_uint by (simp only: uint_nat) simp
qed

text \<open>One tail for the local payload and one for the payload that spills.\<close>

lemma fit_cell_spilled:
  assumes "\<not> nPayload info \<le> ucast (maxLocal pg)" "480 \<le> unat (usableSize (pBt pg))" "unat (usableSize (pBt pg)) \<le> 65536"
  shows "nSize (fit_cell pg iter info) = ucast (spilled_size pg iter (nPayload info))"
proof -
  let ?s = "ucast (minLocal pg) + (nPayload info - ucast (minLocal pg)) mod (usableSize (pBt pg) - 4) :: u32"
  have s: "unat ?s < 131072" by (rule surplus_small [OF refl assms(2,3)])
  have "sint ?s \<le> uint (maxLocal pg) \<longleftrightarrow> unat ?s \<le> unat (maxLocal pg)"
    unfolding sint_small [OF s] by (simp only: uint_nat of_nat_le_iff)
  also have "\<dots> \<longleftrightarrow> \<not> ?s > ucast (maxLocal pg)" by (simp only: word_less_nat_alt unat_u16_u32 not_less)
  finally have c: "sint ?s \<le> uint (maxLocal pg) \<longleftrightarrow> \<not> ?s > ucast (maxLocal pg)" .
  have e: "fit_cell pg iter info = btreeParseCellAdjustSizeForOverflow pg iter info"
    using assms(1) by (simp add: fit_cell_def)
  have low: "(ucast (w + (4 + ucast (of_nat iter :: u16))) :: u16) = of_nat (iter + unat (ucast w :: u16)) + 4" for w :: u32
    by (simp add: low16_add low16_back low16_numeral)
  show ?thesis
    unfolding e btreeParseCellAdjustSizeForOverflow_def spilled_size_def Let_def low c
    by (cases "?s > ucast (maxLocal pg)") (simp_all add: low16_back)
qed

lemma fit_cell_local:
  assumes "n \<le> ucast (maxLocal pg)" "nPayload info = n" "unat (maxLocal pg) + iter < 65536"
  shows "nSize (fit_cell pg iter info) = ucast (if n + of_nat iter < 4 then 4 else n + of_nat iter :: u32)"
    "4 \<le> iter \<Longrightarrow> nSize (fit_cell pg iter info) = ucast (n + of_nat iter :: u32)"
proof -
  have n: "unat n \<le> unat (maxLocal pg)" using assms(1) by (simp add: word_le_nat_alt unat_u16_u32)
  have u: "unat (n + of_nat iter :: u32) = unat n + iter"
  proof -
    have "unat (of_nat iter :: u32) = iter" using assms(3) by (simp add: unat_of_nat)
    then show ?thesis using n assms(3) by (subst unat_add_lem [THEN iffD1]) simp_all
  qed
  have t: "(ucast n + of_nat iter :: u16) = ucast (n + of_nat iter :: u32)" by (simp only: low16_add low16_of_nat)
  have ut: "unat (ucast (n + of_nat iter :: u32) :: u16) = unat n + iter"
  proof -
    have "unat (n + of_nat iter :: u32) < 65536" unfolding u using n assms(3) by linarith
    then show ?thesis by (simp only: unat_u32_u16 u)
  qed
  have l: "(ucast n + of_nat iter :: u16) < 4 \<longleftrightarrow> n + of_nat iter < (4 :: u32)"
    unfolding t by (simp only: word_less_nat_alt ut u) simp
  have "nSize (fit_cell pg iter info) = (if (ucast n + of_nat iter :: u16) < 4 then 4 else ucast n + of_nat iter)"
    by (simp only: fit_cell_def assms(1,2) Let_def if_True) simp
  also have "\<dots> = ucast (if n + of_nat iter < 4 then 4 else n + of_nat iter :: u32)"
    unfolding l by (simp only: t if_distrib [of ucast] low16_numeral)
  finally show e: "nSize (fit_cell pg iter info) = ucast (if n + of_nat iter < 4 then 4 else n + of_nat iter :: u32)" .
  assume "4 \<le> iter"
  then have "\<not> n + of_nat iter < (4 :: u32)" by (simp add: word_less_nat_alt u)
  then show "nSize (fit_cell pg iter info) = ucast (n + of_nat iter :: u32)" using e by simp
qed

lemma index_limit: "unat usable \<le> 65536 \<Longrightarrow> (unat usable - 12) * 64 div 255 - 23 \<le> 16422"
proof -
  assume "unat usable \<le> 65536"
  then have "(unat usable - 12) * 64 \<le> 65524 * 64" by simp
  then have "(unat usable - 12) * 64 div 255 \<le> 65524 * 64 div 255" by (rule div_le_mono)
  then show ?thesis by simp
qed

lemma page_usable:
  assumes "btree_page usable pg"
  shows "480 \<le> unat usable" "unat usable \<le> 65536" "usableSize (pBt pg) = usable"
  using assms btree_page_pBt [OF assms] by (auto simp: btree_page_def bt_limits_def)

text \<open>Both sides of the agreement as one expression: \<open>n\<close> bytes of payload behind a header of \<open>i\<close> bytes.\<close>

lemma sizes_agree:
  assumes "btree_page usable pg" "unat (maxLocal pg) + i < 65536" "nPayload info = n"
    and "parse_cell pg cell = fit_cell pg i info"
    and "cell_size pg cell = ucast (if n \<le> ucast (maxLocal pg) then (if n + of_nat i < 4 then 4 else n + of_nat i) else spilled_size pg i n) \<or>
      4 \<le> i \<and> cell_size pg cell = ucast (if n \<le> ucast (maxLocal pg) then n + of_nat i else spilled_size pg i n)"
  shows "cell_size pg cell = nSize (parse_cell pg cell)"
  using assms(3-5) fit_cell_local [OF _ assms(3,2)] fit_cell_spilled [of info pg i] page_usable [OF assms(1)]
  by (cases "n \<le> ucast (maxLocal pg)") auto

lemma payload_varint_u32: "payload_varint p = (varint_len p, ucast (groups p (varint_len p)) :: u32)"
  by (rule payload_varint_eq) simp

lemma low_half: "(ucast ((w AND 0xffffffff) :: u64) :: u32) = ucast w" for w :: u64
  by (rule bits32) (simp add: bit_simps)

lemma table_leaf_size:
  assumes "btree_page usable pg" "xCellSize pg = SizePtrTableLeaf" "xParseCell pg = ParsePtr" "unat (maxLocal pg) = unat usable - 35"
  shows "cell_size pg cell = nSize (parse_cell pg cell)"
proof -
  let ?l = varint_len
  define n :: u32 where "n = ucast (groups cell (?l cell))"
  define i where "i = ?l cell + ?l (offset (?l cell) cell)"
  have i: "unat (maxLocal pg) + i < 65536"
    using assms(4) page_usable [OF assms(1)] varint_len_bounds(2) [of cell] varint_len_bounds(2) [of "offset (?l cell) cell"]
    by (simp add: i_def)
  have p64: "payload_varint cell = (?l cell, ucast (groups cell (?l cell)) :: u64)" by (rule payload_varint_eq) simp
  obtain key where k: "key_varint (offset (?l cell) cell) = (?l (offset (?l cell) cell), key)"
    by (simp add: key_varint_eq GetVarint_spec varint_spec_len)
  have "parse_cell pg cell = fit_cell pg i \<lparr>nKey = key, pPayload = Some i, nPayload = n, nLocal = 0, nSize = 0\<rparr>"
    unfolding parse_cell_def btreeParseCellPtr_def assms(3) Let_def p64 by (simp add: k low_half n_def i_def)
  then show ?thesis
    by (rule sizes_agree [OF assms(1) i, rotated])
      (simp_all add: cell_size_def assms(2) cellSizePtrTableLeaf_def payload_varint_u32 skip_key_eq n_def i_def Let_def)
qed

lemma index_size:
  assumes "btree_page usable pg" "xParseCell pg = ParsePtrIndex" "unat (maxLocal pg) \<le> 16422"
    and "xCellSize pg = SizePtrIdxLeaf \<and> childPtrSize pg = 0 \<or> xCellSize pg = SizePtr \<and> childPtrSize pg = 4"
  shows "cell_size pg cell = nSize (parse_cell pg cell)"
proof -
  let ?c = "offset (childPtrSize pg) cell"
  define n :: u32 where "n = ucast (groups ?c (varint_len ?c))"
  define i where "i = childPtrSize pg + varint_len ?c"
  have i: "unat (maxLocal pg) + i < 65536"
    using assms(3,4) varint_len_bounds(2) [of ?c] by (auto simp: i_def)
  have "parse_cell pg cell = fit_cell pg i \<lparr>nKey = ucast n, pPayload = Some i, nPayload = n, nLocal = 0, nSize = 0\<rparr>"
    by (simp add: parse_cell_def assms(2) btreeParseCellPtrIndex_def payload_varint_u32 n_def i_def Let_def)
  moreover have "offset 0 cell = cell" by (simp add: offset_def)
  ultimately show ?thesis
    using assms(4)
    by (intro sizes_agree [OF assms(1) i, of _ n])
      (auto simp: cell_size_def cellSizePtrIdxLeaf_def cellSizePtr_def payload_varint_u32 n_def i_def Let_def)
qed

lemma cell_size_parsed:
  assumes "btree_page usable pg"
  shows "cell_size pg cell = nSize (parse_cell pg cell)"
  using assms
proof (cases rule: btree_page_cases)
  case table_leaf
  then show ?thesis by (intro table_leaf_size [OF assms])
next
  case index_leaf
  then show ?thesis using index_limit page_usable(2) [OF assms] by (intro index_size [OF assms]) simp_all
next
  case index_interior
  then show ?thesis using index_limit page_usable(2) [OF assms] by (intro index_size [OF assms]) simp_all
next
  case table_interior
  then show ?thesis
    by (simp add: parse_cell_def cell_size_def btreeParseCellPtrNoPayload_def cellSizePtrNoPayload_def skip_varint_eq
        GetVarint_spec varint_spec_len)
qed

section \<open>A new cell is parsed back\<close>

lemma varint_bytes_put: "varint_bytes n = PutVarint (ucast n)"
proof (cases "n < 0x80")
  case True
  then have "unat (ucast n :: u64) \<le> 127" by (simp add: ucast_small word_less_nat_alt)
  then have "(ucast n :: u64) \<le> 0x7f" by (simp add: word_le_nat_alt)
  moreover have "(ucast (ucast n :: u64) :: u8) = ucast n" by (rule bits8) (simp add: bit_simps)
  moreover have "unat n < 2 ^ 7" using True by (simp add: word_less_nat_alt)
  then have "take_bit 7 (ucast n :: u64) = ucast n"
    by (simp add: word_unat_eq_iff unsigned_take_bit_eq ucast_small take_bit_nat_eq_self_iff)
  ultimately show ?thesis using True by (simp add: varint_bytes_def PutVarint_def and_0x7f)
qed (simp add: varint_bytes_def)

lemma length_varint_bytes: "length (varint_bytes n) \<le> 5" "0 < length (varint_bytes n)"
proof -
  have small: "unat (ucast n :: u64) < 2 ^ 32" using unsigned_less [of n, where 'a = nat] by (simp add: ucast_small)
  then have "VarintLen (ucast n) \<le> 5" by (subst VarintLen_iff) simp_all
  moreover have "length (PutVarint (ucast n)) = VarintLen (ucast n)" using small by (intro length_PutVarint_small) simp
  ultimately show "length (varint_bytes n) \<le> 5" "0 < length (varint_bytes n)"
    using VarintLen_pos [of "ucast n"] by (simp_all add: varint_bytes_put)
qed

lemma read_payload_varint:
  assumes "LENGTH('a::len) \<le> 64"
  shows "payload_varint (at_bytes (varint_bytes n @ bs) r) = (length (varint_bytes n), ucast n :: 'a word)"
proof -
  let ?p = "at_bytes (varint_bytes n @ bs) r" and ?v = "ucast n :: u64"
  have g: "GetVarint ?p = (length (PutVarint ?v), ?v)"
    unfolding varint_bytes_put at_bytes_append by (rule get_put)
  have "length (PutVarint ?v) \<le> 5" using length_varint_bytes(1) [of n] by (simp add: varint_bytes_put)
  then have l: "varint_len ?p = length (varint_bytes n)" "groups ?p (length (varint_bytes n)) = ?v"
    using g by (auto simp: GetVarint_spec varint_spec_len varint_bytes_put split: if_splits)
  have "(ucast ?v :: 'a word) = ucast n" by (rule bit_word_eqI) (use assms in \<open>auto simp: bit_simps dest: bit_imp_le_length\<close>)
  then show ?thesis by (simp add: payload_varint_eq [OF assms] l)
qed

lemma length_put: "length (PutVarint v) \<le> 9" "0 < length (PutVarint v)"
proof -
  have "fst (GetVarint (at_bytes (PutVarint v) (\<lambda>i. 0))) = length (PutVarint v)" by (simp add: get_put)
  then show "length (PutVarint v) \<le> 9" "0 < length (PutVarint v)"
    using varint_len_bounds [of "at_bytes (PutVarint v) (\<lambda>i. 0)"]
    by (simp_all add: GetVarint_spec varint_spec_len Suc_le_eq del: length_greater_0_conv)
qed

text \<open>The varints in line read what the writers write.\<close>

interpretation cell_key: byte_codec PutVarint key_varint "\<lambda>v. v"
  by unfold_locales (simp only: key_varint_eq varint.read_back)

interpretation payload_size: byte_codec varint_bytes "payload_varint :: mem \<Rightarrow> nat \<times> u32" "\<lambda>v. v"
  by unfold_locales (simp add: read_payload_varint)

interpretation wide_payload_size: byte_codec varint_bytes "payload_varint :: mem \<Rightarrow> nat \<times> u64" ucast
  by unfold_locales (simp add: read_payload_varint)

text \<open>What a new cell stores behind its header does not touch the header.\<close>

lemma offset_store: "offset a (store a xs m) = at_bytes xs (offset (a + length xs) m)"
  by (rule ext) (auto simp: offset_def store_def at_bytes_def ac_simps)

lemma header_kept:
  assumes "h = a + length xs" "\<And>i. i < h \<Longrightarrow> m i = store a xs m0 i"
  shows "offset a m = at_bytes xs (offset h m)"
  by (rule ext) (use assms in \<open>auto simp: offset_def store_def at_bytes_def\<close>)

lemma filled_header:
  assumes "l = fillInCell pg x cell"
  shows "l_nHeader l = childPtrSize pg + length (cell_header pg x)"
    "offset (childPtrSize pg) (l_cell l) = at_bytes (cell_header pg x) (offset (l_nHeader l) (l_cell l))"
proof -
  show h: "l_nHeader l = childPtrSize pg + length (cell_header pg x)"
    by (simp add: assms fillInCell_def Let_def split: prod.split)
  have "l_cell l i = store (childPtrSize pg) (cell_header pg x) cell i" if "i < l_nHeader l" for i
    using that unfolding h unfolding assms fillInCell_def Let_def
    by (simp add: store_def split: prod.split)
  with h show "offset (childPtrSize pg) (l_cell l) = at_bytes (cell_header pg x) (offset (l_nHeader l) (l_cell l))"
    by (rule header_kept)
qed

text \<open>The local part of a payload, in numbers.\<close>

lemma local_size:
  assumes "btree_page usable pg" "\<not> p \<le> unat (maxLocal pg)" "p < 2 ^ 31" "unat (minLocal pg) \<le> unat (maxLocal pg)"
  shows "unat (ucast (minLocal pg) + (of_nat p - ucast (minLocal pg)) mod (usableSize (pBt pg) - 4) :: u32) =
     unat (minLocal pg) + (p - unat (minLocal pg)) mod (unat usable - 4)"
proof -
  have u: "480 \<le> unat usable" "unat usable \<le> 65536" "usableSize (pBt pg) = usable"
    using assms(1) btree_page_pBt [OF assms(1)] by (auto simp: btree_page_def bt_limits_def)
  have p: "unat (of_nat p :: u32) = p" using assms(3) by (simp add: unat_of_nat)
  have d: "unat (usable - 4) = unat usable - 4" using u(1) unat_sub [of 4 usable] by (simp add: word_le_nat_alt)
  have "unat (of_nat p - ucast (minLocal pg) :: u32) = p - unat (minLocal pg)"
    using assms(2,4) p unat_sub [of "ucast (minLocal pg)" "of_nat p :: u32"] by (simp add: word_le_nat_alt unat_u16_u32)
  then have m: "unat ((of_nat p - ucast (minLocal pg)) mod (usable - 4) :: u32) = (p - unat (minLocal pg)) mod (unat usable - 4)"
    by (simp add: unat_mod_distrib d)
  have "(p - unat (minLocal pg)) mod (unat usable - 4) < 65536"
    using u(1,2) mod_less_divisor [of "unat usable - 4" "p - unat (minLocal pg)"] by linarith
  moreover have "unat (minLocal pg) < 65536" using unsigned_less [of "minLocal pg", where 'a = nat] by simp
  ultimately have "unat (ucast (minLocal pg) :: u32) + unat ((of_nat p - ucast (minLocal pg)) mod (usable - 4) :: u32) < 2 ^ 32"
    unfolding m unat_u16_u32 by simp
  then show ?thesis unfolding u(3) by (subst unat_add_lem [THEN iffD1]) (simp_all add: m unat_u16_u32)
qed

lemma fillInCell_layout:
  fixes x :: btree_payload and pg :: mem_page
  defines "p \<equiv> snd (cell_source pg x)" and "h \<equiv> childPtrSize pg + length (cell_header pg x)"
  shows "l_nPayload (fillInCell pg x cell) = p" "l_nHeader (fillInCell pg x cell) = h"
    "p \<le> unat (maxLocal pg) \<Longrightarrow> l_spaceLeft (fillInCell pg x cell) = p \<and> l_nSize (fillInCell pg x cell) = max 4 (h + p)"
    "\<not> p \<le> unat (maxLocal pg) \<Longrightarrow>
      l_spaceLeft (fillInCell pg x cell) =
        (let n = unat (minLocal pg) + (p - unat (minLocal pg)) mod (unat (usableSize (pBt pg)) - 4)
         in if n > unat (maxLocal pg) then unat (minLocal pg) else n) \<and>
      l_nSize (fillInCell pg x cell) = l_spaceLeft (fillInCell pg x cell) + h + 4"
proof -
  obtain src q where c: "cell_source pg x = (src, q)" by (cases "cell_source pg x")
  then have p: "p = q" by (simp add: p_def)
  note f = fillInCell_def [of pg x cell, unfolded c prod.case Let_def, folded h_def]
  show "l_nPayload (fillInCell pg x cell) = p" "l_nHeader (fillInCell pg x cell) = h"
    "p \<le> unat (maxLocal pg) \<Longrightarrow> l_spaceLeft (fillInCell pg x cell) = p \<and> l_nSize (fillInCell pg x cell) = max 4 (h + p)"
    "\<not> p \<le> unat (maxLocal pg) \<Longrightarrow>
      l_spaceLeft (fillInCell pg x cell) =
        (let n = unat (minLocal pg) + (p - unat (minLocal pg)) mod (unat (usableSize (pBt pg)) - 4)
         in if n > unat (maxLocal pg) then unat (minLocal pg) else n) \<and>
      l_nSize (fillInCell pg x cell) = l_spaceLeft (fillInCell pg x cell) + h + 4"
    by (simp_all add: f p Let_def)
qed

lemma fit_layout_local:
  assumes "snd (cell_source pg x) \<le> unat (maxLocal pg)" "snd (cell_source pg x) < 2 ^ 31"
    and "unat (maxLocal pg) + h + 4 < 65536" "h = childPtrSize pg + length (cell_header pg x)"
    and "nPayload info = of_nat (snd (cell_source pg x))"
  shows "unat (nLocal (fit_cell pg h info)) = l_spaceLeft (fillInCell pg x cell)"
    "unat (nSize (fit_cell pg h info)) = l_nSize (fillInCell pg x cell)"
proof -
  let ?p = "snd (cell_source pg x)"
  have p: "unat (of_nat ?p :: u32) = ?p" using assms(2) by (simp add: unat_of_nat)
  have le: "of_nat ?p \<le> (ucast (maxLocal pg) :: u32)" using assms(1) by (simp only: word_le_nat_alt p unat_u16_u32)
  have "unat (nLocal (fit_cell pg h info)) = ?p"
    using assms(1,3) p le by (simp add: fit_cell_def assms(5) Let_def unat_u32_u16)
  then show "unat (nLocal (fit_cell pg h info)) = l_spaceLeft (fillInCell pg x cell)"
    using fillInCell_layout(3) [OF assms(1), of cell] by simp
  have s: "of_nat ?p + of_nat h = (of_nat (h + ?p) :: u32)" by simp
  have uh: "unat (of_nat (h + ?p) :: u32) = h + ?p" using assms(1,3) by (subst unat_of_nat) simp
  have "unat (maxLocal pg) + h < 65536" using assms(3) by simp
  with le have "nSize (fit_cell pg h info) = ucast (if (of_nat (h + ?p) :: u32) < 4 then 4 else of_nat (h + ?p) :: u32)"
    using fit_cell_local(1) [of "of_nat ?p" pg info h] assms(5) unfolding s by blast
  moreover have "of_nat (h + ?p) < (4 :: u32) \<longleftrightarrow> h + ?p < 4" by (simp only: word_less_nat_alt uh) simp
  moreover have "unat (of_nat (h + ?p) :: u32) < 65536" unfolding uh using assms(1,3) by linarith
  then have "unat (ucast (of_nat (h + ?p) :: u32) :: u16) = h + ?p" by (simp only: unat_u32_u16 uh)
  ultimately have "unat (nSize (fit_cell pg h info)) = max 4 (h + ?p)" by (cases "h + ?p < 4") (simp_all del: of_nat_add)
  then show "unat (nSize (fit_cell pg h info)) = l_nSize (fillInCell pg x cell)"
    using fillInCell_layout(3) [OF assms(1), of cell] assms(4) by simp
qed

text \<open>The parser's 16-bit local size of a payload that spills, in numbers.\<close>

lemma surplus_local:
  assumes "btree_page usable pg" "\<not> p \<le> unat (maxLocal pg)" "p < 2 ^ 31" "unat (minLocal pg) \<le> unat (maxLocal pg)"
    and "s = ucast (minLocal pg) + (of_nat p - ucast (minLocal pg)) mod (usableSize (pBt pg) - 4)"
    and "n = unat (minLocal pg) + (p - unat (minLocal pg)) mod (unat usable - 4)"
  shows "unat (if sint (s :: u32) \<le> uint (maxLocal pg) then ucast s else minLocal pg) =
    (if n > unat (maxLocal pg) then unat (minLocal pg) else n)"
proof -
  have s: "unat s = n" unfolding assms(5,6) by (rule local_size [OF assms(1-4)])
  have small: "unat s < 131072" unfolding assms(5) by (rule surplus_small [OF refl]) (simp_all only: page_usable [OF assms(1)])
  have c: "sint s \<le> uint (maxLocal pg) \<longleftrightarrow> n \<le> unat (maxLocal pg)"
    unfolding sint_small [OF small] s by (simp only: uint_nat of_nat_le_iff)
  have "unat (ucast s :: u16) = n" if "n \<le> unat (maxLocal pg)"
  proof -
    have "unat s < 65536" using that s unsigned_less [of "maxLocal pg", where 'a = nat] by simp
    then show ?thesis by (simp only: unat_u32_u16 s)
  qed
  then show ?thesis unfolding c by (simp only: not_le [symmetric] if_not_P if_P split: if_split) simp
qed

lemma fit_layout_spilled:
  assumes "btree_page usable pg" "\<not> snd (cell_source pg x) \<le> unat (maxLocal pg)" "snd (cell_source pg x) < 2 ^ 31"
    and "unat (minLocal pg) \<le> unat (maxLocal pg)"
    and "unat (maxLocal pg) + h + 4 < 65536" "h = childPtrSize pg + length (cell_header pg x)"
    and "nPayload info = of_nat (snd (cell_source pg x))"
  shows "unat (nLocal (fit_cell pg h info)) = l_spaceLeft (fillInCell pg x cell)"
    "unat (nSize (fit_cell pg h info)) = l_nSize (fillInCell pg x cell)"
proof -
  let ?p = "snd (cell_source pg x)" let ?l = "fillInCell pg x cell"
  let ?s = "ucast (minLocal pg) + (of_nat ?p - ucast (minLocal pg)) mod (usableSize (pBt pg) - 4) :: u32"
  define w where "w = (if sint ?s \<le> uint (maxLocal pg) then ucast ?s else minLocal pg)"
  have p: "unat (of_nat ?p :: u32) = ?p" using assms(3) by (simp add: unat_of_nat)
  have le: "\<not> of_nat ?p \<le> (ucast (maxLocal pg) :: u32)" using assms(2) by (simp only: word_le_nat_alt p unat_u16_u32 simp_thms)
  note w = surplus_local [OF assms(1-4) refl refl, folded w_def]
  have sl: "l_spaceLeft ?l = unat w"
    using fillInCell_layout(4) [OF assms(2), of cell] unfolding w page_usable(3) [OF assms(1)] Let_def by blast
  have sz: "l_nSize ?l = unat w + h + 4"
    using fillInCell_layout(4) [OF assms(2), of cell] unfolding sl assms(6) by blast
  have "unat w \<le> unat (maxLocal pg)" unfolding w using assms(4) by (simp split: if_splits)
  then have "unat (of_nat (h + unat w + 4) :: u16) = h + unat w + 4" using assms(5) by (subst unat_of_nat) simp
  moreover have "of_nat (h + unat w) + 4 = (of_nat (h + unat w + 4) :: u16)" by simp
  ultimately have u: "unat (of_nat (h + unat w) + 4 :: u16) = unat w + h + 4" by simp
  have f: "fit_cell pg h info = info\<lparr>nLocal := w, nSize := of_nat (h + unat w) + 4\<rparr>"
    using le unfolding fit_cell_def btreeParseCellAdjustSizeForOverflow_def assms(7) Let_def w_def by simp
  then have "nLocal (fit_cell pg h info) = w" "nSize (fit_cell pg h info) = of_nat (h + unat w) + 4" by simp_all
  then show "unat (nLocal (fit_cell pg h info)) = l_spaceLeft ?l" "unat (nSize (fit_cell pg h info)) = l_nSize ?l"
    by (simp_all only: u sl sz)
qed

lemma offset_bytes:
  assumes "map m [a..<a + n] = bs" "n = length bs"
  shows "offset a m = at_bytes bs (offset (a + n) m)"
proof
  fix i
  have "bs ! i = m (a + i)" if "i < n" using that by (simp flip: assms(1))
  then show "offset a m i = at_bytes bs (offset (a + n) m) i" by (auto simp: offset_def at_bytes_def assms(2))
qed

text \<open>What the debug build of \<open>fillInCell\<close> asserts.\<close>

abbreviation parsed_info :: "btree_payload \<Rightarrow> nat \<Rightarrow> nat \<Rightarrow> cell_info" where
  "parsed_info x h p \<equiv> \<lparr>nKey = x_nKey x, pPayload = Some h, nPayload = of_nat p, nLocal = 0, nSize = 0\<rparr>"

lemma parse_table_layout:
  fixes x :: btree_payload and pg :: mem_page
  defines "h \<equiv> childPtrSize pg + length (cell_header pg x)"
  assumes "xParseCell pg = ParsePtr" "intKey pg" "childPtrSize pg = 0"
  shows "parse_cell pg (l_cell (fillInCell pg x cell)) = fit_cell pg h (parsed_info x h (snd (cell_source pg x)))" "h \<le> 14"
proof -
  let ?p = "snd (cell_source pg x)" let ?v = "varint_bytes (of_nat ?p)" and ?k = "PutVarint (x_nKey x)"
  let ?m = "l_cell (fillInCell pg x cell)"
  have ch: "cell_header pg x = ?v @ ?k" using assms(3) by (simp add: cell_header_def)
  have off0: "offset 0 m = m" for m by (simp add: offset_def)
  have c: "?m = at_bytes (?v @ ?k) (offset (l_nHeader (fillInCell pg x cell)) ?m)"
    using filled_header(2) [OF refl, of pg x cell] unfolding assms(4) ch off0 .
  have h: "h = length ?v + length ?k" using ch assms(4) by (simp add: h_def)
  have r1: "payload_varint ?m = (length ?v, ucast (of_nat ?p :: u32) :: u64)" by (subst c) (rule wide_payload_size.read_back)
  have r2: "key_varint (offset (length ?v) ?m) = (length ?k, x_nKey x)" by (subst c) (rule cell_key.read_last [OF refl])
  have t: "(ucast (ucast (w :: u32) :: u64) :: u32) = w" for w by (rule bits32) (simp add: bit_simps)
  show "parse_cell pg ?m = fit_cell pg h (parsed_info x h ?p)"
    by (simp add: parse_cell_def assms(2) btreeParseCellPtr_def r1 r2 low_half t h Let_def)
  show "h \<le> 14" using length_varint_bytes(1) [of "of_nat ?p"] length_put(1) [of "x_nKey x"] by (simp add: h)
qed

lemma parse_index_layout:
  fixes x :: btree_payload and pg :: mem_page
  defines "h \<equiv> childPtrSize pg + length (cell_header pg x)"
  assumes "xParseCell pg = ParsePtrIndex" "\<not> intKey pg" "snd (cell_source pg x) < 2 ^ 31"
  shows "parse_cell pg (l_cell (fillInCell pg x cell)) = fit_cell pg h (parsed_info x h (snd (cell_source pg x)))"
    "h \<le> childPtrSize pg + 5"
proof -
  let ?p = "snd (cell_source pg x)" let ?v = "varint_bytes (of_nat ?p)"
  let ?m = "l_cell (fillInCell pg x cell)"
  have ch: "cell_header pg x = ?v" "?p = unat (x_nKey x)" using assms(3) by (simp_all add: cell_header_def cell_source_def)
  have c: "offset (childPtrSize pg) ?m = at_bytes (?v @ []) (offset (l_nHeader (fillInCell pg x cell)) ?m)"
    using filled_header(2) [OF refl, of pg x cell] unfolding ch(1) by (simp only: append_Nil2)
  have h: "h = childPtrSize pg + length ?v" using ch by (simp add: h_def)
  have r: "payload_varint (offset (childPtrSize pg) ?m) = (length ?v, of_nat ?p :: u32)" by (subst c) (rule payload_size.read_back)
  have "unat (of_nat ?p :: u32) = ?p" using assms(4) by (simp add: unat_of_nat)
  then have k: "(ucast (of_nat ?p :: u32) :: u64) = x_nKey x" using ch(2) by (simp add: word_unat_eq_iff ucast_small)
  show "parse_cell pg ?m = fit_cell pg h (parsed_info x h ?p)"
    by (simp add: parse_cell_def assms(2) btreeParseCellPtrIndex_def r h k Let_def)
  show "h \<le> childPtrSize pg + 5" using length_varint_bytes(1) [of "of_nat ?p"] by (simp add: h)
qed

lemma cell_layout_parsed:
  fixes x :: btree_payload and pg :: mem_page
  defines "h \<equiv> childPtrSize pg + length (cell_header pg x)"
  assumes pg: "btree_page usable pg" "xParseCell pg \<noteq> ParsePtrNoPayload" and size: "snd (cell_source pg x) < 2 ^ 31"
  shows "parse_cell pg (l_cell (fillInCell pg x cell)) = fit_cell pg h (parsed_info x h (snd (cell_source pg x)))"
    "unat (maxLocal pg) + h + 4 < 65536" "unat (minLocal pg) \<le> unat (maxLocal pg)"
proof -
  note u = page_usable(1,2) [OF pg(1)] note ix = index_limit [OF u(2)]
  note t = parse_table_layout(1) [where pg = pg and x = x and cell = cell, folded h_def] parse_table_layout(2) [of pg x, folded h_def]
  note i = parse_index_layout(1) [where pg = pg and x = x and cell = cell, folded h_def] parse_index_layout(2) [of pg x, folded h_def]
  have "parse_cell pg (l_cell (fillInCell pg x cell)) = fit_cell pg h (parsed_info x h (snd (cell_source pg x))) \<and>
      unat (maxLocal pg) + h + 4 < 65536 \<and> unat (minLocal pg) \<le> unat (maxLocal pg)"
    using pg(1)
  proof (cases rule: btree_page_cases)
    case table_leaf
    then show ?thesis using t u by simp
  next
    case index_leaf
    then show ?thesis using i(1) [OF index_leaf(4,1) size] i(2) [OF index_leaf(4,1) size] ix by simp
  next
    case index_interior
    then show ?thesis using i(1) [OF index_interior(4,1) size] i(2) [OF index_interior(4,1) size] ix by simp
  next
    case table_interior
    then show ?thesis using pg(2) by simp
  qed
  then show "parse_cell pg (l_cell (fillInCell pg x cell)) = fit_cell pg h (parsed_info x h (snd (cell_source pg x)))"
    "unat (maxLocal pg) + h + 4 < 65536" "unat (minLocal pg) \<le> unat (maxLocal pg)" by blast+
qed

lemma fit_cell_keeps:
  "pPayload (fit_cell pg h info) = pPayload info" "nKey (fit_cell pg h info) = nKey info" "nPayload (fit_cell pg h info) = nPayload info"
  by (simp_all add: fit_cell_def btreeParseCellAdjustSizeForOverflow_def Let_def)

lemma cell_parsed:
  assumes pg: "btree_page usable pg" "xParseCell pg \<noteq> ParsePtrNoPayload" and size: "snd (cell_source pg x) < 2 ^ 31"
  shows "pPayload (parse_cell pg (l_cell (fillInCell pg x cell))) = Some (l_nHeader (fillInCell pg x cell))"
    "nKey (parse_cell pg (l_cell (fillInCell pg x cell))) = x_nKey x"
    "unat (nPayload (parse_cell pg (l_cell (fillInCell pg x cell)))) = l_nPayload (fillInCell pg x cell)"
    "unat (nLocal (parse_cell pg (l_cell (fillInCell pg x cell)))) = l_spaceLeft (fillInCell pg x cell)"
    "unat (nSize (parse_cell pg (l_cell (fillInCell pg x cell)))) = l_nSize (fillInCell pg x cell)"
proof -
  note c = cell_layout_parsed(1) [OF assms, where cell = cell] cell_layout_parsed(2,3) [OF assms]
  show "pPayload (parse_cell pg (l_cell (fillInCell pg x cell))) = Some (l_nHeader (fillInCell pg x cell))"
    "nKey (parse_cell pg (l_cell (fillInCell pg x cell))) = x_nKey x"
    "unat (nPayload (parse_cell pg (l_cell (fillInCell pg x cell)))) = l_nPayload (fillInCell pg x cell)"
    unfolding c(1) fit_cell_keeps using size by (simp_all add: fillInCell_layout unat_of_nat)
  show "unat (nLocal (parse_cell pg (l_cell (fillInCell pg x cell)))) = l_spaceLeft (fillInCell pg x cell)"
    "unat (nSize (parse_cell pg (l_cell (fillInCell pg x cell)))) = l_nSize (fillInCell pg x cell)"
    unfolding c(1) using fit_layout_local [OF _ size c(2) refl] fit_layout_spilled [OF pg(1) _ size c(3,2) refl]
    by (cases "snd (cell_source pg x) \<le> unat (maxLocal pg)"; simp)+
qed

text \<open>The payload of a cell that fits the page, with the zeros that stand for its tail.\<close>

lemma cell_payload:
  assumes "snd (cell_source pg x) \<le> unat (maxLocal pg)" "intKey pg \<or> unat (x_nKey x) \<le> length (x_pKey x)"
  shows "map (l_cell (fillInCell pg x cell)) [l_nHeader (fillInCell pg x cell)..<l_nHeader (fillInCell pg x cell) + l_nPayload (fillInCell pg x cell)] =
    (if intKey pg then x_pData x @ replicate (x_nZero x) 0 else take (unat (x_nKey x)) (x_pKey x))"
proof -
  obtain src q where c: "cell_source pg x = (src, q)" by (cases "cell_source pg x")
  have q: "length src \<le> q" "src @ replicate (q - length src) 0 = (if intKey pg then x_pData x @ replicate (x_nZero x) 0 else take (unat (x_nKey x)) (x_pKey x))"
    using c assms(2) by (auto simp: cell_source_def split: if_splits)
  let ?h = "childPtrSize pg + length (cell_header pg x)"
  have "map (l_cell (fillInCell pg x cell)) [?h..<?h + q] = src @ replicate (q - length src) 0"
    using assms(1) c q(1) by (intro nth_equalityI) (auto simp: fillInCell_def Let_def store_def nth_append)
  then show ?thesis using c q(2) by (simp add: fillInCell_layout)
qed

end
