(* ===== verification/SqlCellProps.thy ===== *)
theory SqlCellProps
  imports SqlCellLib
begin

text \<open>The properties of cells and of the rows in them, with their witnesses.\<close>

section \<open>The varints in line\<close>

text \<open>
  Where the varint of the payload's size is in line, a value of \<open>2 ^ 32\<close> or more is cut to its low
  bits; the function that it stands for gives the largest value instead.
\<close>

lemma payload_varint_differs:
  "payload_varint (at_bytes [0x90, 0x80, 0x80, 0x80, 0x05] (\<lambda>_. 0)) = (5, 5 :: u32)"
  "getVarint32 (at_bytes [0x90, 0x80, 0x80, 0x80, 0x05] (\<lambda>_. 0)) = (5, 0xffffffff)"
  by code_simp+

section \<open>Properties\<close>

text \<open>
  C14: On every kind of page, and whatever bytes stand there, the function that computes the size of a
  cell gives the size that the parser of the cell gives, which is what the debug build asserts:
  for all page sizes from 480 to 65536, with a varint of any length, for the local and for the
  spilled payload, in the arithmetic of 16 and 32 bits.
\<close>

theorem cell_size_agrees:
  assumes "btree_page usable pg"
  shows "cell_size pg cell = nSize (parse_cell pg cell)"
  using assms by (rule cell_size_parsed)

definition blank_page :: "u32 \<Rightarrow> mem_page" where
  "blank_page usable =
     \<lparr>intKey = False, intKeyLeaf = False, leaf = False, childPtrSize = 0, maxLocal = 0, minLocal = 0,
      xCellSize = SizePtr, xParseCell = ParsePtrIndex, pBt = bt_limits usable\<rparr>"

definition demo_page :: mem_page where
  "demo_page = snd (decodeFlags (blank_page 4096) 13)"

lemma demo_page: "btree_page 4096 demo_page"
proof -
  have "fst (decodeFlags (blank_page 4096) 13)" by code_simp
  then have "decodeFlags (blank_page 4096) 13 = (True, demo_page)" by (simp add: demo_page_def prod_eq_iff)
  moreover have "pBt (blank_page 4096) = bt_limits 4096" by (simp add: blank_page_def)
  ultimately show ?thesis unfolding btree_page_def by (intro conjI exI) auto
qed

theorem cell_size_agrees_witness:
  "cell_size demo_page (at_bytes [0x81, 0x48, 0x05] (\<lambda>_. 0)) = 203 \<and>
   nSize (parse_cell demo_page (at_bytes [0x81, 0x48, 0x05] (\<lambda>_. 0))) = 203"
proof -
  have "cell_size demo_page (at_bytes [0x81, 0x48, 0x05] (\<lambda>_. 0)) = 203" by code_simp
  then show ?thesis using cell_size_agrees [OF demo_page, of "at_bytes [0x81, 0x48, 0x05] (\<lambda>_. 0)"] by simp
qed

text \<open>
  C19: A cell that \<open>fillInCell\<close> lays out is parsed back: the payload starts behind the header, the key, the
  size of the payload, the part of it that stays on the page and the size of the cell are those of
  the layout, and a payload that fits is there byte by byte, with the zeros of its tail.
\<close>

theorem cell_read_back:
  assumes "btree_page usable pg" "xParseCell pg \<noteq> ParsePtrNoPayload" "snd (cell_source pg x) < 2 ^ 31"
    and "intKey pg \<or> unat (x_nKey x) \<le> length (x_pKey x)"
  shows "let l = fillInCell pg x cell; info = parse_cell pg (l_cell l)
    in pPayload info = Some (l_nHeader l) \<and> nKey info = x_nKey x \<and> unat (nPayload info) = l_nPayload l \<and>
       unat (nLocal info) = l_spaceLeft l \<and> unat (nSize info) = l_nSize l \<and>
       (l_nPayload l \<le> unat (maxLocal pg) \<longrightarrow>
         map (l_cell l) [l_nHeader l..<l_nHeader l + l_nPayload l] =
           (if intKey pg then x_pData x @ replicate (x_nZero x) 0 else take (unat (x_nKey x)) (x_pKey x)))"
  using cell_parsed [OF assms(1-3), of cell] cell_payload [OF _ assms(4), of cell] fillInCell_layout(1) [of pg x cell]
  by (simp add: Let_def)

definition demo_payload :: btree_payload where
  "demo_payload = \<lparr>x_nKey = 300, x_pKey = [], x_pData = [0x61, 0x62, 0x63], x_nZero = 2\<rparr>"

theorem cell_read_back_witness:
  "let l = fillInCell demo_page demo_payload (\<lambda>_. 0xff); info = parse_cell demo_page (l_cell l)
   in nKey info = 300 \<and> unat (nPayload info) = 5 \<and> pPayload info = Some 3 \<and> unat (nSize info) = 8 \<and>
      map (l_cell l) [3..<8] = [0x61, 0x62, 0x63, 0, 0]"
proof -
  have i: "intKey demo_page" by code_simp
  have c: "childPtrSize demo_page + length (cell_header demo_page demo_payload) = 3" "snd (cell_source demo_page demo_payload) = 5"
    by code_simp+
  have m: "maxLocal demo_page = 4061" by code_simp
  then have mx: "unat (maxLocal demo_page) = 4061" by simp
  have "xParseCell demo_page = ParsePtr" by code_simp
  then have p: "xParseCell demo_page \<noteq> ParsePtrNoPayload" "snd (cell_source demo_page demo_payload) < 2 ^ 31" by (simp_all add: c)
  have l: "l_nHeader (fillInCell demo_page demo_payload (\<lambda>_. 0xff)) = 3" "l_nPayload (fillInCell demo_page demo_payload (\<lambda>_. 0xff)) = 5"
    "l_nSize (fillInCell demo_page demo_payload (\<lambda>_. 0xff)) = 8"
    using fillInCell_layout(3) [of demo_page demo_payload "\<lambda>_. 0xff"] by (simp_all add: fillInCell_layout(1,2) c mx)
  have d: "x_nKey demo_payload = 300" "x_pData demo_payload = [0x61, 0x62, 0x63]" "x_nZero demo_payload = Suc (Suc 0)"
    by (simp_all add: demo_payload_def)
  note r = cell_read_back [OF demo_page p disjI1 [OF i], of "\<lambda>_. 0xff", unfolded Let_def l mx d if_P [OF i]]
  have "(5 :: nat) \<le> 4061" by simp
  then have e: "map (l_cell (fillInCell demo_page demo_payload (\<lambda>_. 0xff))) [3..<3 + 5] = [0x61, 0x62, 0x63] @ replicate (Suc (Suc 0)) 0"
    using r by blast
  have a: "3 + 5 = (8 :: nat)" "[0x61, 0x62, 0x63] @ replicate (Suc (Suc 0)) 0 = [0x61, 0x62, 0x63, 0, 0 :: u8]" by simp_all
  show ?thesis unfolding Let_def using r e unfolding a by blast
qed

text \<open>
  C8: A row stored in a table is found again: the record of its values, put into a cell with the row id as the
  key, is parsed and decoded to the row id and the values (a NaN becoming null), when it fits the page.
\<close>

theorem row_found_again:
  assumes "make_record ff4 szMalloc limit vs m = Some (m', n)" "vs \<noteq> []" "length vs \<le> nField"
    and "btree_page usable pg" "intKey pg" "xParseCell pg = ParsePtr" "n \<le> unat (maxLocal pg)"
    and "x = \<lparr>x_nKey = rowid, x_pKey = [], x_pData = map m' [0..<n], x_nZero = 0\<rparr>"
  shows "let info = parse_cell pg (l_cell (fillInCell pg x cell))
    in nKey info = rowid \<and>
       record_unpack (unat (nPayload info)) (offset (the (pPayload info)) (l_cell (fillInCell pg x cell))) nField = map nan_null vs"
proof -
  have max: "unat (maxLocal pg) < 65536" using unsigned_less [of "maxLocal pg", where 'a = nat] by simp
  then have n: "n \<le> 1000000000" using assms(7) by linarith
  obtain xs where m': "m' = at_bytes (xs @ headers ff4 vs @ payloads ff4 vs) (offset n m)"
    and len: "n = length (xs @ headers ff4 vs @ payloads ff4 vs)"
    and xs: "xs = varint_bytes (of_nat (length (xs @ headers ff4 vs)))" and ok: "list_all value_ok vs"
    by (rule make_record_bytes [OF assms(1) n])
  have src: "cell_source pg x = (map m' [0..<n], n)" using assms(5) by (simp add: cell_source_def assms(8))
  let ?l = "fillInCell pg x cell"
  have p: "xParseCell pg \<noteq> ParsePtrNoPayload" using assms(6) by simp
  have small: "snd (cell_source pg x) < 2 ^ 31" using n by (simp add: src)
  note parsed = cell_parsed [OF assms(4) p small, of cell]
  have data: "map (l_cell ?l) [l_nHeader ?l..<l_nHeader ?l + n] = map m' [0..<n]"
  proof -
    have "x_pData x @ replicate (x_nZero x) 0 = map m' [0..<n]" by (simp add: assms(8))
    moreover have "l_nPayload ?l = n" by (simp add: src fillInCell_layout)
    ultimately show ?thesis using cell_payload [of pg x cell] assms(5,7) src by simp
  qed
  let ?bs = "xs @ headers ff4 vs @ payloads ff4 vs"
  have "map m' [0..<n] = ?bs" unfolding m' len using at_bytes_map [of ?bs "[]"] by simp
  then have "offset (l_nHeader ?l) (l_cell ?l) = at_bytes ?bs (offset (l_nHeader ?l + n) (l_cell ?l))"
    using data by (intro offset_bytes) (simp_all add: len)
  then show ?thesis
  proof -
    assume o: "offset (l_nHeader ?l) (l_cell ?l) = at_bytes ?bs (offset (l_nHeader ?l + n) (l_cell ?l))"
    have "unat (nPayload (parse_cell pg (l_cell ?l))) = n" using parsed(3) by (simp add: src fillInCell_layout)
    moreover have "x_nKey x = rowid" by (simp add: assms(8))
    ultimately show ?thesis
      using record_read [OF ok xs len n assms(3)] by (simp add: Let_def parsed(1,2) o)
  qed
qed

definition row_payload :: btree_payload where
  "row_payload = \<lparr>x_nKey = 42, x_pKey = [], x_pData = map (fst row_record) [0..<31], x_nZero = 0\<rparr>"

theorem row_found_again_witness:
  "let info = parse_cell demo_page (l_cell (fillInCell demo_page row_payload (\<lambda>_. 0)))
   in nKey info = 42 \<and>
      record_unpack (unat (nPayload info)) (offset (the (pPayload info)) (l_cell (fillInCell demo_page row_payload (\<lambda>_. 0)))) 7 =
        map nan_null row"
proof -
  have r: "row \<noteq> []" "length row \<le> 7" by (simp_all add: row_def)
  have "maxLocal demo_page = 4061" "intKey demo_page" "xParseCell demo_page = ParsePtr" by code_simp+
  then have p: "intKey demo_page" "xParseCell demo_page = ParsePtr" "31 \<le> unat (maxLocal demo_page)" by simp_all
  show ?thesis by (rule row_found_again [OF row_made r demo_page p row_payload_def])
qed

end
