(* ===== verification/RowSet.thy ===== *)
theory RowSet
  imports Prelude "HOL-Library.Tree"
begin

text \<open>
  The sets of row ids of SQLite (\<^verbatim>\<open>sqlite/sqlite3.c\<close>, section \<^verbatim>\<open>rowset.c\<close>): ids are inserted into a list, and the
  set is either read in order (\<open>sqlite3RowSetNext\<close>) or asked for members (\<open>sqlite3RowSetTest\<close>), for which the
  list is sorted into a forest of binary trees, once for each batch. Row ids are compared and never
  computed with, so they are integers. The entries of a list are joined by \<open>pRight\<close> and no entry is in two lists, so a
  list of entries is a list; the null pointer is the empty list or tree. Not modelled: the memory of the entries
  (\<open>pChunk\<close>, \<open>pFresh\<close>) and the failure of an allocation.
\<close>

section \<open>Lists\<close>

text \<open>Of two equal entries the first list's is dropped. The source is called with lists that are not empty.\<close>

fun rowSetEntryMerge :: "int list \<Rightarrow> int list \<Rightarrow> int list" where
  "rowSetEntryMerge [] pB = pB"
| "rowSetEntryMerge pA [] = pA"
| "rowSetEntryMerge (a # pA) (b # pB) =
     (if a \<le> b then (if a < b then a # rowSetEntryMerge pA (b # pB) else rowSetEntryMerge pA (b # pB))
      else b # rowSetEntryMerge (a # pA) pB)"

text \<open>
  The merge sort keeps 40 lists, the empty ones free. A new list is merged with the lists of all occupied
  places up to the first free one; there is none past the end of the array (\<open>None\<close>).
\<close>

fun bucket_insert :: "int list list \<Rightarrow> int list \<Rightarrow> int list list option" where
  "bucket_insert [] pIn = None"
| "bucket_insert (b # bs) pIn =
     (if b = [] then Some (pIn # bs)
      else map_option (\<lambda>bs'. [] # bs') (bucket_insert bs (rowSetEntryMerge b pIn)))"

fun fill_buckets :: "int list \<Rightarrow> int list list \<Rightarrow> int list list option" where
  "fill_buckets [] bs = Some bs"
| "fill_buckets (v # vs) bs = Option.bind (bucket_insert bs [v]) (fill_buckets vs)"

definition join_buckets :: "int list list \<Rightarrow> int list" where
  "join_buckets bs =
     foldl (\<lambda>pIn b. if b = [] then pIn else if pIn \<noteq> [] then rowSetEntryMerge pIn b else b) (hd bs) (tl bs)"

definition rowSetEntrySort :: "int list \<Rightarrow> int list option" where
  "rowSetEntrySort pIn = map_option join_buckets (fill_buckets pIn (replicate 40 []))"

section \<open>Trees\<close>

fun rowSetTreeToList :: "int tree \<Rightarrow> int list" where
  "rowSetTreeToList Leaf = []"
| "rowSetTreeToList (Node l v r) =
     (if l \<noteq> Leaf then rowSetTreeToList l else []) @ v # (if r \<noteq> Leaf then rowSetTreeToList r else [])"

text \<open>The tree and the entries that it did not need.\<close>

fun rowSetNDeepTree :: "nat \<Rightarrow> int list \<Rightarrow> int tree \<times> int list" where
  "rowSetNDeepTree iDepth pList =
     (if pList = [] then (Leaf, [])
      else if iDepth > 1 then
        case rowSetNDeepTree (iDepth - 1) pList of
          (pLeft, []) \<Rightarrow> (pLeft, [])
        | (pLeft, v # rest) \<Rightarrow> (case rowSetNDeepTree (iDepth - 1) rest of (pRight, rest') \<Rightarrow> (Node pLeft v pRight, rest'))
      else (Node Leaf (hd pList) Leaf, tl pList))"

declare rowSetNDeepTree.simps [simp del]

lemma NDeepTree_inorder: "rowSetNDeepTree d ps = (t, rest) \<Longrightarrow> inorder t @ rest = ps"
proof (induction d ps arbitrary: t rest rule: rowSetNDeepTree.induct)
  case (1 d ps)
  show ?case
  proof (cases "ps \<noteq> [] \<and> 1 < d")
    case True
    obtain l rest1 where l: "rowSetNDeepTree (d - 1) ps = (l, rest1)" by fastforce
    then have i: "inorder l @ rest1 = ps" using "1.IH"(1) True by blast
    show ?thesis
    proof (cases rest1)
      case (Cons v rest2)
      obtain r rest3 where r: "rowSetNDeepTree (d - 1) rest2 = (r, rest3)" by fastforce
      then have "inorder r @ rest3 = rest2" using "1.IH"(2) True l Cons by fastforce
      then show ?thesis using "1.prems" True l r i Cons by (auto simp: rowSetNDeepTree.simps [of d ps])
    qed (use "1.prems" True l i in \<open>simp add: rowSetNDeepTree.simps [of d ps]\<close>)
  next
    case False
    then show ?thesis using "1.prems" rowSetNDeepTree.simps [of d ps] by (cases "ps = []") auto
  qed
qed

lemma NDeepTree_length: "rowSetNDeepTree d ps = (t, rest) \<Longrightarrow> length rest \<le> length ps"
  using NDeepTree_inorder [of d ps t rest] by auto

function list_to_tree :: "nat \<Rightarrow> int tree \<Rightarrow> int list \<Rightarrow> int tree" where
  "list_to_tree iDepth p [] = p"
| "list_to_tree iDepth p (v # pList) =
     (case rowSetNDeepTree iDepth pList of (pRight, rest) \<Rightarrow> list_to_tree (iDepth + 1) (Node p v pRight) rest)"
  by pat_completeness auto

termination
  by (relation "measure (\<lambda>(d, p, ps). length ps)") (auto dest!: sym [of "(_, _)"] NDeepTree_length)

definition rowSetListToTree :: "int list \<Rightarrow> int tree" where
  "rowSetListToTree pList = list_to_tree 1 (Node Leaf (hd pList) Leaf) (tl pList)"

section \<open>The set\<close>

record rowset =
  rs_entries :: "int list"
  rs_forest :: "int tree list"
  rs_sorted :: bool
  rs_next :: bool
  rs_batch :: int

definition sqlite3RowSetInit :: rowset where
  "sqlite3RowSetInit = \<lparr>rs_entries = [], rs_forest = [], rs_sorted = True, rs_next = False, rs_batch = 0\<rparr>"

definition sqlite3RowSetClear :: "rowset \<Rightarrow> rowset" where
  "sqlite3RowSetClear p = p\<lparr>rs_entries := [], rs_forest := [], rs_sorted := True, rs_next := False\<rparr>"

definition sqlite3RowSetInsert :: "int \<Rightarrow> rowset \<Rightarrow> rowset" where
  "sqlite3RowSetInsert rowid p =
     p\<lparr>rs_entries := rs_entries p @ [rowid],
       rs_sorted := rs_sorted p \<and> \<not> (rs_entries p \<noteq> [] \<and> rowid \<le> last (rs_entries p))\<rparr>"

definition sorted_entries :: "rowset \<Rightarrow> int list option" where
  "sorted_entries p = (if rs_sorted p then Some (rs_entries p) else rowSetEntrySort (rs_entries p))"

text \<open>The next id, if there is one, and the set without it.\<close>

definition sqlite3RowSetNext :: "rowset \<Rightarrow> (int option \<times> rowset) option" where
  "sqlite3RowSetNext p =
     map_option (\<lambda>es.
        let p1 = p\<lparr>rs_entries := es, rs_sorted := True, rs_next := True\<rparr> in
        case es of
          [] \<Rightarrow> (None, p1)
        | v # es' \<Rightarrow> (Some v, if es' = [] then sqlite3RowSetClear p1 else p1\<lparr>rs_entries := es'\<rparr>))
      (if rs_next p then Some (rs_entries p) else sorted_entries p)"

text \<open>A sorted list enters the forest at the first free tree, merged with the trees before it.\<close>

fun forest_insert :: "int tree list \<Rightarrow> int list \<Rightarrow> int tree list" where
  "forest_insert [] p = [rowSetListToTree p]"
| "forest_insert (t # ts) p =
     (if t = Leaf then rowSetListToTree p # ts
      else Leaf # forest_insert ts (rowSetEntryMerge (rowSetTreeToList t) p))"

fun tree_search :: "int tree \<Rightarrow> int \<Rightarrow> bool" where
  "tree_search Leaf iRowid = False"
| "tree_search (Node l v r) iRowid =
     (if v < iRowid then tree_search r iRowid else if v > iRowid then tree_search l iRowid else True)"

definition start_batch :: "int \<Rightarrow> rowset \<Rightarrow> rowset option" where
  "start_batch iBatch p =
     (if iBatch = rs_batch p then Some p
      else if rs_entries p = [] then Some (p\<lparr>rs_batch := iBatch\<rparr>)
      else map_option (\<lambda>es. p\<lparr>rs_entries := [], rs_forest := forest_insert (rs_forest p) es, rs_sorted := True,
             rs_batch := iBatch\<rparr>) (sorted_entries p))"

definition sqlite3RowSetTest :: "int \<Rightarrow> int \<Rightarrow> rowset \<Rightarrow> (bool \<times> rowset) option" where
  "sqlite3RowSetTest iBatch iRowid p =
     map_option (\<lambda>p'. (list_ex (\<lambda>t. tree_search t iRowid) (rs_forest p'), p')) (start_batch iBatch p)"

end
