(* ===== verification/RowSetLib.thy ===== *)
theory RowSetLib
  imports RowSet
begin

text \<open>
  What a set of row ids promises: the merge sort, the trees and their depth, the forest, and any sequence of
  insertions and tests as operations on two sets of ids, the tested ones and those of the current batch.
\<close>

section \<open>Sorting\<close>

abbreviation increasing :: "int list \<Rightarrow> bool" where
  "increasing \<equiv> sorted_wrt (<)"

lemma set_merge: "set (rowSetEntryMerge xs ys) = set xs \<union> set ys"
  by (induction xs ys rule: rowSetEntryMerge.induct) auto

lemma increasing_merge: "increasing xs \<Longrightarrow> increasing ys \<Longrightarrow> increasing (rowSetEntryMerge xs ys)"
  by (induction xs ys rule: rowSetEntryMerge.induct) (auto simp: set_merge)

lemma merge_Nil_iff: "rowSetEntryMerge xs ys = [] \<longleftrightarrow> xs = [] \<and> ys = []"
  using set_merge [of xs ys] by (metis Un_empty set_empty)

text \<open>The places read as a binary number: how many lists were put in.\<close>

fun bucket_count :: "int list list \<Rightarrow> nat" where
  "bucket_count [] = 0"
| "bucket_count (b # bs) = (if b = [] then 0 else 1) + 2 * bucket_count bs"

lemma bucket_insert_count: "bucket_insert bs p = Some bs' \<Longrightarrow> p \<noteq> [] \<Longrightarrow> bucket_count bs' = bucket_count bs + 1 \<and> length bs' = length bs"
  by (induction bs p arbitrary: bs' rule: bucket_insert.induct) (auto simp: merge_Nil_iff split: if_splits)

lemma bucket_insert_room: "bucket_count bs + 1 < 2 ^ length bs \<Longrightarrow> p \<noteq> [] \<Longrightarrow> \<exists>bs'. bucket_insert bs p = Some bs'"
  by (induction bs p rule: bucket_insert.induct) (auto simp: merge_Nil_iff)

lemma bucket_insert_set:
  "bucket_insert bs p = Some bs' \<Longrightarrow> \<Union> (set ` set bs') = set p \<union> \<Union> (set ` set bs)"
proof (induction bs p arbitrary: bs' rule: bucket_insert.induct)
  case (2 b bs p)
  show ?case
  proof (cases "b = []")
    case False
    then obtain bs1 where "bucket_insert bs (rowSetEntryMerge b p) = Some bs1" "bs' = [] # bs1" using "2.prems" by auto
    then show ?thesis using "2.IH" [OF False, of bs1] by (simp add: set_merge Un_ac)
  qed (use "2.prems" in auto)
qed simp

lemma bucket_insert_increasing:
  "bucket_insert bs p = Some bs' \<Longrightarrow> list_all increasing bs \<Longrightarrow> increasing p \<Longrightarrow> list_all increasing bs'"
  by (induction bs p arbitrary: bs' rule: bucket_insert.induct) (auto simp: increasing_merge split: if_splits)

lemma fill_buckets_result:
  "bucket_count bs + length vs < 2 ^ length bs \<Longrightarrow> list_all increasing bs \<Longrightarrow>
   \<exists>bs'. fill_buckets vs bs = Some bs' \<and> list_all increasing bs' \<and> length bs' = length bs \<and>
     \<Union> (set ` set bs') = set vs \<union> \<Union> (set ` set bs)"
proof (induction vs arbitrary: bs)
  case (Cons v vs)
  obtain bs1 where b: "bucket_insert bs [v] = Some bs1" using bucket_insert_room [of bs "[v]"] Cons.prems(1) by auto
  note c = bucket_insert_count [OF b] and s = bucket_insert_set [OF b] and a = bucket_insert_increasing [OF b Cons.prems(2)]
  have "bucket_count bs1 + length vs < 2 ^ length bs1" "list_all increasing bs1" using c a Cons.prems(1) by simp_all
  then obtain bs' where "fill_buckets vs bs1 = Some bs'" "list_all increasing bs'" "length bs' = length bs1"
    "\<Union> (set ` set bs') = set vs \<union> \<Union> (set ` set bs1)" using Cons.IH by blast
  then show ?case using b c s by auto
qed simp

lemma join_result:
  "list_all increasing bs \<Longrightarrow> increasing p \<Longrightarrow>
   let r = foldl (\<lambda>p b. if b = [] then p else if p \<noteq> [] then rowSetEntryMerge p b else b) p bs
   in increasing r \<and> set r = set p \<union> \<Union> (set ` set bs)"
proof (induction bs arbitrary: p)
  case (Cons b bs)
  define q where "q = (if b = [] then p else if p \<noteq> [] then rowSetEntryMerge p b else b)"
  have "increasing q" "set q = set p \<union> set b" using Cons.prems by (auto simp: q_def increasing_merge set_merge)
  then show ?case using Cons.IH [of q] Cons.prems by (auto simp: Let_def q_def [symmetric])
qed simp

lemma rowSetEntrySort_result:
  assumes "length vs < 2 ^ 40"
  obtains ys where "rowSetEntrySort vs = Some ys" "increasing ys" "set ys = set vs"
proof -
  have "bucket_count (replicate n []) = 0" for n by (induction n) simp_all
  then obtain bs where f: "fill_buckets vs (replicate 40 []) = Some bs" "list_all increasing bs" "length bs = 40"
    "\<Union> (set ` set bs) = set vs"
    using fill_buckets_result [of "replicate 40 []" vs] assms by (auto simp: list_all_length)
  then obtain b bs' where bs: "bs = b # bs'" by (cases bs) auto
  have "increasing (join_buckets bs)" "set (join_buckets bs) = set vs"
    using join_result [of bs' b] f by (auto simp: bs join_buckets_def Let_def)
  then show thesis using that f(1) by (simp add: rowSetEntrySort_def)
qed

section \<open>Trees\<close>

lemma treeToList_inorder: "rowSetTreeToList t = inorder t"
  by (induction t) auto

lemma list_to_tree_inorder: "inorder (list_to_tree d p ps) = inorder p @ ps"
proof (induction d p ps rule: list_to_tree.induct)
  case (2 d p v ps)
  obtain r rest where r: "rowSetNDeepTree d ps = (r, rest)" by fastforce
  then show ?case using "2.IH" [OF r [symmetric]] NDeepTree_inorder [OF r] by simp
qed simp

lemma listToTree_inorder: "ps \<noteq> [] \<Longrightarrow> inorder (rowSetListToTree ps) = ps"
  by (simp add: rowSetListToTree_def list_to_tree_inorder)

text \<open>A tree of depth \<open>d\<close> is as deep as asked, and full when entries are left.\<close>

lemma NDeepTree_depth:
  "rowSetNDeepTree d ps = (t, rest) \<Longrightarrow> 1 \<le> d \<Longrightarrow> height t \<le> d \<and> (rest \<noteq> [] \<longrightarrow> size t + 1 = 2 ^ d)"
proof (induction d arbitrary: ps t rest)
  case (Suc e)
  note eq = rowSetNDeepTree.simps [of "Suc e" ps]
  show ?case
  proof (cases "ps \<noteq> [] \<and> e \<noteq> 0")
    case True
    obtain l rest1 where l: "rowSetNDeepTree e ps = (l, rest1)" by fastforce
    then have hl: "height l \<le> e" "rest1 \<noteq> [] \<longrightarrow> size l + 1 = 2 ^ e" using Suc.IH True by fastforce+
    show ?thesis
    proof (cases rest1)
      case Nil
      then show ?thesis using Suc.prems True l hl eq by simp
    next
      case (Cons v rest2)
      obtain r rest3 where r: "rowSetNDeepTree e rest2 = (r, rest3)" by fastforce
      then have hr: "height r \<le> e" "rest3 \<noteq> [] \<longrightarrow> size r + 1 = 2 ^ e" using Suc.IH True by fastforce+
      have "t = Node l v r" "rest = rest3" using Suc.prems True l r Cons eq by simp_all
      then show ?thesis using hl hr Cons by auto
    qed
  next
    case False
    then show ?thesis using Suc.prems eq by (cases "ps = []") auto
  qed
qed simp

lemma list_to_tree_depth:
  "1 \<le> d \<Longrightarrow> height p \<le> d \<Longrightarrow> (ps \<noteq> [] \<longrightarrow> size p + 1 = 2 ^ d) \<Longrightarrow> 2 ^ (height p - 1) \<le> size p \<Longrightarrow>
   2 ^ (height (list_to_tree d p ps) - 1) \<le> size (list_to_tree d p ps)"
proof (induction d p ps rule: list_to_tree.induct)
  case (2 d p v ps)
  obtain r rest where r: "rowSetNDeepTree d ps = (r, rest)" by fastforce
  note n = NDeepTree_depth [OF r "2.prems"(1)]
  have full: "size p + 1 = 2 ^ d" using "2.prems"(3) by simp
  have h: "height (Node p v r) \<le> d + 1" using "2.prems"(2) n by simp
  have "(2 :: nat) ^ (height (Node p v r) - 1) \<le> 2 ^ d" using h by (intro power_increasing) auto
  also have "\<dots> \<le> size (Node p v r)" using full by simp
  finally have "2 ^ (height (Node p v r) - 1) \<le> size (Node p v r)" .
  moreover have "rest \<noteq> [] \<longrightarrow> size (Node p v r) + 1 = 2 ^ (d + 1)" using full n by auto
  ultimately show ?case using "2.IH" [OF r [symmetric]] h r by simp
qed simp

text \<open>So a search takes at most one comparison more than the logarithm of the number of entries.\<close>

lemma listToTree_depth: "ps \<noteq> [] \<Longrightarrow> 2 ^ (height (rowSetListToTree ps) - 1) \<le> length ps"
proof -
  assume "ps \<noteq> []"
  have "length (inorder (rowSetListToTree ps)) = length ps" by (simp only: listToTree_inorder [OF \<open>ps \<noteq> []\<close>])
  moreover have "2 ^ (height (rowSetListToTree ps) - 1) \<le> size (rowSetListToTree ps)"
    unfolding rowSetListToTree_def by (rule list_to_tree_depth) simp_all
  ultimately show ?thesis by simp
qed

lemma tree_search_correct: "bst t \<Longrightarrow> tree_search t x \<longleftrightarrow> x \<in> set_tree t"
proof (induction t)
  case (Node l v r)
  then show ?case by (cases v x rule: linorder_cases) auto
qed simp

lemma bst_inorder: "increasing (inorder t) \<Longrightarrow> bst t"
  by (simp add: bst_iff_sorted_wrt_less)

section \<open>The forest\<close>

definition forest_set :: "int tree list \<Rightarrow> int set" where
  "forest_set ts = \<Union> (set_tree ` set ts)"

lemma forest_insert_result:
  "list_all bst ts \<Longrightarrow> increasing p \<Longrightarrow> p \<noteq> [] \<Longrightarrow>
   list_all bst (forest_insert ts p) \<and> forest_set (forest_insert ts p) = forest_set ts \<union> set p"
proof (induction ts arbitrary: p)
  case Nil
  then show ?case using listToTree_inorder [of p] set_inorder [of "rowSetListToTree p"]
    by (auto simp: forest_set_def bst_iff_sorted_wrt_less)
next
  case (Cons t ts)
  show ?case
  proof (cases "t = Leaf")
    case True
    then show ?thesis using Cons.prems listToTree_inorder [of p] set_inorder [of "rowSetListToTree p"]
      by (auto simp: forest_set_def bst_iff_sorted_wrt_less)
  next
    case False
    let ?q = "rowSetEntryMerge (rowSetTreeToList t) p"
    have "increasing ?q" "?q \<noteq> []" "set ?q = set_tree t \<union> set p"
      using Cons.prems by (auto simp: treeToList_inorder increasing_merge bst_iff_sorted_wrt_less merge_Nil_iff set_merge)
    then show ?thesis using Cons.IH [of ?q] Cons.prems(1) False by (auto simp: forest_set_def)
  qed
qed

lemma forest_search: "list_all bst ts \<Longrightarrow> list_ex (\<lambda>t. tree_search t x) ts \<longleftrightarrow> x \<in> forest_set ts"
  by (auto simp: list_ex_iff list_all_iff forest_set_def tree_search_correct)

section \<open>The set\<close>

definition rowset_inv :: "rowset \<Rightarrow> bool" where
  "rowset_inv p \<longleftrightarrow> list_all bst (rs_forest p) \<and> (rs_sorted p \<longrightarrow> increasing (rs_entries p))"

lemma rowset_inv_init: "rowset_inv sqlite3RowSetInit"
  by (simp add: rowset_inv_def sqlite3RowSetInit_def)

lemma increasing_append_last: "increasing xs \<Longrightarrow> xs = [] \<or> last xs < x \<Longrightarrow> increasing (xs @ [x])"
  by (induction xs) (auto split: if_splits dest: order.strict_trans)

lemma rowset_inv_insert: "rowset_inv p \<Longrightarrow> rowset_inv (sqlite3RowSetInsert x p)"
  by (auto simp: rowset_inv_def sqlite3RowSetInsert_def intro!: increasing_append_last)

lemma sorted_entries_result:
  assumes "rowset_inv p" "length (rs_entries p) < 2 ^ 40"
  obtains es where "sorted_entries p = Some es" "increasing es" "set es = set (rs_entries p)"
  using assms rowSetEntrySort_result [OF assms(2)] by (cases "rs_sorted p") (auto simp: sorted_entries_def rowset_inv_def)

text \<open>The specification: the ids of earlier batches, those of the current one, and its number.\<close>

record batches =
  old_ids :: "int set"
  new_ids :: "int set"
  batch_no :: int

definition rowset_abs :: "rowset \<Rightarrow> batches" where
  "rowset_abs p = \<lparr>old_ids = forest_set (rs_forest p), new_ids = set (rs_entries p), batch_no = rs_batch p\<rparr>"

definition spec_insert :: "int \<Rightarrow> batches \<Rightarrow> batches" where
  "spec_insert x b = b\<lparr>new_ids := insert x (new_ids b)\<rparr>"

definition spec_batch :: "int \<Rightarrow> batches \<Rightarrow> batches" where
  "spec_batch n b = (if n = batch_no b then b else \<lparr>old_ids = old_ids b \<union> new_ids b, new_ids = {}, batch_no = n\<rparr>)"

lemma insert_refines: "rowset_abs (sqlite3RowSetInsert x p) = spec_insert x (rowset_abs p)"
  by (simp add: rowset_abs_def sqlite3RowSetInsert_def spec_insert_def)

lemma start_batch_refines:
  assumes "rowset_inv p" "length (rs_entries p) < 2 ^ 40"
  obtains p' where "start_batch n p = Some p'" "rowset_inv p'" "rowset_abs p' = spec_batch n (rowset_abs p)"
    "length (rs_entries p') \<le> length (rs_entries p)"
proof (cases "n \<noteq> rs_batch p \<and> rs_entries p \<noteq> []")
  case True
  obtain es where es: "sorted_entries p = Some es" "increasing es" "set es = set (rs_entries p)"
    by (rule sorted_entries_result [OF assms])
  then have "es \<noteq> []" using True by auto
  then have f: "list_all bst (forest_insert (rs_forest p) es)"
    "forest_set (forest_insert (rs_forest p) es) = forest_set (rs_forest p) \<union> set es"
    using forest_insert_result [of "rs_forest p" es] assms(1) es(2) by (auto simp: rowset_inv_def)
  show thesis
    by (rule that [of "p\<lparr>rs_entries := [], rs_forest := forest_insert (rs_forest p) es, rs_sorted := True, rs_batch := n\<rparr>"])
      (use True es f in \<open>auto simp: start_batch_def rowset_inv_def rowset_abs_def spec_batch_def\<close>)
next
  case False
  then show thesis
  proof (cases "n = rs_batch p")
    case True
    then show thesis using that [of p] assms(1) by (simp add: start_batch_def spec_batch_def rowset_abs_def)
  next
    case no: False
    then show thesis using that [of "p\<lparr>rs_batch := n\<rparr>"] assms(1) False
      by (simp add: start_batch_def spec_batch_def rowset_abs_def rowset_inv_def)
  qed
qed

text \<open>Any sequence of insertions and tests, with the answers of the tests.\<close>

datatype rowset_op = Insert int | Test int int

fun rowset_run :: "rowset_op list \<Rightarrow> rowset \<Rightarrow> bool list option" where
  "rowset_run [] p = Some []"
| "rowset_run (Insert x # ops) p = rowset_run ops (sqlite3RowSetInsert x p)"
| "rowset_run (Test n x # ops) p =
     Option.bind (sqlite3RowSetTest n x p) (\<lambda>(b, p'). map_option (Cons b) (rowset_run ops p'))"

fun spec_run :: "rowset_op list \<Rightarrow> batches \<Rightarrow> bool list" where
  "spec_run [] b = []"
| "spec_run (Insert x # ops) b = spec_run ops (spec_insert x b)"
| "spec_run (Test n x # ops) b = (x \<in> old_ids (spec_batch n b)) # spec_run ops (spec_batch n b)"

lemma run_refines:
  "rowset_inv p \<Longrightarrow> length (rs_entries p) + length ops < 2 ^ 40 \<Longrightarrow> rowset_run ops p = Some (spec_run ops (rowset_abs p))"
proof (induction ops p rule: rowset_run.induct)
  case (2 x ops p)
  then show ?case by (simp add: rowset_inv_insert insert_refines) (simp add: sqlite3RowSetInsert_def)
next
  case (3 n x ops p)
  have "length (rs_entries p) < 2 ^ 40" using 3(3) by simp
  then obtain p' where p': "start_batch n p = Some p'" "rowset_inv p'" "rowset_abs p' = spec_batch n (rowset_abs p)"
    "length (rs_entries p') \<le> length (rs_entries p)" by (rule start_batch_refines [OF 3(2)])
  define a where "a = list_ex (\<lambda>t. tree_search t x) (rs_forest p')"
  have t: "sqlite3RowSetTest n x p = Some (a, p')" by (simp add: sqlite3RowSetTest_def p'(1) a_def)
  have "a \<longleftrightarrow> x \<in> old_ids (spec_batch n (rowset_abs p))"
    using forest_search [of "rs_forest p'" x] p'(2) unfolding p'(3) [symmetric] by (simp add: a_def rowset_inv_def rowset_abs_def)
  moreover have "rowset_run ops p' = Some (spec_run ops (rowset_abs p'))"
    using "3.IH" [OF t refl p'(2)] 3(3) p'(4) by simp
  ultimately show ?case by (simp add: t p'(3))
qed simp

section \<open>Reading in order\<close>

fun rowset_drain :: "nat \<Rightarrow> rowset \<Rightarrow> int list option" where
  "rowset_drain 0 p = Some []"
| "rowset_drain (Suc k) p =
     (case sqlite3RowSetNext p of
        None \<Rightarrow> None
      | Some (None, p') \<Rightarrow> Some []
      | Some (Some v, p') \<Rightarrow> map_option (Cons v) (rowset_drain k p'))"

lemma drain_sorted: "rs_next p \<or> rs_sorted p \<Longrightarrow> length (rs_entries p) < k \<Longrightarrow> rowset_drain k p = Some (rs_entries p)"
proof (induction k arbitrary: p)
  case (Suc k)
  show ?case
  proof (cases "rs_entries p")
    case Nil
    then show ?thesis using Suc.prems by (auto simp: sqlite3RowSetNext_def sorted_entries_def Let_def)
  next
    case (Cons v es)
    define q where "q = (if es = [] then sqlite3RowSetClear (p\<lparr>rs_entries := v # es, rs_sorted := True, rs_next := True\<rparr>)
      else p\<lparr>rs_entries := es, rs_sorted := True, rs_next := True\<rparr>)"
    have "sqlite3RowSetNext p = Some (Some v, q)"
      using Suc.prems(1) Cons by (auto simp: sqlite3RowSetNext_def sorted_entries_def Let_def q_def)
    moreover have "rowset_drain k q = Some es" using Suc.IH [of q] Suc.prems(2) Cons by (auto simp: q_def sqlite3RowSetClear_def)
    ultimately show ?thesis using Cons by simp
  qed
qed simp

definition inserted :: "int list \<Rightarrow> rowset" where
  "inserted xs = foldl (\<lambda>p x. sqlite3RowSetInsert x p) sqlite3RowSetInit xs"

lemma inserted_entries:
  "rowset_inv (inserted xs) \<and> rs_entries (inserted xs) = xs \<and> \<not> rs_next (inserted xs)"
proof (induction xs rule: rev_induct)
  case Nil
  then show ?case using rowset_inv_init by (simp add: inserted_def sqlite3RowSetInit_def)
next
  case (snoc x xs)
  have "inserted (xs @ [x]) = sqlite3RowSetInsert x (inserted xs)" by (simp add: inserted_def)
  moreover have "rowset_inv (sqlite3RowSetInsert x (inserted xs))" using snoc by (simp only: rowset_inv_insert)
  ultimately show ?case using snoc by (simp add: sqlite3RowSetInsert_def [of x "inserted xs"])
qed

lemma increasing_unique: "increasing xs \<Longrightarrow> xs = sorted_list_of_set (set xs)"
  using strict_sorted_equal [OF _ strict_sorted_list_of_set, of xs "set xs"] by simp

section \<open>Properties\<close>

text \<open>
  C15: Insertions and tests in any order are answered as the specification answers them: a test of a batch says
  whether the id was inserted before the batch began, whatever the order of the insertions, the
  duplicates among them and the forest that the earlier batches left; fewer than \<open>2 ^ 40\<close> operations
  never run out of places in the merge sort.
\<close>

theorem rowset_run_refines:
  assumes "length ops < 2 ^ 40"
  shows "rowset_run ops sqlite3RowSetInit = Some (spec_run ops \<lparr>old_ids = {}, new_ids = {}, batch_no = 0\<rparr>)"
proof -
  have "rowset_abs sqlite3RowSetInit = \<lparr>old_ids = {}, new_ids = {}, batch_no = 0\<rparr>"
    by (simp add: rowset_abs_def sqlite3RowSetInit_def forest_set_def)
  moreover have "length (rs_entries sqlite3RowSetInit) + length ops < 2 ^ 40"
    using assms by (simp add: sqlite3RowSetInit_def)
  ultimately show ?thesis using run_refines [OF rowset_inv_init] by simp
qed

theorem rowset_run_refines_witness:
  "rowset_run [Insert 5, Insert 3, Test 1 3, Insert 9, Test 1 9, Test 2 9, Test 2 4] sqlite3RowSetInit
     = Some [True, False, True, False]"
  using rowset_run_refines [of "[Insert 5, Insert 3, Test 1 3, Insert 9, Test 1 9, Test 2 9, Test 2 4]"]
  by (simp add: spec_insert_def spec_batch_def)

text \<open>
  C27: A set that is read takes out the inserted ids in increasing order, each once, and then says that it is
  empty.
\<close>

theorem rowset_read_in_order:
  assumes "length xs < 2 ^ 40"
  shows "rowset_drain (length xs + 1) (inserted xs) = Some (sorted_list_of_set (set xs))"
proof -
  note i = inserted_entries [of xs]
  obtain es where es: "sorted_entries (inserted xs) = Some es" "increasing es" "set es = set xs"
    using sorted_entries_result [of "inserted xs"] i assms by auto
  have "card (set es) \<le> length xs" unfolding es(3) by (rule card_length)
  then have l: "length es \<le> length xs" using es(2) distinct_card [of es] by (simp add: strict_sorted_iff)
  let ?q = "inserted xs\<lparr>rs_entries := es, rs_sorted := True\<rparr>"
  have "sqlite3RowSetNext (inserted xs) = sqlite3RowSetNext ?q"
    using i es(1) by (simp add: sqlite3RowSetNext_def sorted_entries_def)
  then have "rowset_drain (length xs + 1) (inserted xs) = rowset_drain (length xs + 1) ?q" by simp
  also have "\<dots> = Some es" using drain_sorted [of ?q "length xs + 1"] l by simp
  finally show ?thesis using increasing_unique [OF es(2)] es(3) by simp
qed

theorem rowset_read_in_order_witness:
  "rowset_drain 5 (inserted [7, 2, 7, 4]) = Some [2, 4, 7]"
proof -
  have "sorted_list_of_set (set [7, 2, 7, 4]) = [2, 4, 7 :: int]" by (simp add: insert_commute)
  moreover have "length [7, 2, 7, 4 :: int] < 2 ^ 40" "length [7, 2, 7, 4 :: int] + 1 = 5" by simp_all
  ultimately show ?thesis using rowset_read_in_order [of "[7, 2, 7, 4]"] by argo
qed

end
