(* ===== verification/SqlHash.thy ===== *)
theory SqlHash
  imports Prelude "HOL-Library.Monad_Syntax"
begin

text \<open>
  The hash tables of SQLite (\<^verbatim>\<open>sqlite/sqlite3.c\<close>, section \<^verbatim>\<open>hash.c\<close>), which hold its schemas, functions and
  collations by name. All elements are on one doubly linked list; a bucket is a pointer into that list and the number of its
  elements, which follow each other there. The links are shared by the list and the buckets, so the elements live in
  an explicit memory, a map from addresses to elements. The null pointer is \<open>None\<close>; an operation is \<open>None\<close> when it
  follows the null pointer or the address of an element that was freed, or indexes the buckets out of range.

  A key is a C string without its terminator. The table does not copy keys, so they are values here under the
  rule of the source that their owner keeps them unchanged. The allocator is a parameter: whether it finds memory for an element
  and where, and how many buckets the block has that it gives for a number of them (\<open>sqlite3MallocSize\<close>).
\<close>

section \<open>Keys\<close>

text \<open>The table of the source in its three runs.\<close>

definition UpperToLower_table :: "u8 list" where
  "UpperToLower_table = map of_nat ([0..<65] @ [97..<123] @ [91..<256])"

definition UpperToLower :: "u8 \<Rightarrow> u8" where
  "UpperToLower c = UpperToLower_table ! unat c"

definition first_byte :: "u8 list \<Rightarrow> u8" where
  "first_byte z = (case z of [] \<Rightarrow> 0 | c # _ \<Rightarrow> c)"

lemma UpperToLower_case: "UpperToLower c = (if 65 \<le> c \<and> c \<le> 90 then c + 32 else c)"
proof -
  have n: "([0..<65] @ [97..<123] @ [91..<256]) ! i = (if i < 65 then i else if i < 91 then i + 32 else i)" if "i < 256" for i :: nat
    using that by (auto simp: nth_append simp del: upt_rec_numeral)
  have "(65 \<le> c \<and> c \<le> 90) = (65 \<le> unat c \<and> unat c \<le> 90)" by (simp add: word_le_nat_alt)
  moreover have "(of_nat (unat c + 32) :: u8) = c + 32" by simp
  moreover have c: "unat c < 256" using unsigned_less [of c, where ?'a = nat] by simp
  moreover have "UpperToLower c = of_nat (([0..<65] @ [97..<123] @ [91..<256]) ! unat c)"
    unfolding UpperToLower_def UpperToLower_table_def by (rule nth_map) (use c in \<open>simp del: upt_rec_numeral\<close>)
  ultimately show ?thesis using n [of "unat c"] by auto
qed

lemma UpperToLower_0: "UpperToLower c = 0 \<longleftrightarrow> c = 0"
proof -
  have "c + 32 \<noteq> 0" if "c \<le> 90"
  proof
    assume "c + 32 = 0"
    then have "c = - 32" by (simp add: eq_neg_iff_add_eq_0)
    then show False using that by simp
  qed
  then show ?thesis by (auto simp: UpperToLower_case)
qed

function sqlite3StrICmp :: "u8 list \<Rightarrow> u8 list \<Rightarrow> int" where
  "sqlite3StrICmp a b =
     (let c = first_byte a; x = first_byte b in
      if c = x then (if c = 0 then 0 else sqlite3StrICmp (tl a) (tl b))
      else let d = int (unat (UpperToLower c)) - int (unat (UpperToLower x)) in
           if d \<noteq> 0 then d else sqlite3StrICmp (tl a) (tl b))"
  by pat_completeness auto

termination
  by (relation "measure (\<lambda>(a, b). length a + length b)")
    (auto simp: first_byte_def split: list.splits if_splits)

declare sqlite3StrICmp.simps [simp del]

fun hash_loop :: "u8 list \<Rightarrow> u32 \<Rightarrow> u32" where
  "hash_loop [] h = h"
| "hash_loop (c # z) h = (if c = 0 then h else hash_loop z ((h + (0xdf AND ucast c)) * 0x9e3779b1))"

definition strHash :: "u8 list \<Rightarrow> u32" where
  "strHash z = hash_loop z 0"

section \<open>Memory\<close>

type_synonym addr = nat

record 'd hash_elem =
  e_next :: "addr option"
  e_prev :: "addr option"
  e_data :: "'d option"
  e_key :: "u8 list"
  e_h :: u32

type_synonym 'd memory = "addr \<Rightarrow> 'd hash_elem option"

definition modify :: "addr option \<Rightarrow> ('d hash_elem \<Rightarrow> 'd hash_elem) \<Rightarrow> 'd memory \<Rightarrow> 'd memory option" where
  "modify p f mem = do { a \<leftarrow> p; e \<leftarrow> mem a; Some (mem(a \<mapsto> f e)) }"

record bucket =
  b_count :: u32
  b_chain :: "addr option"

record 'd hash =
  htsize :: u32
  h_count :: u32
  h_first :: "addr option"
  ht :: "bucket list option"
  elems :: "'d memory"

record allocator =
  out_of_memory :: bool
  elem_at :: "(addr \<Rightarrow> bool) \<Rightarrow> addr"
  bucket_block :: "u32 \<Rightarrow> u32 option"

section \<open>Operations\<close>

definition sqlite3HashInit :: "'d hash" where
  "sqlite3HashInit = \<lparr>htsize = 0, h_count = 0, h_first = None, ht = None, elems = Map.empty\<rparr>"

partial_function (option) free_elems :: "addr option \<Rightarrow> 'd memory \<Rightarrow> 'd memory option" where
  "free_elems p mem =
     (case p of
        None \<Rightarrow> Some mem
      | Some a \<Rightarrow> do { e \<leftarrow> mem a; free_elems (e_next e) (mem(a := None)) })"

declare free_elems.simps [code]

definition sqlite3HashClear :: "'d hash \<Rightarrow> 'd hash option" where
  "sqlite3HashClear H = do {
     mem \<leftarrow> free_elems (h_first H) (elems H);
     Some (H\<lparr>h_first := None, ht := None, htsize := 0, h_count := 0, elems := mem\<rparr>) }"

text \<open>The head of a bucket before the new element enters it, and the buckets after that.\<close>

definition enter_bucket :: "nat option \<Rightarrow> addr \<Rightarrow> bucket list option \<Rightarrow> (addr option \<times> bucket list option) option" where
  "enter_bucket pEntry pNew t =
     (case pEntry of
        None \<Rightarrow> Some (None, t)
      | Some i \<Rightarrow> do {
          bs \<leftarrow> t;
          if i < length bs then
            Some (if b_count (bs ! i) \<noteq> 0 then b_chain (bs ! i) else None,
                  Some (bs[i := \<lparr>b_count = b_count (bs ! i) + 1, b_chain = Some pNew\<rparr>]))
          else None })"

definition insertElement :: "nat option \<Rightarrow> addr \<Rightarrow> 'd hash \<Rightarrow> 'd hash option" where
  "insertElement pEntry pNew H = do {
     (pHead, t) \<leftarrow> enter_bucket pEntry pNew (ht H);
     case pHead of
       Some b \<Rightarrow> do {
         eh \<leftarrow> elems H b;
         mem1 \<leftarrow> modify (Some pNew) (\<lambda>e. e\<lparr>e_next := pHead, e_prev := e_prev eh\<rparr>) (elems H);
         mem2 \<leftarrow> (if e_prev eh \<noteq> None then modify (e_prev eh) (e_next_update (\<lambda>_. Some pNew)) mem1 else Some mem1);
         mem3 \<leftarrow> modify pHead (e_prev_update (\<lambda>_. Some pNew)) mem2;
         Some (H\<lparr>ht := t, elems := mem3, h_first := (if e_prev eh \<noteq> None then h_first H else Some pNew)\<rparr>) }
     | None \<Rightarrow> do {
         mem1 \<leftarrow> modify (Some pNew) (\<lambda>e. e\<lparr>e_next := h_first H\<rparr>) (elems H);
         mem2 \<leftarrow> (if h_first H \<noteq> None then modify (h_first H) (e_prev_update (\<lambda>_. Some pNew)) mem1 else Some mem1);
         mem3 \<leftarrow> modify (Some pNew) (\<lambda>e. e\<lparr>e_prev := None\<rparr>) mem2;
         Some (H\<lparr>ht := t, elems := mem3, h_first := Some pNew\<rparr>) } }"

text \<open>The bucket of a hash value; the size is the number of the buckets.\<close>

definition slot :: "u32 \<Rightarrow> 'd hash \<Rightarrow> nat" where
  "slot h H = unat (h mod htsize H)"

partial_function (option) rehash_loop :: "addr option \<Rightarrow> 'd hash \<Rightarrow> 'd hash option" where
  "rehash_loop elem H =
     (case elem of
        None \<Rightarrow> Some H
      | Some a \<Rightarrow> do {
          e \<leftarrow> elems H a;
          H' \<leftarrow> insertElement (Some (slot (e_h e) H)) a H;
          rehash_loop (e_next e) H' })"

declare rehash_loop.simps [code]

text \<open>A bucket has 16 bytes, a block of buckets at most \<open>SQLITE_MALLOC_SOFT_LIMIT\<close>, which is 1024.\<close>

definition rehash :: "allocator \<Rightarrow> u32 \<Rightarrow> 'd hash \<Rightarrow> 'd hash option" where
  "rehash g new_size H =
     (let new_size = (if unat new_size * 16 > 1024 then 64 else new_size) in
      if new_size = htsize H then Some H
      else case bucket_block g new_size of
        None \<Rightarrow> Some H
      | Some n \<Rightarrow> rehash_loop (h_first H)
          (H\<lparr>ht := Some (replicate (unat n) \<lparr>b_count = 0, b_chain = None\<rparr>), htsize := n, h_first := None\<rparr>))"

fun find_loop :: "'d memory \<Rightarrow> u32 \<Rightarrow> u8 list \<Rightarrow> nat \<Rightarrow> addr option \<Rightarrow> addr option option" where
  "find_loop mem h pKey 0 elem = Some None"
| "find_loop mem h pKey (Suc count) elem = do {
     a \<leftarrow> elem;
     e \<leftarrow> mem a;
     if h = e_h e \<and> sqlite3StrICmp (e_key e) pKey = 0 then Some elem else find_loop mem h pKey count (e_next e) }"

text \<open>The element with a key, or \<open>None\<close> for \<open>nullElement\<close>, and the hash of the key.\<close>

definition findElementWithHash :: "u8 list \<Rightarrow> 'd hash \<Rightarrow> (addr option \<times> u32) option" where
  "findElementWithHash pKey H =
     (let h = strHash pKey in do {
      (elem, count) \<leftarrow> (case ht H of
          Some bs \<Rightarrow> if slot h H < length bs then Some (b_chain (bs ! slot h H), b_count (bs ! slot h H)) else None
        | None \<Rightarrow> Some (h_first H, h_count H));
      found \<leftarrow> find_loop (elems H) h pKey (unat count) elem;
      Some (found, h) })"

definition removeElement :: "addr \<Rightarrow> 'd hash \<Rightarrow> 'd hash option" where
  "removeElement elem H = do {
     e \<leftarrow> elems H elem;
     mem1 \<leftarrow> (if e_prev e \<noteq> None then modify (e_prev e) (e_next_update (\<lambda>_. e_next e)) (elems H) else Some (elems H));
     mem2 \<leftarrow> (if e_next e \<noteq> None then modify (e_next e) (e_prev_update (\<lambda>_. e_prev e)) mem1 else Some mem1);
     t \<leftarrow> (case ht H of
         None \<Rightarrow> Some None
       | Some bs \<Rightarrow>
           let i = slot (e_h e) H in
           if i < length bs then
             Some (Some (bs[i := \<lparr>b_count = b_count (bs ! i) - 1,
               b_chain = (if b_chain (bs ! i) = Some elem then e_next e else b_chain (bs ! i))\<rparr>]))
           else None);
     let H' = H\<lparr>h_first := (if e_prev e \<noteq> None then h_first H else e_next e), ht := t, elems := mem2(elem := None),
       h_count := h_count H - 1\<rparr>;
     if h_count H' = 0 then sqlite3HashClear H' else Some H' }"

definition elem_data :: "addr option \<Rightarrow> 'd hash \<Rightarrow> 'd option option" where
  "elem_data p H = (case p of None \<Rightarrow> Some None | Some a \<Rightarrow> map_option e_data (elems H a))"

definition sqlite3HashFind :: "u8 list \<Rightarrow> 'd hash \<Rightarrow> 'd option option" where
  "sqlite3HashFind pKey H = do {
     (elem, _) \<leftarrow> findElementWithHash pKey H;
     elem_data elem H }"

text \<open>The new element, whose links \<open>insertElement\<close> sets.\<close>

definition add_element :: "allocator \<Rightarrow> u8 list \<Rightarrow> u32 \<Rightarrow> 'd \<Rightarrow> 'd hash \<Rightarrow> 'd hash option" where
  "add_element g pKey h data H = do {
     let a = elem_at g (\<lambda>a. elems H a \<noteq> None);
     let H1 = H\<lparr>elems := (elems H)(a \<mapsto> \<lparr>e_next = None, e_prev = None, e_data = Some data, e_key = pKey, e_h = h\<rparr>),
       h_count := h_count H + 1\<rparr>;
     H2 \<leftarrow> (if h_count H1 \<ge> 5 \<and> h_count H1 > 2 * htsize H1 then rehash g (h_count H1 * 3) H1 else Some H1);
     insertElement (if ht H2 \<noteq> None then Some (slot h H2) else None) a H2 }"

text \<open>The previous data of the key, or the given data when there is no memory, and the table.\<close>

definition sqlite3HashInsert :: "allocator \<Rightarrow> u8 list \<Rightarrow> 'd option \<Rightarrow> 'd hash \<Rightarrow> ('d option \<times> 'd hash) option" where
  "sqlite3HashInsert g pKey data H = do {
     (elem, h) \<leftarrow> findElementWithHash pKey H;
     old_data \<leftarrow> elem_data elem H;
     case (old_data, data) of
       (Some _, None) \<Rightarrow> do { a \<leftarrow> elem; H' \<leftarrow> removeElement a H; Some (old_data, H') }
     | (Some _, Some d) \<Rightarrow> do {
         mem \<leftarrow> modify elem (\<lambda>e. e\<lparr>e_data := Some d, e_key := pKey\<rparr>) (elems H);
         Some (old_data, H\<lparr>elems := mem\<rparr>) }
     | (None, None) \<Rightarrow> Some (None, H)
     | (None, Some d) \<Rightarrow>
         if out_of_memory g then Some (data, H) else do { H' \<leftarrow> add_element g pKey h d H; Some (None, H') } }"

end
