(* ===== verification/SqlHashMem.thy ===== *)
theory SqlHashMem
  imports SqlHash
begin

text \<open>
  Keys up to the case of letters, and the doubly linked list of the elements in memory as a list of addresses: how links to it
  are set and removed, and lists in which the elements of a bucket are neighbours.
\<close>

section \<open>Keys\<close>

definition folded :: "u8 list \<Rightarrow> u8 list" where
  "folded z = map UpperToLower (takeWhile (\<lambda>c. c \<noteq> 0) z)"

lemma folded_simps [simp]:
  "folded [] = []"
  "folded (c # z) = (if c = 0 then [] else UpperToLower c # folded z)"
  by (simp_all add: folded_def)

lemma lower_diff: "int (unat (UpperToLower x)) - int (unat (UpperToLower y)) = 0 \<longleftrightarrow> UpperToLower x = UpperToLower y"
  by (simp only: word_unat_eq_iff) linarith

lemma lower_0: "UpperToLower 0 = 0"
  by (simp only: UpperToLower_0)

text \<open>The comparison answers zero exactly for keys that differ in the case of letters only.\<close>

lemma StrICmp_0: "sqlite3StrICmp a b = 0 \<longleftrightarrow> folded a = folded b"
proof (induction a arbitrary: b)
  case Nil
  have "sqlite3StrICmp [] (x # b') = 0 \<longleftrightarrow> x = 0" for x b'
    using lower_diff [of 0 x] UpperToLower_0 [of x] by (simp add: sqlite3StrICmp.simps [of "[]" "x # b'"] first_byte_def Let_def lower_0)
  moreover have "sqlite3StrICmp [] [] = 0" by (simp add: sqlite3StrICmp.simps [of "[]" "[]"] first_byte_def)
  ultimately show ?case by (cases b) simp_all
next
  case (Cons c a)
  show ?case
  proof (cases b)
    case Nil
    then show ?thesis using lower_diff [of c 0] UpperToLower_0 [of c]
      by (simp add: sqlite3StrICmp.simps [of "c # a" "[]"] first_byte_def Let_def lower_0)
  next
    case b: (Cons x b')
    have nz: "c \<noteq> x \<Longrightarrow> UpperToLower c = UpperToLower x \<Longrightarrow> c \<noteq> 0 \<and> x \<noteq> 0" by (metis UpperToLower_0)
    have "sqlite3StrICmp (c # a) (x # b') = 0 \<longleftrightarrow>
        (if c = x then c = 0 \<or> sqlite3StrICmp a b' = 0 else UpperToLower c = UpperToLower x \<and> sqlite3StrICmp a b' = 0)"
      unfolding sqlite3StrICmp.simps [of "c # a" "x # b'"] lower_diff [symmetric] by (simp add: first_byte_def Let_def)
    then show ?thesis unfolding b Cons [of b'] using nz by auto
  qed
qed

definition folded_hash :: "u8 list \<Rightarrow> u32" where
  "folded_hash = foldl (\<lambda>h c. (h + (0xdf AND ucast c)) * 0x9e3779b1) 0"

lemma case_bit: "0xdf AND UpperToLower c = 0xdf AND c"
proof (cases "65 \<le> c \<and> c \<le> 90")
  case True
  then have "unat c \<in> set [65..<91]" by (auto simp: word_le_nat_alt simp del: upt_rec_numeral)
  moreover have "list_all (\<lambda>i. 0xdf AND (of_nat i + 32 :: u8) = 0xdf AND of_nat i) [65..<91]" by code_simp
  ultimately have "0xdf AND (of_nat (unat c) + 32 :: u8) = 0xdf AND of_nat (unat c)" unfolding list_all_iff by blast
  then show ?thesis using True by (simp add: UpperToLower_case)
qed (auto simp: UpperToLower_case)

lemma strHash_folded: "strHash z = folded_hash (folded z)"
proof -
  have w: "(0xdf AND ucast (UpperToLower c) :: u32) = 0xdf AND ucast c" for c
    using arg_cong [OF case_bit [of c], of "ucast :: u8 \<Rightarrow> u32"] by (simp add: unsigned_and_eq)
  have "hash_loop z h = foldl (\<lambda>h c. (h + (0xdf AND ucast c)) * 0x9e3779b1) h (folded z)" for h
    by (induction z arbitrary: h) (simp_all add: w)
  then show ?thesis by (simp add: strHash_def folded_hash_def)
qed

section \<open>Linked lists\<close>

definition last_or :: "addr option \<Rightarrow> addr list \<Rightarrow> addr option" where
  "last_or p as = (if as = [] then p else Some (last as))"

definition head_or :: "addr list \<Rightarrow> addr option \<Rightarrow> addr option" where
  "head_or as p = (if as = [] then p else Some (hd as))"

text \<open>From \<open>p\<close> on there are the elements \<open>as\<close> and then \<open>nx\<close>; the first points back to \<open>pr\<close>.\<close>

fun segment :: "'d memory \<Rightarrow> addr option \<Rightarrow> addr option \<Rightarrow> addr list \<Rightarrow> addr option \<Rightarrow> bool" where
  "segment m pr p [] nx \<longleftrightarrow> p = nx"
| "segment m pr p (a # as) nx \<longleftrightarrow> p = Some a \<and> (\<exists>e. m a = Some e \<and> e_prev e = pr \<and> segment m (Some a) (e_next e) as nx)"

lemma segment_start: "segment m pr p as nx \<Longrightarrow> p = head_or as nx"
  by (cases as) (simp_all add: head_or_def)

lemma segment_append:
  "segment m pr p (as @ bs) nx \<longleftrightarrow> segment m pr p as (head_or bs nx) \<and> segment m (last_or pr as) (head_or bs nx) bs nx"
proof (induction as arbitrary: pr p)
  case Nil
  then show ?case using segment_start [of m pr p bs nx] by (auto simp: last_or_def)
next
  case (Cons a as)
  then show ?case by (auto simp: last_or_def)
qed

lemma segment_frame [simp]: "a \<notin> set as \<Longrightarrow> segment (m(a := x)) pr p as nx = segment m pr p as nx"
  by (induction as arbitrary: pr p) auto

lemma segment_cong: "(\<And>a. a \<in> set as \<Longrightarrow> m' a = m a) \<Longrightarrow> segment m' pr p as nx = segment m pr p as nx"
  by (induction as arbitrary: pr p) auto

lemma segment_last_next:
  assumes "segment m pr p as nx" "distinct as" "as \<noteq> []"
  obtains e where "m (last as) = Some e" "segment (m(last as \<mapsto> e\<lparr>e_next := nx'\<rparr>)) pr p as nx'"
proof -
  obtain bs l where as: "as = bs @ [l]" using assms(3) by (cases as rule: rev_cases) auto
  then show thesis using that assms(1,2) by (auto simp: segment_append head_or_def)
qed

lemma segment_head_prev:
  assumes "segment m pr p (a # as) nx" "a \<notin> set as"
  obtains e where "m a = Some e" "segment (m(a \<mapsto> e\<lparr>e_prev := pr'\<rparr>)) pr' p (a # as) nx"
  using assms by auto

text \<open>What an element is apart from its links.\<close>

definition info :: "'d memory \<Rightarrow> addr \<Rightarrow> (u8 list \<times> u32 \<times> 'd option) option" where
  "info m a = map_option (\<lambda>e. (folded (e_key e), e_h e, e_data e)) (m a)"

lemma info_links [simp]:
  "m a = Some e \<Longrightarrow> info (m(a \<mapsto> e\<lparr>e_next := p\<rparr>)) = info m"
  "m a = Some e \<Longrightarrow> info (m(a \<mapsto> e\<lparr>e_prev := p\<rparr>)) = info m"
  "m a = Some e \<Longrightarrow> info (m(a \<mapsto> e\<lparr>e_next := p, e_prev := q\<rparr>)) = info m"
  by (auto simp: info_def fun_eq_iff)

lemma info_dom: "dom m = {a. info m a \<noteq> None}"
  by (auto simp: info_def)

text \<open>A new element is put in front of another one, or in front of the whole list.\<close>

lemma link_before:
  assumes seg: "segment m None p (us @ b # ws) None" and dist: "distinct (us @ b # ws)" and a: "a \<notin> set (us @ b # ws)" "m a = Some ea"
  obtains eb m1 m2 m3 where "m b = Some eb" "(e_prev eb \<noteq> None) = (us \<noteq> [])"
    "modify (Some a) (\<lambda>e. e\<lparr>e_next := Some b, e_prev := e_prev eb\<rparr>) m = Some m1"
    "(if e_prev eb \<noteq> None then modify (e_prev eb) (e_next_update (\<lambda>_. Some a)) m1 else Some m1) = Some m2"
    "modify (Some b) (e_prev_update (\<lambda>_. Some a)) m2 = Some m3"
    "segment m3 None (if us = [] then Some a else p) (us @ a # b # ws) None" "info m3 = info m"
    "\<And>x. x \<notin> set (us @ a # b # ws) \<Longrightarrow> m3 x = m x"
proof -
  have s: "segment m None p us (Some b)" "segment m (last_or None us) (Some b) (b # ws) None"
    using seg by (simp_all add: segment_append head_or_def)
  obtain eb where eb: "m b = Some eb" "e_prev eb = last_or None us" using s(2) by auto
  define m1 where "m1 = m(a \<mapsto> ea\<lparr>e_next := Some b, e_prev := e_prev eb\<rparr>)"
  have m1: "modify (Some a) (\<lambda>e. e\<lparr>e_next := Some b, e_prev := e_prev eb\<rparr>) m = Some m1" "info m1 = info m"
    using a(2) by (simp_all add: modify_def m1_def)
  have s1: "segment m1 None p us (Some b)" "segment m1 (last_or None us) (Some b) (b # ws) None" "m1 b = Some eb"
    using s eb(1) a(1) by (auto simp: m1_def)
  obtain m2 where m2: "(if e_prev eb \<noteq> None then modify (e_prev eb) (e_next_update (\<lambda>_. Some a)) m1 else Some m1) = Some m2"
    "segment m2 None (if us = [] then Some a else p) us (Some a)" "info m2 = info m1" "\<And>x. x \<notin> set us \<Longrightarrow> m2 x = m1 x"
  proof (cases "us = []")
    case True
    then show thesis using that [of m1] eb(2) by (simp add: last_or_def)
  next
    case False
    then obtain el where el: "m1 (last us) = Some el" "segment (m1(last us \<mapsto> el\<lparr>e_next := Some a\<rparr>)) None p us (Some a)"
      using segment_last_next [OF s1(1), of "Some a"] dist by auto
    show thesis by (rule that [of "m1(last us \<mapsto> el\<lparr>e_next := Some a\<rparr>)"]) (use el False eb(2) in \<open>auto simp: modify_def last_or_def\<close>)
  qed
  have b2: "m2 b = Some eb" "m2 a = m1 a" using m2(4) s1(3) dist a(1) by auto
  define m3 where "m3 = m2(b \<mapsto> eb\<lparr>e_prev := Some a\<rparr>)"
  have "segment m2 (last_or None us) (Some b) (b # ws) None"
    using s1(2) dist m2(4) segment_cong [of "b # ws" m2 m1 "last_or None us" "Some b" None] by auto
  then have "segment m3 (Some a) (Some b) (b # ws) None" using b2(1) dist by (auto simp: m3_def)
  moreover have "segment m3 None (if us = [] then Some a else p) us (Some a)" using m2(2) dist by (simp add: m3_def)
  moreover have "m3 a = Some (ea\<lparr>e_next := Some b, e_prev := last_or None us\<rparr>)"
    using b2(2) a(1) eb(2) by (auto simp: m3_def m1_def)
  ultimately have seg3: "segment m3 None (if us = [] then Some a else p) (us @ a # b # ws) None"
    by (simp add: segment_append head_or_def)
  have m3: "modify (Some b) (e_prev_update (\<lambda>_. Some a)) m2 = Some m3" "info m3 = info m"
    using b2(1) m1(2) m2(3) by (simp_all add: modify_def m3_def)
  have "m3 x = m x" if "x \<notin> set (us @ a # b # ws)" for x using that m2(4) by (simp add: m3_def m1_def)
  then show thesis using eb(2) by (intro that [OF eb(1) _ m1(1) m2(1) m3(1) seg3 m3(2)]) (auto simp: last_or_def)
qed

lemma link_first:
  assumes seg: "segment m None p ws None" and dist: "distinct ws" and a: "a \<notin> set ws" "m a = Some ea"
  obtains m1 m2 m3 where "modify (Some a) (\<lambda>e. e\<lparr>e_next := p\<rparr>) m = Some m1"
    "(if p \<noteq> None then modify p (e_prev_update (\<lambda>_. Some a)) m1 else Some m1) = Some m2"
    "modify (Some a) (\<lambda>e. e\<lparr>e_prev := None\<rparr>) m2 = Some m3"
    "segment m3 None (Some a) (a # ws) None" "info m3 = info m" "\<And>x. x \<notin> set (a # ws) \<Longrightarrow> m3 x = m x"
proof -
  define m1 where "m1 = m(a \<mapsto> ea\<lparr>e_next := p\<rparr>)"
  have m1: "modify (Some a) (\<lambda>e. e\<lparr>e_next := p\<rparr>) m = Some m1" "info m1 = info m" "segment m1 None p ws None"
    using a seg by (simp_all add: modify_def m1_def)
  obtain m2 where m2: "(if p \<noteq> None then modify p (e_prev_update (\<lambda>_. Some a)) m1 else Some m1) = Some m2"
    "segment m2 (Some a) p ws None" "info m2 = info m1" "\<And>x. x \<notin> set ws \<Longrightarrow> m2 x = m1 x"
  proof (cases ws)
    case Nil
    then show thesis using that [of m1] m1(3) by simp
  next
    case (Cons b bs)
    then obtain eb where eb: "m1 b = Some eb" "segment (m1(b \<mapsto> eb\<lparr>e_prev := Some a\<rparr>)) (Some a) p (b # bs) None"
      using segment_head_prev [of m1 None p b bs None "Some a"] m1(3) dist by auto
    have "p = Some b" using m1(3) Cons by simp
    then show thesis using that [of "m1(b \<mapsto> eb\<lparr>e_prev := Some a\<rparr>)"] eb Cons by (auto simp: modify_def)
  qed
  define m3 where "m3 = m2(a \<mapsto> ea\<lparr>e_next := p, e_prev := None\<rparr>)"
  have ea: "m2 a = Some (ea\<lparr>e_next := p\<rparr>)" using m2(4) a(1) by (simp add: m1_def)
  then have "modify (Some a) (\<lambda>e. e\<lparr>e_prev := None\<rparr>) m2 = Some m3" "info m3 = info m2"
    by (simp_all add: modify_def m3_def info_def fun_eq_iff)
  moreover have "segment m3 None (Some a) (a # ws) None" using m2(2) a(1) by (simp add: m3_def)
  moreover have "m3 x = m x" if "x \<notin> set (a # ws)" for x using that m2(4) by (simp add: m3_def m1_def)
  ultimately show thesis using that m1 m2(1,3) by metis
qed

text \<open>An element is taken out.\<close>

lemma unlink:
  assumes seg: "segment m None p (us @ a # ws) None" and dist: "distinct (us @ a # ws)"
  obtains e m1 m2 where "m a = Some e" "e_next e = head_or ws None" "(e_prev e \<noteq> None) = (us \<noteq> [])"
    "(if e_prev e \<noteq> None then modify (e_prev e) (e_next_update (\<lambda>_. e_next e)) m else Some m) = Some m1"
    "(if e_next e \<noteq> None then modify (e_next e) (e_prev_update (\<lambda>_. e_prev e)) m1 else Some m1) = Some m2"
    "segment (m2(a := None)) None (if us = [] then head_or ws None else p) (us @ ws) None" "info m2 = info m"
proof -
  have s: "segment m None p us (Some a)" "segment m (last_or None us) (Some a) (a # ws) None"
    using seg by (simp_all add: segment_append head_or_def)
  then obtain e where e: "m a = Some e" "e_prev e = last_or None us" "segment m (Some a) (e_next e) ws None" by auto
  have n: "e_next e = head_or ws None" by (rule segment_start [OF e(3)])
  obtain m1 where m1: "(if e_prev e \<noteq> None then modify (e_prev e) (e_next_update (\<lambda>_. e_next e)) m else Some m) = Some m1"
    "segment m1 None (if us = [] then e_next e else p) us (e_next e)" "info m1 = info m" "\<And>x. x \<notin> set us \<Longrightarrow> m1 x = m x"
  proof (cases "us = []")
    case True
    then show thesis using that [of m] e(2) by (simp add: last_or_def)
  next
    case False
    then obtain el where el: "m (last us) = Some el" "segment (m(last us \<mapsto> el\<lparr>e_next := e_next e\<rparr>)) None p us (e_next e)"
      using segment_last_next [OF s(1), of "e_next e"] dist by auto
    show thesis by (rule that [of "m(last us \<mapsto> el\<lparr>e_next := e_next e\<rparr>)"]) (use el False e(2) in \<open>auto simp: modify_def last_or_def\<close>)
  qed
  have s1: "segment m1 (Some a) (e_next e) ws None"
    using e(3) dist m1(4) segment_cong [of ws m1 m "Some a" "e_next e" None] by auto
  obtain m2 where m2: "(if e_next e \<noteq> None then modify (e_next e) (e_prev_update (\<lambda>_. e_prev e)) m1 else Some m1) = Some m2"
    "segment m2 (last_or None us) (e_next e) ws None" "info m2 = info m1" "\<And>x. x \<notin> set ws \<Longrightarrow> m2 x = m1 x"
  proof (cases ws)
    case Nil
    then show thesis using that [of m1] s1 by simp
  next
    case (Cons b bs)
    then obtain eb where eb: "m1 b = Some eb" "segment (m1(b \<mapsto> eb\<lparr>e_prev := e_prev e\<rparr>)) (e_prev e) (e_next e) (b # bs) None"
      using segment_head_prev [of m1 "Some a" "e_next e" b bs None "e_prev e"] s1 dist by auto
    show thesis by (rule that [of "m1(b \<mapsto> eb\<lparr>e_prev := e_prev e\<rparr>)"]) (use eb Cons n e(2) in \<open>auto simp: modify_def head_or_def\<close>)
  qed
  have "m2 x = m1 x" if "x \<in> set us" for x using that dist by (intro m2(4)) auto
  from segment_cong [of us m2 m1, OF this] have "segment m2 None (if us = [] then e_next e else p) us (e_next e)" using m1(2) by blast
  then have "segment (m2(a := None)) None (if us = [] then head_or ws None else p) (us @ ws) None"
    using m2(2) dist by (cases "us = []") (simp_all add: segment_append n last_or_def)
  moreover have "(e_prev e \<noteq> None) = (us \<noteq> [])" by (simp add: e(2) last_or_def)
  ultimately show thesis using that e(1) n m1(1,3) m2(1,3) by metis
qed

section \<open>Neighbours\<close>

text \<open>Elements with the same value of \<open>f\<close> follow each other.\<close>

fun grouped :: "(addr \<Rightarrow> nat) \<Rightarrow> addr list \<Rightarrow> bool" where
  "grouped f [] = True"
| "grouped f (a # as) \<longleftrightarrow> grouped f as \<and> (f a \<in> f ` set as \<longrightarrow> f (hd as) = f a)"

lemma grouped_cong: "(\<And>a. a \<in> set as \<Longrightarrow> f a = g a) \<Longrightarrow> grouped f as = grouped g as"
proof (induction as)
  case (Cons a as)
  then show ?case by (cases as) auto
qed simp

lemma grouped_block:
  "grouped f as \<Longrightarrow> \<exists>vs. dropWhile (\<lambda>x. f x \<noteq> i) as = filter (\<lambda>x. f x = i) as @ vs"
proof (induction as)
  case (Cons a as)
  show ?case
  proof (cases "f a = i \<and> (\<exists>x \<in> set as. f x = i)")
    case True
    then have "f a \<in> f ` set as" by (metis image_eqI)
    then have "f (hd as) = i" "as \<noteq> []" using Cons.prems True by auto
    then have "dropWhile (\<lambda>x. f x \<noteq> i) as = as" by (cases as) auto
    then show ?thesis using Cons True by auto
  next
    case False
    then show ?thesis using Cons by (auto simp: filter_empty_conv)
  qed
qed simp

lemma grouped_front: "grouped f as \<Longrightarrow> f a \<notin> f ` set as \<Longrightarrow> grouped f (a # as)"
  by simp

lemma grouped_insert:
  "grouped f (us @ b # ws) \<Longrightarrow> f a = f b \<Longrightarrow> \<forall>x \<in> set us. f x \<noteq> f b \<Longrightarrow> grouped f (us @ a # b # ws)"
proof (induction us)
  case (Cons u us)
  have "f (hd (us @ a # b # ws)) = f (hd (us @ b # ws))" using Cons.prems(2) by (cases us) simp_all
  moreover have "f ` set (us @ a # b # ws) = f ` set (us @ b # ws)" using Cons.prems(2) by auto
  ultimately show ?case using Cons by (simp only: append_Cons grouped.simps list.set ball_simps) simp
qed simp

lemma grouped_remove: "grouped f (us @ a # ws) \<Longrightarrow> grouped f (us @ ws)"
proof (induction us)
  case (Cons u us)
  then have g: "grouped f (us @ ws)" and h: "f u \<in> f ` set (us @ a # ws) \<longrightarrow> f (hd (us @ a # ws)) = f u" by simp_all
  have "f (hd (us @ ws)) = f u" if i: "f u \<in> f ` set (us @ ws)"
  proof (cases us)
    case Nil
    then have "f a = f u" "f u \<in> f ` set ws" using h i by auto
    then show ?thesis using Cons.prems Nil by simp
  next
    case (Cons v vs)
    then show ?thesis using h i by (simp only: append_Cons list.sel set_append list.set image_Un image_insert) blast
  qed
  then show ?case using g by (simp only: append_Cons grouped.simps) blast
qed simp

end
