(* ===== verification/SqlHashLib.thy ===== *)
theory SqlHashLib
  imports SqlHashMem
begin

text \<open>
  The hash table as a map from keys, up to the case of letters, to data: the invariant of list and buckets, what
  every operation does to it, and the contract of a table as a locale.
\<close>

section \<open>The invariant\<close>

text \<open>The bucket of an element, by the hash that is stored in it.\<close>

definition slot_of :: "'d hash \<Rightarrow> addr \<Rightarrow> nat" where
  "slot_of H a = (case info (elems H) a of Some (k, h, d) \<Rightarrow> slot h H | None \<Rightarrow> 0)"

definition bucket_ok :: "addr list \<Rightarrow> (addr \<Rightarrow> nat) \<Rightarrow> nat \<Rightarrow> bucket \<Rightarrow> bool" where
  "bucket_ok es f i b \<longleftrightarrow> unat (b_count b) = length (filter (\<lambda>a. f a = i) es) \<and>
     (\<forall>a as. filter (\<lambda>a. f a = i) es = a # as \<longrightarrow> b_chain b = Some a)"

definition buckets_ok :: "'d hash \<Rightarrow> addr list \<Rightarrow> bool" where
  "buckets_ok H es \<longleftrightarrow>
     (case ht H of
        None \<Rightarrow> htsize H = 0
      | Some bs \<Rightarrow> htsize H \<noteq> 0 \<and> length bs = unat (htsize H) \<and> grouped (slot_of H) es \<and>
          (\<forall>i < length bs. bucket_ok es (slot_of H) i (bs ! i)))"

definition table_ok :: "'d hash \<Rightarrow> addr list \<Rightarrow> bool" where
  "table_ok H es \<longleftrightarrow> distinct es \<and> length es < 2 ^ 32 \<and> segment (elems H) None (h_first H) es None \<and> buckets_ok H es"

definition hash_inv :: "'d hash \<Rightarrow> addr list \<Rightarrow> bool" where
  "hash_inv H es \<longleftrightarrow> table_ok H es \<and> dom (elems H) = set es \<and> unat (h_count H) = length es \<and>
     (\<forall>a \<in> set es. \<exists>k d. info (elems H) a = Some (k, folded_hash k, Some d)) \<and>
     (\<forall>a \<in> set es. \<forall>b \<in> set es. map_option fst (info (elems H) a) = map_option fst (info (elems H) b) \<longrightarrow> a = b)"

lemma slot_bound: "htsize H \<noteq> 0 \<Longrightarrow> slot h H < unat (htsize H)"
  by (simp add: slot_def unat_mod_distrib word_neq_0_conv unat_gt_0)

lemma slot_of_cong: "info (elems H') = info (elems H) \<Longrightarrow> htsize H' = htsize H \<Longrightarrow> slot_of H' = slot_of H"
  by (rule ext) (simp add: slot_of_def slot_def split: option.split)

lemma slot_of_elem: "elems H a = Some e \<Longrightarrow> slot_of H a = slot (e_h e) H"
  by (simp add: slot_of_def info_def)

lemma segment_elems: "segment m pr p as nx \<Longrightarrow> a \<in> set as \<Longrightarrow> \<exists>e. m a = Some e"
  by (induction as arbitrary: pr p) auto

section \<open>Entering a bucket\<close>

lemma bucket_enter:
  assumes "bucket_ok (us @ ws) f (f a) b" "length (us @ ws) + 1 < 2 ^ 32" "\<forall>x \<in> set us. f x \<noteq> f a"
  shows "bucket_ok (us @ a # ws) f (f a) \<lparr>b_count = b_count b + 1, b_chain = Some a\<rparr>"
proof -
  have us: "filter (\<lambda>x. f x = f a) us = []" using assms(3) by (simp add: filter_empty_conv)
  have "unat (b_count b) + unat (1 :: u32) < 2 ^ LENGTH(32)"
    using assms(1,2) length_filter_le [of "\<lambda>x. f x = f a" "us @ ws"] by (simp add: bucket_ok_def)
  then have "unat (b_count b + 1) = unat (b_count b) + 1" by (subst unat_add_lem [THEN iffD1]) simp_all
  then show ?thesis using assms(1) us by (simp add: bucket_ok_def)
qed

lemma bucket_other: "j \<noteq> f a \<Longrightarrow> bucket_ok (us @ a # ws) f j b = bucket_ok (us @ ws) f j b"
  by (simp add: bucket_ok_def)

lemma buckets_enter:
  assumes "ht H = Some bs" "buckets_ok H (us @ ws)" "length (us @ ws) + 1 < 2 ^ 32"
    and "\<forall>x \<in> set us. slot_of H x \<noteq> slot_of H a" "grouped (slot_of H) (us @ a # ws)"
    and "ht H' = Some (bs[slot_of H a := \<lparr>b_count = b_count (bs ! slot_of H a) + 1, b_chain = Some a\<rparr>])"
    and "htsize H' = htsize H" "info (elems H') = info (elems H)"
  shows "buckets_ok H' (us @ a # ws)"
proof -
  have f: "slot_of H' = slot_of H" using assms(7,8) by (intro slot_of_cong)
  have "bucket_ok (us @ a # ws) (slot_of H) j (bs[slot_of H a := \<lparr>b_count = b_count (bs ! slot_of H a) + 1, b_chain = Some a\<rparr>] ! j)"
    if "j < length bs" for j
  proof (cases "j = slot_of H a")
    case True
    then show ?thesis using that assms(1,2) bucket_enter [OF _ assms(3,4)] by (simp add: buckets_ok_def)
  next
    case False
    then show ?thesis using that assms(1,2) by (simp add: buckets_ok_def bucket_other)
  qed
  then show ?thesis using assms(1,2,5,6,7) by (simp add: buckets_ok_def f)
qed

text \<open>The result of steps that put elements into the table.\<close>

definition absorbed :: "addr list \<Rightarrow> 'd hash \<Rightarrow> addr list \<Rightarrow> 'd hash \<Rightarrow> addr list \<Rightarrow> bool" where
  "absorbed as H es H' es' \<longleftrightarrow> table_ok H' es' \<and> set es' = set as \<union> set es \<and> length es' = length as + length es \<and>
     info (elems H') = info (elems H) \<and> htsize H' = htsize H \<and> (ht H' = None) = (ht H = None) \<and> h_count H' = h_count H \<and>
     (\<forall>x. x \<notin> set es' \<longrightarrow> elems H' x = elems H x)"

lemma absorbed_Cons: "absorbed [a] H es H1 es1 \<Longrightarrow> absorbed as H1 es1 H2 es2 \<Longrightarrow> absorbed (a # as) H es H2 es2"
  by (auto simp: absorbed_def)

lemma insert_first:
  assumes t: "table_ok H es" "length es + 1 < 2 ^ 32" and a: "a \<notin> set es" "elems H a = Some e"
    and b: "enter_bucket p a (ht H) = Some (None, t')"
    and k: "\<And>H'. ht H' = t' \<Longrightarrow> htsize H' = htsize H \<Longrightarrow> info (elems H') = info (elems H) \<Longrightarrow> buckets_ok H' (a # es)"
    and n: "(t' = None) = (ht H = None)"
  shows "\<exists>H' es'. insertElement p a H = Some H' \<and> absorbed [a] H es H' es'"
proof -
  have l: "segment (elems H) None (h_first H) es None" "distinct es" using t(1) by (simp_all add: table_ok_def)
  obtain m1 m2 m3 where m: "modify (Some a) (\<lambda>e. e\<lparr>e_next := h_first H\<rparr>) (elems H) = Some m1"
    "(if h_first H \<noteq> None then modify (h_first H) (e_prev_update (\<lambda>_. Some a)) m1 else Some m1) = Some m2"
    "modify (Some a) (\<lambda>e. e\<lparr>e_prev := None\<rparr>) m2 = Some m3" "segment m3 None (Some a) (a # es) None"
    "info m3 = info (elems H)" "\<And>x. x \<notin> set (a # es) \<Longrightarrow> m3 x = elems H x"
    by (rule link_first [OF l a]) blast
  let ?H = "H\<lparr>ht := t', elems := m3, h_first := Some a\<rparr>"
  have "insertElement p a H = Some ?H" using b m(1-3) by (simp add: insertElement_def)
  moreover have "absorbed [a] H es ?H (a # es)" using m(4-6) k [of ?H] t l(2) a(1) n by (simp add: absorbed_def table_ok_def)
  ultimately show ?thesis by blast
qed

lemma insert_before:
  assumes t: "table_ok H (us @ b # ws)" "length (us @ b # ws) + 1 < 2 ^ 32" and a: "a \<notin> set (us @ b # ws)" "elems H a = Some e"
    and b: "enter_bucket p a (ht H) = Some (Some b, t')"
    and k: "\<And>H'. ht H' = t' \<Longrightarrow> htsize H' = htsize H \<Longrightarrow> info (elems H') = info (elems H) \<Longrightarrow> buckets_ok H' (us @ a # b # ws)"
    and n: "(t' = None) = (ht H = None)"
  shows "\<exists>H' es'. insertElement p a H = Some H' \<and> absorbed [a] H (us @ b # ws) H' es'"
proof -
  have l: "segment (elems H) None (h_first H) (us @ b # ws) None" "distinct (us @ b # ws)" using t(1) by (simp_all add: table_ok_def)
  obtain eb m1 m2 m3 where m: "elems H b = Some eb" "(e_prev eb \<noteq> None) = (us \<noteq> [])"
    "modify (Some a) (\<lambda>e. e\<lparr>e_next := Some b, e_prev := e_prev eb\<rparr>) (elems H) = Some m1"
    "(if e_prev eb \<noteq> None then modify (e_prev eb) (e_next_update (\<lambda>_. Some a)) m1 else Some m1) = Some m2"
    "modify (Some b) (e_prev_update (\<lambda>_. Some a)) m2 = Some m3"
    "segment m3 None (if us = [] then Some a else h_first H) (us @ a # b # ws) None" "info m3 = info (elems H)"
    "\<And>x. x \<notin> set (us @ a # b # ws) \<Longrightarrow> m3 x = elems H x"
    by (rule link_before [OF l a]) blast
  let ?H = "H\<lparr>ht := t', elems := m3, h_first := (if e_prev eb \<noteq> None then h_first H else Some a)\<rparr>"
  have "insertElement p a H = Some ?H" using b m(1,3,4,5) by (simp add: insertElement_def)
  moreover have "h_first ?H = (if us = [] then Some a else h_first H)" using m(2) by simp
  then have "absorbed [a] H (us @ b # ws) ?H (us @ a # b # ws)"
    using m(6-8) k [of ?H] t l(2) a(1) n by (simp add: absorbed_def table_ok_def insert_commute)
  ultimately show ?thesis by blast
qed

lemma insertElement_ok:
  assumes t: "table_ok H es" "length es + 1 < 2 ^ 32" and a: "a \<notin> set es" "elems H a = Some e"
  shows "\<exists>H' es'. insertElement (if ht H \<noteq> None then Some (slot (e_h e) H) else None) a H = Some H' \<and> absorbed [a] H es H' es'"
proof (cases "ht H")
  case None
  then have "enter_bucket None a (ht H) = Some (None, None)" by (simp add: enter_bucket_def)
  from insert_first [OF t a this] show ?thesis using None t(1) by (simp add: buckets_ok_def table_ok_def)
next
  case (Some bs)
  let ?i = "slot_of H a" and ?f = "\<lambda>x. slot_of H x = slot_of H a"
  have bk: "buckets_ok H es" using t(1) by (simp add: table_ok_def)
  have i: "slot (e_h e) H = ?i" "?i < length bs"
    using slot_of_elem [of H a e] a(2) slot_bound [of H] bk Some by (simp_all add: buckets_ok_def)
  have ok: "bucket_ok es (slot_of H) ?i (bs ! ?i)" and g: "grouped (slot_of H) es"
    using bk Some i(2) by (simp_all add: buckets_ok_def)
  have p: "(if ht H \<noteq> None then Some (slot (e_h e) H) else None) = Some ?i" using Some i(1) by simp
  let ?t = "Some (bs[?i := \<lparr>b_count = b_count (bs ! ?i) + 1, b_chain = Some a\<rparr>])"
  show ?thesis
  proof (cases "filter ?f es")
    case Nil
    then have no: "\<forall>x \<in> set es. slot_of H x \<noteq> ?i" by (simp add: filter_empty_conv)
    have "b_count (bs ! ?i) = 0" using ok Nil by (simp add: bucket_ok_def unat_eq_0)
    then have e: "enter_bucket (Some ?i) a (ht H) = Some (None, ?t)" using i(2) Some by (simp add: enter_bucket_def)
    have k: "buckets_ok H' (a # es)" if "ht H' = ?t" "htsize H' = htsize H" "info (elems H') = info (elems H)" for H'
    proof -
      have "slot_of H a \<notin> slot_of H ` set es" using no by (metis imageE)
      note g1 = grouped_front [OF g this]
      show ?thesis by (rule buckets_enter [OF Some, of "[]", simplified append_Nil]) (use bk t(2) that g1 in simp_all)
    qed
    have n: "(?t = None) = (ht H = None)" using Some by simp
    show ?thesis unfolding p by (rule insert_first [OF t a e k n])
  next
    case (Cons b xs)
    then obtain us ws where es: "es = us @ b # ws" "\<forall>x \<in> set us. \<not> ?f x" "?f b" by (auto simp: filter_eq_Cons_iff)
    have "b_count (bs ! ?i) \<noteq> 0" "b_chain (bs ! ?i) = Some b" using ok Cons by (auto simp: bucket_ok_def)
    then have e: "enter_bucket (Some ?i) a (ht H) = Some (Some b, ?t)" using i(2) Some by (simp add: enter_bucket_def)
    have k: "buckets_ok H' (us @ a # b # ws)" if "ht H' = ?t" "htsize H' = htsize H" "info (elems H') = info (elems H)" for H'
      using buckets_enter [OF Some, of us "b # ws" a H'] grouped_insert [of "slot_of H" us b ws a] bk t(2) g es that by auto
    have n: "(?t = None) = (ht H = None)" using Some by simp
    show ?thesis unfolding p es(1) by (rule insert_before [OF t [unfolded es(1)] a [unfolded es(1)] e k n])
  qed
qed

section \<open>Rehashing\<close>

fun path :: "'d memory \<Rightarrow> addr option \<Rightarrow> addr list \<Rightarrow> bool" where
  "path m p [] \<longleftrightarrow> p = None"
| "path m p (a # as) \<longleftrightarrow> p = Some a \<and> (\<exists>e. m a = Some e \<and> path m (e_next e) as)"

lemma segment_path: "segment m pr p as None \<Longrightarrow> path m p as"
  by (induction as arbitrary: pr p) auto

lemma path_cong: "(\<And>a. a \<in> set as \<Longrightarrow> m' a = m a) \<Longrightarrow> path m' p as = path m p as"
  by (induction as arbitrary: p) auto

lemma path_frame [simp]: "a \<notin> set as \<Longrightarrow> path (m(a := x)) p as = path m p as"
  by (induction as arbitrary: p) auto

lemma rehash_loop_ok:
  "table_ok H es \<Longrightarrow> path (elems H) p as \<Longrightarrow> distinct (as @ es) \<Longrightarrow> length as + length es < 2 ^ 32 \<Longrightarrow> ht H \<noteq> None \<Longrightarrow>
   \<exists>H' es'. rehash_loop p H = Some H' \<and> absorbed as H es H' es'"
proof (induction as arbitrary: H es p)
  case Nil
  then show ?case by (auto simp: rehash_loop.simps [of None] absorbed_def)
next
  case (Cons a as)
  obtain e where e: "p = Some a" "elems H a = Some e" "path (elems H) (e_next e) as" using Cons.prems(2) by auto
  obtain H1 es1 where i: "insertElement (Some (slot (e_h e) H)) a H = Some H1" "absorbed [a] H es H1 es1"
    using insertElement_ok [OF Cons.prems(1) _ _ e(2)] Cons.prems(3,4,5) by auto
  then have t: "table_ok H1 es1" "set es1 = insert a (set es)" "length es1 = 1 + length es" "ht H1 \<noteq> None"
    "\<And>x. x \<notin> set es1 \<Longrightarrow> elems H1 x = elems H x" using Cons.prems(5) by (simp_all add: absorbed_def)
  have "distinct es1" "set as \<inter> set es1 = {}" using t(1,2) Cons.prems(3) by (auto simp: table_ok_def)
  then have x: "elems H1 x = elems H x" if "x \<in> set as" for x using that t(5) by blast
  have "path (elems H1) (e_next e) as" using e(3) path_cong [of as "elems H1" "elems H", OF x] by simp
  moreover have "distinct (as @ es1)" using \<open>distinct es1\<close> \<open>set as \<inter> set es1 = {}\<close> Cons.prems(3) by simp
  ultimately obtain H2 es2 where "rehash_loop (e_next e) H1 = Some H2" "absorbed as H1 es1 H2 es2"
    using Cons.IH [OF t(1), of "e_next e"] t(3,4) Cons.prems(4) by auto
  then have "rehash_loop p H = Some H2" "absorbed (a # as) H es H2 es2"
    using e(1,2) i absorbed_Cons by (simp_all add: rehash_loop.simps [of "Some a"])
  then show ?case by blast
qed

text \<open>What is documented of the allocator: fresh memory, and blocks that are not smaller than asked for.\<close>

definition good_allocator :: "allocator \<Rightarrow> bool" where
  "good_allocator g \<longleftrightarrow> (\<forall>used. finite {a. used a} \<longrightarrow> \<not> used (elem_at g used)) \<and>
     (\<forall>n m. bucket_block g n = Some m \<longrightarrow> n \<le> m)"

text \<open>The same elements under other buckets.\<close>

definition reordered :: "'d hash \<Rightarrow> addr list \<Rightarrow> 'd hash \<Rightarrow> addr list \<Rightarrow> bool" where
  "reordered H es H' es' \<longleftrightarrow> table_ok H' es' \<and> set es' = set es \<and> length es' = length es \<and>
     info (elems H') = info (elems H) \<and> h_count H' = h_count H \<and> (\<forall>x. x \<notin> set es \<longrightarrow> elems H' x = elems H x)"

lemma rehash_ok:
  assumes t: "table_ok H es" and g: "good_allocator g" and n: "n \<noteq> 0"
  shows "\<exists>H' es'. rehash g n H = Some H' \<and> reordered H es H' es'"
proof -
  define k where "k = (if unat n * 16 > 1024 then 64 else n)"
  have u: "rehash g n H = (if k = htsize H then Some H else case bucket_block g k of None \<Rightarrow> Some H
      | Some m \<Rightarrow> rehash_loop (h_first H)
          (H\<lparr>ht := Some (replicate (unat m) \<lparr>b_count = 0, b_chain = None\<rparr>), htsize := m, h_first := None\<rparr>))"
    by (simp only: rehash_def k_def Let_def)
  have r: "reordered H es H es" using t by (simp add: reordered_def)
  show ?thesis
  proof (cases "k = htsize H \<or> bucket_block g k = None")
    case True
    then show ?thesis using r by (auto simp: u)
  next
    case False
    then obtain m where m: "bucket_block g k = Some m" by auto
    have "k \<noteq> 0" using n by (simp add: k_def)
    moreover have "k \<le> m" using g m by (simp add: good_allocator_def)
    ultimately have m0: "m \<noteq> 0" by auto
    let ?H = "H\<lparr>ht := Some (replicate (unat m) \<lparr>b_count = 0, b_chain = None\<rparr>), htsize := m, h_first := None\<rparr>"
    have "path (elems H) (h_first H) es" using t segment_path by (auto simp: table_ok_def)
    moreover have "table_ok ?H []" using m0 by (simp add: table_ok_def buckets_ok_def bucket_ok_def)
    ultimately obtain H' es' where "rehash_loop (h_first H) ?H = Some H'" "absorbed es ?H [] H' es'"
      using rehash_loop_ok [of ?H "[]" "h_first H" es] t by (auto simp: table_ok_def)
    then have "rehash g n H = Some H'" "reordered H es H' es'"
      using False m by (simp_all add: u absorbed_def reordered_def)
    then show ?thesis by blast
  qed
qed

lemma times_3_0: "(c :: u32) * 3 = 0 \<Longrightarrow> c = 0"
proof -
  assume "c * 3 = 0"
  then have "c * 3 * 0xAAAAAAAB = 0" by (simp only: mult_zero_left)
  moreover have "(3 :: u32) * 0xAAAAAAAB = 1" by code_simp
  ultimately show "c = 0" by (metis mult.assoc mult_1_right)
qed

end
