(* ===== verification/SqlHashProps.thy ===== *)
theory SqlHashProps
  imports SqlHashLib
begin

text \<open>
  The operations of the hash table of SQLite on the map that it stands for: lookup, replacement, removal, insertion with
  or without rehashing, clearing; their contract as a locale, and any sequence of them.
\<close>

section \<open>Lookup\<close>

lemma find_loop_ok:
  "segment m pr p (as @ bs) nx \<Longrightarrow>
   find_loop m h key (length as) p = Some (List.find (\<lambda>a. \<exists>d. info m a = Some (folded key, h, d)) as)"
proof (induction as arbitrary: pr p)
  case (Cons a as)
  then obtain e where e: "p = Some a" "m a = Some e" "segment m (Some a) (e_next e) (as @ bs) nx" by auto
  have "(\<exists>d. info m a = Some (folded key, h, d)) \<longleftrightarrow> h = e_h e \<and> sqlite3StrICmp (e_key e) key = 0"
    using e(2) by (auto simp: info_def StrICmp_0)
  then show ?case using e Cons.IH [OF e(3)] by simp
qed simp

lemma bucket_segment:
  assumes "distinct es" "segment m None p es None" "grouped f es" "bucket_ok es f i b" "filter (\<lambda>a. f a = i) es \<noteq> []"
  shows "\<exists>pr bs. segment m pr (b_chain b) (filter (\<lambda>a. f a = i) es @ bs) None"
proof -
  obtain bs where "dropWhile (\<lambda>x. f x \<noteq> i) es = filter (\<lambda>x. f x = i) es @ bs" using grouped_block [OF assms(3)] by blast
  then have es: "es = takeWhile (\<lambda>x. f x \<noteq> i) es @ (filter (\<lambda>x. f x = i) es @ bs)" by (metis takeWhile_dropWhile_id)
  obtain a as where s: "filter (\<lambda>a. f a = i) es = a # as" using assms(5) by (cases "filter (\<lambda>a. f a = i) es") auto
  then have "b_chain b = head_or (filter (\<lambda>x. f x = i) es @ bs) None" using assms(4) by (simp add: bucket_ok_def head_or_def)
  moreover have "segment m (last_or None (takeWhile (\<lambda>x. f x \<noteq> i) es)) (head_or (filter (\<lambda>x. f x = i) es @ bs) None)
      (filter (\<lambda>x. f x = i) es @ bs) None"
    using assms(2) by (subst (asm) es, subst (asm) segment_append) blast
  ultimately show ?thesis by metis
qed

lemma findElement_ok:
  assumes inv: "hash_inv H es"
  shows "\<exists>p. findElementWithHash key H = Some (p, folded_hash (folded key)) \<and>
    (case p of
       None \<Rightarrow> \<forall>a d. info (elems H) a \<noteq> Some (folded key, folded_hash (folded key), d)
     | Some a \<Rightarrow> a \<in> set es \<and> (\<exists>d. info (elems H) a = Some (folded key, folded_hash (folded key), Some d)))"
proof -
  let ?h = "folded_hash (folded key)"
  let ?match = "\<lambda>a. \<exists>d. info (elems H) a = Some (folded key, ?h, d)"
  have t: "table_ok H es" "dom (elems H) = set es" "unat (h_count H) = length es" using inv by (simp_all add: hash_inv_def)
  have sub: "a \<in> set es" if "?match a" for a using that t(2) by (auto simp: info_dom)
  obtain as where as: "findElementWithHash key H = Some (List.find ?match as, ?h)" "set as \<subseteq> set es" "\<And>a. ?match a \<Longrightarrow> a \<in> set as"
  proof (cases "ht H")
    case None
    have "segment (elems H) None (h_first H) (es @ []) None" using t(1) by (simp add: table_ok_def)
    from find_loop_ok [OF this] have "find_loop (elems H) ?h key (length es) (h_first H) = Some (List.find ?match es)" .
    then show thesis using that [of es] None sub t(3) by (simp add: findElementWithHash_def strHash_folded Let_def)
  next
    case (Some bs)
    let ?i = "slot ?h H"
    let ?s = "filter (\<lambda>a. slot_of H a = ?i) es"
    have i: "?i < length bs" "bucket_ok es (slot_of H) ?i (bs ! ?i)" "grouped (slot_of H) es"
      using t(1) Some slot_bound [of H ?h] by (simp_all add: table_ok_def buckets_ok_def)
    have "find_loop (elems H) ?h key (length ?s) (b_chain (bs ! ?i)) = Some (List.find ?match ?s)"
    proof (cases "?s = []")
      case False
      have "distinct es" "segment (elems H) None (h_first H) es None" using t(1) by (simp_all add: table_ok_def)
      from bucket_segment [OF this i(3,2) False] show ?thesis using find_loop_ok by blast
    qed simp
    moreover have "unat (b_count (bs ! ?i)) = length ?s" using i(2) by (simp add: bucket_ok_def)
    moreover have "slot_of H a = ?i" if "?match a" for a using that by (auto simp: slot_of_def)
    ultimately show thesis using that [of ?s] Some i(1) sub by (simp add: findElementWithHash_def strHash_folded Let_def)
  qed
  have "case List.find ?match as of None \<Rightarrow> \<forall>a d. info (elems H) a \<noteq> Some (folded key, ?h, d)
     | Some a \<Rightarrow> a \<in> set es \<and> (\<exists>d. info (elems H) a = Some (folded key, ?h, Some d))"
  proof (cases "List.find ?match as")
    case None
    then have "\<not> (\<exists>a. a \<in> set as \<and> ?match a)" unfolding find_None_iff .
    then have "\<forall>a d. info (elems H) a \<noteq> Some (folded key, ?h, d)" using as(3) by blast
    then show ?thesis unfolding None option.case .
  next
    case (Some a)
    then have "?match a" "a \<in> set as" by (auto simp: find_Some_iff)
    then obtain d where "info (elems H) a = Some (folded key, ?h, d)" "a \<in> set es" using as(2) by blast
    moreover then obtain k d' where "info (elems H) a = Some (k, folded_hash k, Some d')" using inv unfolding hash_inv_def by blast
    ultimately show ?thesis using Some by auto
  qed
  then show ?thesis using as(1) by blast
qed

section \<open>Clearing and removal\<close>

lemma free_elems_ok: "path m p as \<Longrightarrow> distinct as \<Longrightarrow> free_elems p m = Some (\<lambda>x. if x \<in> set as then None else m x)"
proof (induction as arbitrary: m p)
  case Nil
  then show ?case by (simp add: free_elems.simps [of None])
next
  case (Cons a as)
  then obtain e where e: "p = Some a" "m a = Some e" "path m (e_next e) as" by auto
  then have "path (m(a := None)) (e_next e) as" using Cons.prems(2) by simp
  moreover have "distinct as" using Cons.prems(2) by simp
  ultimately have "free_elems (e_next e) (m(a := None)) = Some (\<lambda>x. if x \<in> set as then None else (m(a := None)) x)"
    by (rule Cons.IH)
  moreover have "(\<lambda>x. if x \<in> set as then None else (m(a := None)) x) = (\<lambda>x. if x \<in> set (a # as) then None else m x)" by auto
  ultimately show ?case using e(1,2) by (simp add: free_elems.simps [of "Some a"])
qed

lemma HashClear_ok:
  assumes "distinct es" "segment (elems H) None (h_first H) es None" "dom (elems H) = set es"
  shows "sqlite3HashClear H = Some sqlite3HashInit"
proof -
  have "free_elems (h_first H) (elems H) = Some (\<lambda>x. if x \<in> set es then None else elems H x)"
    by (rule free_elems_ok [OF segment_path [OF assms(2)] assms(1)])
  moreover have "(\<lambda>x. if x \<in> set es then None else elems H x) = Map.empty" using assms(3) by (auto simp: fun_eq_iff domIff)
  ultimately show ?thesis by (simp add: sqlite3HashClear_def sqlite3HashInit_def)
qed

lemma bucket_leave:
  assumes ok: "bucket_ok (us @ a # ws) f (f a) b" and d: "distinct (us @ a # ws)" and g: "grouped f (us @ a # ws)"
  shows "bucket_ok (us @ ws) f (f a) \<lparr>b_count = b_count b - 1, b_chain = (if b_chain b = Some a then head_or ws None else b_chain b)\<rparr>"
proof -
  have c: "unat (b_count b) = length (filter (\<lambda>x. f x = f a) us) + 1 + length (filter (\<lambda>x. f x = f a) ws)"
    using ok by (simp add: bucket_ok_def)
  then have "b_count b \<noteq> 0" by auto
  then have u: "unat (b_count b - 1) = unat (b_count b) - 1" by (rule unat_minus_one)
  show ?thesis
  proof (cases "filter (\<lambda>x. f x = f a) us")
    case Nil
    then have "b_chain b = Some a" using ok by (simp add: bucket_ok_def)
    moreover have "head_or ws None = Some x" if "filter (\<lambda>x. f x = f a) ws = x # xs" for x xs
    proof -
      have "f a \<in> f ` set ws" using that by (metis (mono_tags) filter_eq_ConsD image_eqI in_set_conv_decomp)
      moreover have "grouped f (a # ws)" using g by (induction us) auto
      ultimately have "f (hd ws) = f a" by simp
      then show ?thesis using that by (cases ws) (auto simp: head_or_def split: if_splits)
    qed
    ultimately show ?thesis using c u Nil by (simp add: bucket_ok_def)
  next
    case (Cons y ys)
    have "y \<in> set (filter (\<lambda>x. f x = f a) us)" unfolding Cons by simp
    then have "y \<in> set us" by simp
    then have "b_chain b = Some y" "y \<noteq> a" using ok Cons d by (auto simp: bucket_ok_def)
    then show ?thesis using c u Cons by (simp add: bucket_ok_def)
  qed
qed

lemma buckets_leave:
  assumes ok: "buckets_ok H (us @ a # ws)" and d: "distinct (us @ a # ws)" and bs: "ht H = Some bs"
    and n: "length bs' = length bs" "\<And>j. j < length bs \<Longrightarrow> j \<noteq> slot_of H a \<Longrightarrow> bs' ! j = bs ! j"
      "bs' ! slot_of H a = \<lparr>b_count = b_count (bs ! slot_of H a) - 1,
         b_chain = (if b_chain (bs ! slot_of H a) = Some a then head_or ws None else b_chain (bs ! slot_of H a))\<rparr>"
    and h: "ht H' = Some bs'" "htsize H' = htsize H" "\<And>x. x \<in> set (us @ ws) \<Longrightarrow> slot_of H' x = slot_of H x"
  shows "buckets_ok H' (us @ ws)"
proof -
  have g: "grouped (slot_of H) (us @ a # ws)" and b: "\<And>j. j < length bs \<Longrightarrow> bucket_ok (us @ a # ws) (slot_of H) j (bs ! j)"
    using ok bs by (simp_all add: buckets_ok_def)
  have "bucket_ok (us @ ws) (slot_of H) j (bs' ! j)" if "j < length bs" for j
  proof (cases "j = slot_of H a")
    case True
    then show ?thesis using bucket_leave [OF _ d g] b that n(3) by simp
  next
    case False
    then show ?thesis using b [OF that] that n(2) bucket_other [of j "slot_of H" a us ws "bs ! j"] by simp
  qed
  moreover have "filter (\<lambda>x. slot_of H' x = j) (us @ ws) = filter (\<lambda>x. slot_of H x = j) (us @ ws)" for j
    using h(3) by (intro filter_cong) auto
  then have "bucket_ok (us @ ws) (slot_of H') j = bucket_ok (us @ ws) (slot_of H) j" for j
    by (intro ext) (simp only: bucket_ok_def)
  moreover have "grouped (slot_of H') (us @ ws)"
    using grouped_remove [OF g] grouped_cong [of "us @ ws" "slot_of H'" "slot_of H"] h(3) by blast
  ultimately show ?thesis using ok bs h(1,2) n(1) by (simp add: buckets_ok_def)
qed

lemma info_delete: "info (m(a := None)) = (info m)(a := None)"
  by (auto simp: info_def fun_eq_iff)

lemma hash_inv_delete:
  assumes "hash_inv H (us @ a # ws)" "table_ok H' (us @ ws)" "info (elems H') = (info (elems H))(a := None)"
    "h_count H' = h_count H - 1"
  shows "hash_inv H' (us @ ws)"
proof -
  have d: "distinct (us @ a # ws)" "unat (h_count H) = length (us @ a # ws)" "dom (elems H) = set (us @ a # ws)"
    using assms(1) by (simp_all add: hash_inv_def table_ok_def)
  then have "h_count H \<noteq> 0" by auto
  then have "unat (h_count H') = length (us @ ws)" unfolding assms(4) using d(2) unat_minus_one [of "h_count H"] by simp
  moreover have "dom (elems H') = set (us @ ws)" using d(1,3) unfolding info_dom assms(3) by auto
  moreover have "info (elems H') x = info (elems H) x" if "x \<in> set (us @ ws)" for x using that d(1) by (auto simp: assms(3))
  ultimately show ?thesis using assms(1,2) unfolding hash_inv_def by (simp add: ball_Un)
qed

lemma removeElement_ok:
  assumes inv: "hash_inv H es" and a: "a \<in> set es"
  shows "\<exists>H' es'. removeElement a H = Some H' \<and> hash_inv H' es' \<and> info (elems H') = (info (elems H))(a := None)"
proof -
  obtain us ws where es: "es = us @ a # ws" using a by (auto simp: in_set_conv_decomp)
  have t: "distinct (us @ a # ws)" "segment (elems H) None (h_first H) (us @ a # ws) None" "buckets_ok H (us @ a # ws)"
    "length (us @ ws) < 2 ^ 32" using inv by (simp_all add: hash_inv_def table_ok_def es)
  obtain e m1 m2 where m: "elems H a = Some e" "e_next e = head_or ws None" "(e_prev e \<noteq> None) = (us \<noteq> [])"
    "(if e_prev e \<noteq> None then modify (e_prev e) (e_next_update (\<lambda>_. e_next e)) (elems H) else Some (elems H)) = Some m1"
    "(if e_next e \<noteq> None then modify (e_next e) (e_prev_update (\<lambda>_. e_prev e)) m1 else Some m1) = Some m2"
    "segment (m2(a := None)) None (if us = [] then head_or ws None else h_first H) (us @ ws) None" "info m2 = info (elems H)"
    by (rule unlink [OF t(2,1)])
  let ?i = "slot (e_h e) H"
  let ?t = "map_option (\<lambda>bs. bs[?i := \<lparr>b_count = b_count (bs ! ?i) - 1,
      b_chain = (if b_chain (bs ! ?i) = Some a then e_next e else b_chain (bs ! ?i))\<rparr>]) (ht H)"
  let ?H = "H\<lparr>h_first := (if e_prev e \<noteq> None then h_first H else e_next e), ht := ?t, elems := m2(a := None), h_count := h_count H - 1\<rparr>"
  have i: "slot_of H a = ?i" by (rule slot_of_elem [OF m(1)])
  have info: "info (elems ?H) = (info (elems H))(a := None)" using m(7) by (simp add: info_delete)
  have f: "slot_of ?H x = slot_of H x" if "x \<in> set (us @ ws)" for x
    using that t(1) info by (auto simp: slot_of_def slot_def split: option.splits)
  have "buckets_ok ?H (us @ ws)"
  proof (cases "ht H")
    case None
    then show ?thesis using t(3) by (simp add: buckets_ok_def)
  next
    case (Some bs)
    then have l: "?i < length bs" using t(3) slot_bound [of H] by (simp add: buckets_ok_def)
    show ?thesis by (rule buckets_leave [OF t(3,1) Some _ _ _ _ _ f]) (use Some l i m(2) in auto)
  qed
  then have table: "table_ok ?H (us @ ws)" using t(1,4) m(2,3,6) by (cases "us = []") (simp_all add: table_ok_def)
  have inv': "hash_inv ?H (us @ ws)" using hash_inv_delete [OF inv [unfolded es] table info] by simp
  have idx: "?i < length bs" if "ht H = Some bs" for bs using that t(3) slot_bound [of H] by (simp add: buckets_ok_def)
  have r: "removeElement a H = (if h_count ?H = 0 then sqlite3HashClear ?H else Some ?H)"
    using m(1,4,5) idx by (cases "ht H") (simp_all add: removeElement_def Let_def)
  show ?thesis
  proof (cases "h_count ?H = 0")
    case True
    then have "us @ ws = []" "dom (elems ?H) = {}" using inv' by (simp_all add: hash_inv_def)
    then have c: "sqlite3HashClear ?H = Some sqlite3HashInit" using HashClear_ok [of "us @ ws" ?H] table by (simp add: table_ok_def)
    have "hash_inv sqlite3HashInit []" by (simp add: hash_inv_def table_ok_def buckets_ok_def sqlite3HashInit_def)
    moreover have "info (elems sqlite3HashInit) = (info (elems H))(a := None)"
      using \<open>dom (elems ?H) = {}\<close> info by (auto simp: info_dom info_def sqlite3HashInit_def fun_eq_iff)
    ultimately show ?thesis using r c True by auto
  next
    case False
    then show ?thesis using r inv' info by auto
  qed
qed

section \<open>Insertion\<close>

lemma buckets_ok_cong:
  assumes "ht H' = ht H" "htsize H' = htsize H" "\<And>x. x \<in> set es \<Longrightarrow> slot_of H' x = slot_of H x"
  shows "buckets_ok H' es = buckets_ok H es"
proof -
  have "filter (\<lambda>x. slot_of H' x = j) es = filter (\<lambda>x. slot_of H x = j) es" for j using assms(3) by (intro filter_cong) auto
  then have "bucket_ok es (slot_of H') j = bucket_ok es (slot_of H) j" for j by (intro ext) (simp only: bucket_ok_def)
  moreover have "grouped (slot_of H') es = grouped (slot_of H) es" using assms(3) by (rule grouped_cong)
  ultimately show ?thesis by (cases "ht H") (simp_all add: buckets_ok_def assms(1,2))
qed

lemma hash_inv_add:
  assumes "hash_inv H es" "table_ok H' es'" "set es' = insert a (set es)" "length es' = length es + 1" "a \<notin> set es"
    "info (elems H') = (info (elems H))(a \<mapsto> (k, folded_hash k, Some d))" "unat (h_count H') = length es + 1"
    "\<forall>b d. info (elems H) b \<noteq> Some (k, folded_hash k, d)"
  shows "hash_inv H' es'"
proof -
  have h: "dom (elems H) = set es" "\<forall>b \<in> set es. \<exists>k d. info (elems H) b = Some (k, folded_hash k, Some d)"
    "\<forall>b \<in> set es. \<forall>c \<in> set es. map_option fst (info (elems H) b) = map_option fst (info (elems H) c) \<longrightarrow> b = c"
    using assms(1) by (simp_all add: hash_inv_def)
  have "dom (elems H') = set es'" using h(1) unfolding info_dom assms(3,6) by auto
  moreover have "\<forall>b \<in> set es'. \<exists>k d. info (elems H') b = Some (k, folded_hash k, Some d)" using h(2) by (auto simp: assms(3,6))
  moreover have ne: "map_option fst (info (elems H) b) \<noteq> Some k" if "b \<in> set es" for b using h(2) that assms(8) by fastforce
  have "\<forall>b \<in> set es'. \<forall>c \<in> set es'. map_option fst (info (elems H') b) = map_option fst (info (elems H') c) \<longrightarrow> b = c"
    using h(3) ne ne [symmetric] assms(5) by (simp add: assms(3,6))
  ultimately show ?thesis using assms(2,4,7) by (simp add: hash_inv_def)
qed

lemma add_element_ok:
  assumes inv: "hash_inv H es" and g: "good_allocator g" and l: "length es + 1 < 2 ^ 32"
    and new: "\<forall>b d. info (elems H) b \<noteq> Some (folded key, folded_hash (folded key), d)"
  shows "\<exists>a H' es'. add_element g key (folded_hash (folded key)) d H = Some H' \<and> hash_inv H' es' \<and> info (elems H) a = None \<and>
    info (elems H') = (info (elems H))(a \<mapsto> (folded key, folded_hash (folded key), Some d))"
proof -
  let ?h = "folded_hash (folded key)"
  define a where "a = elem_at g (\<lambda>a. elems H a \<noteq> None)"
  define e where "e = \<lparr>e_next = None, e_prev = None, e_data = Some d, e_key = key, e_h = ?h\<rparr>"
  define H1 where "H1 = H\<lparr>elems := (elems H)(a \<mapsto> e), h_count := h_count H + 1\<rparr>"
  have t: "table_ok H es" "dom (elems H) = set es" "unat (h_count H) = length es" using inv by (simp_all add: hash_inv_def)
  have "finite {a. elems H a \<noteq> None}" unfolding dom_def [symmetric] t(2) by simp
  then have fresh: "elems H a = None"
    using g [unfolded good_allocator_def, THEN conjunct1, rule_format, of "\<lambda>a. elems H a \<noteq> None"] by (simp add: a_def)
  then have a: "a \<notin> set es" using t(2) by blast
  have i1: "info (elems H1) = (info (elems H))(a \<mapsto> (folded key, ?h, Some d))" by (auto simp: H1_def info_def e_def fun_eq_iff)
  have "unat (h_count H) + unat (1 :: u32) < 2 ^ LENGTH(32)" using t(3) l by simp
  then have c1: "unat (h_count H1) = length es + 1" using t(3) by (subst H1_def, simp, subst unat_add_lem [THEN iffD1]) simp_all
  have "slot_of H1 x = slot_of H x" if "x \<in> set es" for x
    using that a i1 by (auto simp: slot_of_def slot_def H1_def split: option.split)
  then have "buckets_ok H1 es = buckets_ok H es" by (intro buckets_ok_cong) (simp_all add: H1_def)
  then have t1: "table_ok H1 es" using t(1) a by (simp add: table_ok_def H1_def)
  have "h_count H1 * 3 \<noteq> 0" using times_3_0 [of "h_count H1"] c1 by auto
  from rehash_ok [OF t1 g this] obtain H2 es2 where r: "rehash g (h_count H1 * 3) H1 = Some H2" "reordered H1 es H2 es2" by blast
  obtain H3 es3 where h3: "(if h_count H1 \<ge> 5 \<and> h_count H1 > 2 * htsize H1 then rehash g (h_count H1 * 3) H1 else Some H1) = Some H3"
    "reordered H1 es H3 es3"
    using r t1 by (cases "h_count H1 \<ge> 5 \<and> h_count H1 > 2 * htsize H1") (auto simp: reordered_def)
  have p3: "table_ok H3 es3" "length es3 + 1 < 2 ^ 32" "a \<notin> set es3" "elems H3 a = Some e"
    using h3(2) a l by (auto simp: reordered_def H1_def)
  have eh: "e_h e = ?h" by (simp add: e_def)
  from insertElement_ok [OF p3] obtain H4 es4 where
    h4: "insertElement (if ht H3 \<noteq> None then Some (slot ?h H3) else None) a H3 = Some H4" "absorbed [a] H3 es3 H4 es4"
    unfolding eh by blast
  have "add_element g key ?h d H = Some H4"
    unfolding add_element_def Let_def a_def [symmetric] e_def [symmetric] H1_def [symmetric] h3(1) using h4(1) by simp
  moreover have i4: "info (elems H4) = (info (elems H))(a \<mapsto> (folded key, ?h, Some d))"
    using h4(2) h3(2) i1 by (simp add: absorbed_def reordered_def)
  moreover have "hash_inv H4 es4"
    by (rule hash_inv_add [OF inv _ _ _ a i4 _ new]) (use h4(2) h3(2) c1 in \<open>simp_all add: absorbed_def reordered_def\<close>)
  moreover have "info (elems H) a = None" using fresh by (simp add: info_def)
  ultimately show ?thesis by blast
qed

section \<open>The table as a map\<close>

definition table_holds :: "'d hash \<Rightarrow> (u8 list \<rightharpoonup> 'd) \<Rightarrow> bool" where
  "table_holds H m \<longleftrightarrow> (\<exists>es. hash_inv H es) \<and>
     (\<forall>k d. m k = Some d \<longleftrightarrow> (\<exists>a. info (elems H) a = Some (k, folded_hash k, Some d)))"

text \<open>
  An insertion on the map: the old data is the answer; without memory new data comes back and nothing
  changes.
\<close>

definition table_insert :: "bool \<Rightarrow> 'n \<Rightarrow> 'd option \<Rightarrow> ('n \<rightharpoonup> 'd) \<Rightarrow> 'd option \<times> ('n \<rightharpoonup> 'd)" where
  "table_insert full k d m = (if m k = None \<and> d \<noteq> None \<and> full then (d, m) else (m k, m(k := d)))"

lemma table_holds_init: "table_holds sqlite3HashInit Map.empty"
proof -
  have "hash_inv sqlite3HashInit []" by (simp add: hash_inv_def table_ok_def buckets_ok_def sqlite3HashInit_def)
  then show ?thesis by (auto simp: table_holds_def info_def sqlite3HashInit_def)
qed

lemma table_holds_card:
  assumes "table_holds H m" "hash_inv H es"
  shows "finite (dom m)" "card (dom m) = length es"
proof -
  let ?k = "\<lambda>a. fst (the (info (elems H) a))"
  have es: "\<forall>a \<in> set es. \<exists>k d. info (elems H) a = Some (k, folded_hash k, Some d)" "dom (elems H) = set es" "distinct es"
    "\<forall>a \<in> set es. \<forall>b \<in> set es. map_option fst (info (elems H) a) = map_option fst (info (elems H) b) \<longrightarrow> a = b"
    using assms(2) by (simp_all add: hash_inv_def table_ok_def)
  have m: "m k = Some d \<longleftrightarrow> (\<exists>a. info (elems H) a = Some (k, folded_hash k, Some d))" for k d
    using assms(1) by (simp add: table_holds_def)
  have "dom m = ?k ` set es"
  proof (intro set_eqI iffI)
    fix k
    assume "k \<in> dom m"
    then obtain a d where "info (elems H) a = Some (k, folded_hash k, Some d)" using m by auto
    moreover then have "a \<in> set es" using es(2) by (auto simp: info_dom)
    ultimately show "k \<in> ?k ` set es" by force
  next
    fix k
    assume "k \<in> ?k ` set es"
    then obtain a where "a \<in> set es" "k = ?k a" by blast
    then show "k \<in> dom m" using es(1) m by fastforce
  qed
  moreover have "inj_on ?k (set es)" using es(1,4) by (intro inj_onI) (metis fst_conv option.map(2) option.sel)
  ultimately show "finite (dom m)" "card (dom m) = length es" using es(3) by (simp_all add: card_image distinct_card)
qed

lemma find_table_holds: "table_holds H m \<Longrightarrow> sqlite3HashFind key H = Some (m (folded key))"
proof -
  assume r: "table_holds H m"
  then obtain es where inv: "hash_inv H es" by (auto simp: table_holds_def)
  obtain p where p: "findElementWithHash key H = Some (p, folded_hash (folded key))"
    "case p of None \<Rightarrow> \<forall>a d. info (elems H) a \<noteq> Some (folded key, folded_hash (folded key), d)
     | Some a \<Rightarrow> a \<in> set es \<and> (\<exists>d. info (elems H) a = Some (folded key, folded_hash (folded key), Some d))"
    using findElement_ok [OF inv, of key] by blast
  have "elem_data p H = Some (m (folded key))"
  proof (cases p)
    case None
    then have "m (folded key) = None" using p(2) r by (simp add: table_holds_def) (metis not_None_eq)
    then show ?thesis using None by (simp add: elem_data_def)
  next
    case (Some a)
    then obtain d where d: "info (elems H) a = Some (folded key, folded_hash (folded key), Some d)" using p(2) by auto
    then have "m (folded key) = Some d" using r by (auto simp: table_holds_def)
    then show ?thesis using Some d by (auto simp: elem_data_def info_def)
  qed
  then show ?thesis using p(1) by (simp add: sqlite3HashFind_def)
qed

lemma segment_payload [simp]:
  "m a = Some e \<Longrightarrow> segment (m(a \<mapsto> e\<lparr>e_data := x, e_key := y\<rparr>)) pr p as nx = segment m pr p as nx"
  by (induction as arbitrary: pr p) auto

lemma replace_ok:
  assumes inv: "hash_inv H es" and a: "info (elems H) a = Some (folded key, folded_hash (folded key), Some d0)"
  shows "\<exists>mem. modify (Some a) (\<lambda>e. e\<lparr>e_data := Some d, e_key := key\<rparr>) (elems H) = Some mem \<and> hash_inv (H\<lparr>elems := mem\<rparr>) es \<and>
    info mem = (info (elems H))(a \<mapsto> (folded key, folded_hash (folded key), Some d))"
proof -
  obtain e where e: "elems H a = Some e" "e_h e = folded_hash (folded key)" using a by (auto simp: info_def)
  define mem where "mem = (elems H)(a \<mapsto> e\<lparr>e_data := Some d, e_key := key\<rparr>)"
  let ?H = "H\<lparr>elems := mem\<rparr>"
  have i: "info mem = (info (elems H))(a \<mapsto> (folded key, folded_hash (folded key), Some d))"
    using e(2) by (auto simp: mem_def info_def fun_eq_iff)
  have "slot_of ?H x = slot_of H x" for x using i a by (auto simp: slot_of_def slot_def split: option.split)
  then have "buckets_ok ?H es = buckets_ok H es" by (intro buckets_ok_cong) simp_all
  then have "table_ok ?H es" using inv e(1) by (simp add: hash_inv_def table_ok_def mem_def)
  moreover have "map_option fst (info mem b) = map_option fst (info (elems H) b)" for b using i a by simp
  moreover have "dom mem = set es" using inv e(1) by (auto simp: hash_inv_def mem_def)
  moreover have "\<forall>b \<in> set es. \<exists>k d. info mem b = Some (k, folded_hash k, Some d)" using inv by (auto simp: i hash_inv_def)
  ultimately have "hash_inv ?H es" using inv by (simp add: hash_inv_def)
  then show ?thesis using e(1) i by (auto simp: modify_def mem_def)
qed

lemma table_holds_upd:
  assumes r: "table_holds H m" and inv: "hash_inv H es" "hash_inv H' es'"
    and i: "info (elems H') = (info (elems H))(a := map_option (\<lambda>d. (k, folded_hash k, Some d)) v)"
    and a: "info (elems H) a = None \<and> m k = None \<or> (\<exists>d. info (elems H) a = Some (k, folded_hash k, Some d))"
  shows "table_holds H' (m(k := v))"
proof -
  have m: "m l = Some d \<longleftrightarrow> (\<exists>b. info (elems H) b = Some (l, folded_hash l, Some d))" for l d
    using r by (simp add: table_holds_def)
  have one: "b = c" if "info (elems H) b = Some (l, x)" "info (elems H) c = Some (l, y)" for b c l x y
  proof -
    have "b \<in> set es" "c \<in> set es" using that inv(1) by (auto simp: hash_inv_def info_dom)
    moreover have "map_option fst (info (elems H) b) = map_option fst (info (elems H) c)" using that by simp
    ultimately show ?thesis using inv(1) unfolding hash_inv_def by blast
  qed
  have "(m(k := v)) l = Some d \<longleftrightarrow> (\<exists>b. info (elems H') b = Some (l, folded_hash l, Some d))" for l d
  proof (cases "l = k")
    case True
    have "b = a" if "info (elems H) b = Some (k, folded_hash k, Some d)" for b d using that a m one by (metis option.distinct(1))
    then show ?thesis using True i by auto
  next
    case False
    then have "info (elems H) a \<noteq> Some (l, folded_hash l, Some d)" using a by auto
    then show ?thesis using False i m [of l d] by (auto split: if_splits)
  qed
  then show ?thesis using inv(2) by (auto simp: table_holds_def)
qed

text \<open>What an insertion does for a key that the table does not have, and for one that it has.\<close>

lemma insert_absent:
  assumes r: "table_holds H m" and inv: "hash_inv H es" and g: "good_allocator g" and l: "length es + 1 < 2 ^ 32"
    and f: "findElementWithHash key H = Some (None, folded_hash (folded key))"
    and no: "\<forall>a d. info (elems H) a \<noteq> Some (folded key, folded_hash (folded key), d)"
  shows "\<exists>H'. sqlite3HashInsert g key d H = Some (fst (table_insert (out_of_memory g) (folded key) d m), H') \<and>
    table_holds H' (snd (table_insert (out_of_memory g) (folded key) d m))"
proof -
  let ?k = "folded key"
  have mk: "m ?k = None" using r no by (metis not_None_eq table_holds_def)
  show ?thesis
  proof (cases "d = None \<or> out_of_memory g")
    case True
    have "m(?k := None) = m" using mk by auto
    then show ?thesis using True f mk r by (cases d) (simp_all add: sqlite3HashInsert_def elem_data_def table_insert_def)
  next
    case False
    then obtain v where v: "d = Some v" "\<not> out_of_memory g" by auto
    obtain a H' es' where h: "add_element g key (folded_hash ?k) v H = Some H'" "hash_inv H' es'" "info (elems H) a = None"
      "info (elems H') = (info (elems H))(a \<mapsto> (?k, folded_hash ?k, Some v))"
      using add_element_ok [OF inv g l no] by blast
    then have "table_holds H' (m(?k \<mapsto> v))" using table_holds_upd [OF r inv h(2), of a ?k "Some v"] mk by simp
    then show ?thesis using v h(1) f mk by (simp add: sqlite3HashInsert_def elem_data_def table_insert_def)
  qed
qed

lemma insert_present:
  assumes r: "table_holds H m" and inv: "hash_inv H es" and f: "findElementWithHash key H = Some (Some a, folded_hash (folded key))"
    and a: "a \<in> set es" "info (elems H) a = Some (folded key, folded_hash (folded key), Some d0)"
  shows "\<exists>H'. sqlite3HashInsert g key d H = Some (fst (table_insert (out_of_memory g) (folded key) d m), H') \<and>
    table_holds H' (snd (table_insert (out_of_memory g) (folded key) d m))"
proof -
  let ?k = "folded key"
  have mk: "m ?k = Some d0" using r a(2) by (auto simp: table_holds_def)
  have ed: "elem_data (Some a) H = Some (Some d0)" using a(2) by (auto simp: elem_data_def info_def)
  show ?thesis
  proof (cases d)
    case None
    obtain H' es' where h: "removeElement a H = Some H'" "hash_inv H' es'" "info (elems H') = (info (elems H))(a := None)"
      using removeElement_ok [OF inv a(1)] by blast
    then have "table_holds H' (m(?k := None))" using table_holds_upd [OF r inv h(2), of a ?k None] a(2) by simp
    then show ?thesis using None f ed h(1) mk by (simp add: sqlite3HashInsert_def table_insert_def)
  next
    case (Some v)
    obtain mem where h: "modify (Some a) (\<lambda>e. e\<lparr>e_data := Some v, e_key := key\<rparr>) (elems H) = Some mem"
      "hash_inv (H\<lparr>elems := mem\<rparr>) es" "info mem = (info (elems H))(a \<mapsto> (?k, folded_hash ?k, Some v))"
      using replace_ok [OF inv a(2), of v] by blast
    then have "table_holds (H\<lparr>elems := mem\<rparr>) (m(?k \<mapsto> v))"
      using table_holds_upd [OF r inv h(2), of a ?k "Some v"] a(2) by simp
    then show ?thesis using Some f ed h(1) mk by (simp add: sqlite3HashInsert_def table_insert_def)
  qed
qed

lemma insert_table_holds:
  assumes r: "table_holds H m" and g: "good_allocator g" and l: "card (dom m) + 1 < 2 ^ 32"
  shows "\<exists>H'. sqlite3HashInsert g key d H = Some (fst (table_insert (out_of_memory g) (folded key) d m), H') \<and>
    table_holds H' (snd (table_insert (out_of_memory g) (folded key) d m))"
proof -
  obtain es where inv: "hash_inv H es" using r by (auto simp: table_holds_def)
  have len: "length es + 1 < 2 ^ 32" using table_holds_card [OF r inv] l by simp
  obtain p where p: "findElementWithHash key H = Some (p, folded_hash (folded key))"
    "case p of None \<Rightarrow> \<forall>a d. info (elems H) a \<noteq> Some (folded key, folded_hash (folded key), d)
     | Some a \<Rightarrow> a \<in> set es \<and> (\<exists>d. info (elems H) a = Some (folded key, folded_hash (folded key), Some d))"
    using findElement_ok [OF inv, of key] by blast
  show ?thesis
  proof (cases p)
    case None
    then show ?thesis using p by (intro insert_absent [OF r inv g len]) simp_all
  next
    case (Some a)
    then obtain d0 where "a \<in> set es" "info (elems H) a = Some (folded key, folded_hash (folded key), Some d0)" using p(2) by auto
    then show ?thesis using p(1) Some by (intro insert_present [OF r inv]) simp_all
  qed
qed

end
