(* ===== verification/SqlHashRun.thy ===== *)
theory SqlHashRun
  imports SqlHashProps
begin

text \<open>
  The contract of a table of named data, which its clients use through \<open>sqlite3HashFind\<close> and \<open>sqlite3HashInsert\<close>, its
  interpretation on the hash table of SQLite, and the properties of any sequence of calls.
\<close>

datatype ('k, 'd, 'g) table_op = Lookup 'k | Store 'g 'k "'d option"

text \<open>The calls on an implementation, with the answer of each, and on a map.\<close>

fun table_run :: "('k \<Rightarrow> 's \<Rightarrow> 'd option option) \<Rightarrow> ('g \<Rightarrow> 'k \<Rightarrow> 'd option \<Rightarrow> 's \<Rightarrow> ('d option \<times> 's) option) \<Rightarrow>
    ('k, 'd, 'g) table_op list \<Rightarrow> 's \<Rightarrow> ('d option list \<times> 's) option" where
  "table_run lookup store [] s = Some ([], s)"
| "table_run lookup store (Lookup k # ops) s = do {
     x \<leftarrow> lookup k s;
     (xs, s') \<leftarrow> table_run lookup store ops s;
     Some (x # xs, s') }"
| "table_run lookup store (Store g k d # ops) s = do {
     (x, s1) \<leftarrow> store g k d s;
     (xs, s') \<leftarrow> table_run lookup store ops s1;
     Some (x # xs, s') }"

fun map_run :: "('k \<Rightarrow> 'n) \<Rightarrow> ('g \<Rightarrow> bool) \<Rightarrow> ('k, 'd, 'g) table_op list \<Rightarrow> ('n \<rightharpoonup> 'd) \<Rightarrow> 'd option list \<times> ('n \<rightharpoonup> 'd)" where
  "map_run nm full [] m = ([], m)"
| "map_run nm full (Lookup k # ops) m = (case map_run nm full ops m of (xs, m') \<Rightarrow> (m (nm k) # xs, m'))"
| "map_run nm full (Store g k d # ops) m =
     (case table_insert (full g) (nm k) d m of (x, m1) \<Rightarrow> (case map_run nm full ops m1 of (xs, m') \<Rightarrow> (x # xs, m')))"

fun good_op :: "('g \<Rightarrow> bool) \<Rightarrow> ('k, 'd, 'g) table_op \<Rightarrow> bool" where
  "good_op ok (Lookup k) = True"
| "good_op ok (Store g k d) = ok g"

lemma card_table_insert: "finite (dom m) \<Longrightarrow> card (dom (snd (table_insert full k d m))) \<le> card (dom m) + 1"
  by (cases d) (auto simp: table_insert_def card_insert_if intro: order.trans [OF card_Diff1_le])

locale string_table =
  fixes valid :: "'s \<Rightarrow> ('n \<rightharpoonup> 'd) \<Rightarrow> bool"
    and nm :: "'k \<Rightarrow> 'n"
    and ok :: "'g \<Rightarrow> bool"
    and full :: "'g \<Rightarrow> bool"
    and lookup :: "'k \<Rightarrow> 's \<Rightarrow> 'd option option"
    and store :: "'g \<Rightarrow> 'k \<Rightarrow> 'd option \<Rightarrow> 's \<Rightarrow> ('d option \<times> 's) option"
  assumes finite_map: "valid s m \<Longrightarrow> finite (dom m)"
    and lookup_law: "valid s m \<Longrightarrow> lookup k s = Some (m (nm k))"
    and store_law: "valid s m \<Longrightarrow> ok g \<Longrightarrow> card (dom m) + 1 < 2 ^ 32 \<Longrightarrow>
      \<exists>s'. store g k d s = Some (fst (table_insert (full g) (nm k) d m), s') \<and> valid s' (snd (table_insert (full g) (nm k) d m))"
begin

lemma calls_refine:
  "valid s m \<Longrightarrow> list_all (good_op ok) ops \<Longrightarrow> card (dom m) + length ops < 2 ^ 32 \<Longrightarrow>
   \<exists>s'. table_run lookup store ops s = Some (fst (map_run nm full ops m), s') \<and> valid s' (snd (map_run nm full ops m))"
proof (induction ops arbitrary: s m)
  case (Cons op ops)
  show ?case
  proof (cases op)
    case (Lookup k)
    then obtain s' where "table_run lookup store ops s = Some (fst (map_run nm full ops m), s')"
      "valid s' (snd (map_run nm full ops m))" using Cons.IH [OF Cons.prems(1)] Cons.prems(2,3) by auto
    then show ?thesis using Lookup lookup_law [OF Cons.prems(1)] by (simp add: split_beta)
  next
    case (Store g k d)
    let ?r = "table_insert (full g) (nm k) d m"
    obtain s1 where s1: "store g k d s = Some (fst ?r, s1)" "valid s1 (snd ?r)"
      using store_law [OF Cons.prems(1)] Cons.prems(2,3) Store by force
    have "card (dom (snd ?r)) + length ops < 2 ^ 32"
      using card_table_insert [OF finite_map [OF Cons.prems(1)], of "full g" "nm k" d] Cons.prems(3) by simp
    then obtain s' where "table_run lookup store ops s1 = Some (fst (map_run nm full ops (snd ?r)), s')"
      "valid s' (snd (map_run nm full ops (snd ?r)))" using Cons.IH [OF s1(2)] Cons.prems(2) by auto
    then show ?thesis using Store s1(1) by (simp add: split_beta)
  qed
qed simp

text \<open>What a client relies on: stored data is found under any name that the table does not tell apart.\<close>

lemma stored_is_found:
  assumes "valid s m" "ok g" "\<not> full g" "card (dom m) + 1 < 2 ^ 32" "nm k' = nm k"
  shows "\<exists>x s'. store g k (Some d) s = Some (x, s') \<and> lookup k' s' = Some (Some d)"
  using store_law [OF assms(1,2,4), of k "Some d"] lookup_law assms(3,5) by (fastforce simp: table_insert_def)

end

interpretation hash_table: string_table table_holds folded good_allocator out_of_memory sqlite3HashFind sqlite3HashInsert
proof unfold_locales
  show "finite (dom m)" if "table_holds H m" for H :: "'d hash" and m
  proof -
    obtain es where "hash_inv H es" using \<open>table_holds H m\<close> by (auto simp: table_holds_def)
    then show ?thesis by (rule table_holds_card [OF that])
  qed
qed (use find_table_holds insert_table_holds in blast)+

text \<open>
  C13: Any sequence of lookups and insertions on the hash table of SQLite answers as a map on the names up to the case of letters does, with
  replacement, removal, and a table that is unchanged when there is no memory; no operation follows a pointer to
  nothing or to freed memory.
\<close>

theorem hash_table_is_map:
  assumes "list_all (good_op good_allocator) ops" "length ops < 2 ^ 32"
  shows "\<exists>H. table_run sqlite3HashFind sqlite3HashInsert ops sqlite3HashInit = Some (fst (map_run folded out_of_memory ops Map.empty), H)"
  using hash_table.calls_refine [OF table_holds_init assms(1)] assms(2) by auto

definition first_free :: allocator where
  "first_free = \<lparr>out_of_memory = False, elem_at = (\<lambda>used. LEAST a. \<not> used a), bucket_block = Some\<rparr>"

lemma first_free_good: "good_allocator first_free"
proof -
  have "\<not> used (LEAST a. \<not> used a)" if "finite {a. used a}" for used :: "nat \<Rightarrow> bool"
  proof -
    have "\<exists>a. \<not> used a" using ex_new_if_finite [OF infinite_UNIV_nat that] by simp
    then show ?thesis by (rule LeastI_ex)
  qed
  then show ?thesis unfolding good_allocator_def first_free_def by (simp del: Collect_mem_eq) blast
qed

lemma first_free_room: "\<not> out_of_memory first_free"
  by (simp add: first_free_def)

text \<open>The names AB and aB are the same, and Ac is another.\<close>

theorem hash_table_is_map_witness:
  "\<exists>H. table_run sqlite3HashFind sqlite3HashInsert
     [Store first_free [65, 66] (Some True), Lookup [97, 66], Lookup [65, 99], Store first_free [97, 98] (Some False),
      Store first_free [65, 66] None, Lookup [65, 66]] sqlite3HashInit
     = Some ([None, Some True, None, Some True, Some False, None], H)"
  using hash_table_is_map [of "[Store first_free [65, 66] (Some True), Lookup [97, 66], Lookup [65, 99],
      Store first_free [97, 98] (Some False), Store first_free [65, 66] None, Lookup [65, 66]]"]
  by (simp add: first_free_good first_free_room table_insert_def UpperToLower_case)

text \<open>
  C29: Whatever was done with the table, clearing it frees every element and leaves the empty table: no
  element is lost from the list.
\<close>

theorem hash_clear_frees_all:
  assumes "list_all (good_op good_allocator) ops" "length ops < 2 ^ 32"
    and "table_run sqlite3HashFind sqlite3HashInsert ops sqlite3HashInit = Some (xs, H)"
  shows "sqlite3HashClear H = Some sqlite3HashInit"
proof -
  have "card (dom (Map.empty :: u8 list \<rightharpoonup> 'a)) + length ops < 2 ^ 32" using assms(2) by simp
  then obtain m where "table_holds H m" using hash_table.calls_refine [OF table_holds_init assms(1)] assms(3) by auto
  then obtain es where "hash_inv H es" by (auto simp: table_holds_def)
  then show ?thesis by (intro HashClear_ok [of es]) (simp_all add: hash_inv_def table_ok_def)
qed

theorem hash_clear_frees_all_witness:
  "\<exists>xs H. table_run sqlite3HashFind sqlite3HashInsert [Store first_free [65, 66] (Some True), Store first_free [67] (Some False)]
       sqlite3HashInit = Some (xs, H) \<and> sqlite3HashClear H = Some sqlite3HashInit"
proof -
  let ?ops = "[Store first_free [65, 66] (Some True), Store first_free [67] (Some False)]"
  have g: "list_all (good_op good_allocator) ?ops" by (simp add: first_free_good)
  obtain xs H where r: "table_run sqlite3HashFind sqlite3HashInsert ?ops sqlite3HashInit = Some (xs, H)"
    using hash_table.calls_refine [OF table_holds_init g] by auto
  then have "sqlite3HashClear H = Some sqlite3HashInit" using hash_clear_frees_all [OF g _ r] by simp
  then show ?thesis using r by blast
qed

end
