(* ===== verification/JsonSteps.thy ===== *)
theory JsonSteps
  imports JsonParse
begin

text \<open>
  The loop of the parser as single steps, to say when it ends: \<open>sax_step\<close> is one half of an iteration,
  and no text needs more than two of them for each of its characters, and three more.
\<close>

definition sax_step :: "(string \<Rightarrow> u64) \<Rightarrow> bool \<Rightarrow> next_step \<Rightarrow> next_step" where
  "sax_step strtod ic s =
     (case s of
        Again tok cs states d \<Rightarrow> start_value strtod ic tok cs states d
      | Evaluate cs states d \<Rightarrow> after_value strtod ic cs states d
      | Done cs d \<Rightarrow> Done cs d
      | Fail e \<Rightarrow> Fail e)"

fun finished :: "next_step \<Rightarrow> (string \<times> dom) res option" where
  "finished (Done cs d) = Some (Inr (cs, d))"
| "finished (Fail e) = Some (Inl e)"
| "finished _ = None"

lemma finished_kept: "finished s = Some r \<Longrightarrow> sax_step strtod ic s = s"
  by (cases s) (simp_all add: sax_step_def)

lemma step_shrinks: "finished s = None \<Longrightarrow> step_size (sax_step strtod ic s) < step_size s"
  by (cases s) (simp_all add: sax_step_def start_value_size after_value_size del: step_size.simps)

lemma sax_loop_step: "sax_loop strtod ic s = sax_loop strtod ic (sax_step strtod ic s)"
  by (cases s) (simp_all add: sax_step_def)

lemma sax_loop_finished: "finished s = Some r \<Longrightarrow> sax_loop strtod ic s = r"
  by (cases s) simp_all

lemma steps_end: "\<exists>k \<le> step_size s. finished ((sax_step strtod ic ^^ k) s) = Some (sax_loop strtod ic s)"
proof (induction "step_size s" arbitrary: s rule: less_induct)
  case less
  show ?case
  proof (cases "finished s")
    case (Some r)
    then show ?thesis using sax_loop_finished [OF Some] by (intro exI [of _ 0]) simp
  next
    case None
    obtain k where k: "k \<le> step_size (sax_step strtod ic s)"
      "finished ((sax_step strtod ic ^^ k) (sax_step strtod ic s)) = Some (sax_loop strtod ic s)"
      using less [OF step_shrinks [OF None]] sax_loop_step [of strtod ic s] by metis
    then have "finished ((sax_step strtod ic ^^ Suc k) s) = Some (sax_loop strtod ic s)"
      by (simp only: funpow_Suc_right comp_apply)
    moreover have "Suc k \<le> step_size s" using k(1) step_shrinks [OF None, of strtod ic] by simp
    ultimately show ?thesis by blast
  qed
qed

lemma steps_stay: "finished ((sax_step strtod ic ^^ k) s) = Some r \<Longrightarrow> k \<le> n \<Longrightarrow> finished ((sax_step strtod ic ^^ n) s) = Some r"
proof (induction n)
  case (Suc n)
  then show ?case by (cases "k \<le> n") (auto simp: finished_kept le_Suc_eq)
qed simp

section \<open>Properties\<close>

text \<open>
  C26: The loop of the JSON parser ends on every text, well formed or not, however deep its containers are
  nested: after twice as many half iterations as characters are left, and three more, it has returned,
  with a value or with an error, and that is what the parser gives.
\<close>

theorem parser_terminates:
  "finished ((sax_step strtod ic ^^ (2 * length cs + 3)) (Again tok cs states d)) = Some (sax_loop strtod ic (Again tok cs states d))"
proof -
  obtain k where k: "k \<le> step_size (Again tok cs states d)"
    "finished ((sax_step strtod ic ^^ k) (Again tok cs states d)) = Some (sax_loop strtod ic (Again tok cs states d))"
    using steps_end by blast
  have "step_size (Again tok cs states d) \<le> 2 * length cs + 3" by simp
  then show ?thesis by (rule steps_stay [OF k(2) le_trans [OF k(1)]])
qed

end
