(* ===== verification/Config.thy ===== *)
theory Config
  imports Protocol
begin

text \<open>
  The settings file of the server (\<^verbatim>\<open>config.hpp\<close>, \<^verbatim>\<open>config.cpp\<close>). \<open>operator>>\<close> reads one JSON value from the
  stream and leaves what follows it; a file that cannot be opened is an empty stream. An exception
  reaches \<open>main\<close>, which logs it and returns before the server exists.
\<close>

record server_settings =
  host :: string
  port :: int
  ws_port :: int
  wss_port :: int
  ssl_enabled :: bool
  ssl_cert_file :: string
  ssl_key_file :: string

text \<open>\<open>parser::parse\<close> without the test for the end of the input.\<close>

definition json_read :: "(string \<Rightarrow> u64) \<Rightarrow> string \<Rightarrow> json res" where
  "json_read strtod s =
     (case skip_bom s of
        None \<Rightarrow> Inl (ParseErr 101)
      | Some cs \<Rightarrow>
          (case scan strtod False cs of
             (tok, cs1) \<Rightarrow>
               (case sax_loop strtod False (Again tok cs1 [] empty_dom) of
                  Inl e \<Rightarrow> Inl e
                | Inr (cs2, d) \<Rightarrow> Inr (d_root d))))"

text \<open>The checked access \<open>at\<close> and the conversion to \<open>bool\<close>.\<close>

definition json_member :: "json \<Rightarrow> string \<Rightarrow> json res" where
  "json_member j k =
     (case j of
        JObject ms \<Rightarrow> (case map_of ms k of Some v \<Rightarrow> Inr v | None \<Rightarrow> Inl (OutOfRange 403))
      | _ \<Rightarrow> Inl (TypeError 304))"

definition json_bool :: "json \<Rightarrow> bool res" where
  "json_bool j = (case j of JBool b \<Rightarrow> Inr b | _ \<Rightarrow> Inl (TypeError 302))"

definition value_bool :: "json \<Rightarrow> string \<Rightarrow> bool \<Rightarrow> bool res" where
  "value_bool j k d = json_value j k d json_bool"

definition load_settings :: "(string \<Rightarrow> u64) \<Rightarrow> string option \<Rightarrow> server_settings res" where
  "load_settings strtod file =
     bind_res (json_read strtod (case file of None \<Rightarrow> [] | Some s \<Rightarrow> s)) (\<lambda>jn.
     bind_res (bind_res (json_member jn ''host'') json_string) (\<lambda>h.
     bind_res (bind_res (json_member jn ''port'') json_int) (\<lambda>p.
     bind_res (value_int jn ''ws_port'' 18081) (\<lambda>ws.
     bind_res (value_int jn ''wss_port'' 18082) (\<lambda>wss.
     bind_res (value_bool jn ''ssl_enabled'' False) (\<lambda>ssl.
     bind_res (value_string jn ''ssl_cert_file'' ''certs/server.crt'') (\<lambda>cert.
     bind_res (value_string jn ''ssl_key_file'' ''certs/server.key'') (\<lambda>key.
       Inr \<lparr>host = h, port = p, ws_port = ws, wss_port = wss, ssl_enabled = ssl,
            ssl_cert_file = cert, ssl_key_file = key\<rparr>))))))))"

section \<open>What is loaded\<close>

lemma json_parse_read: "json_parse strtod False s = Inr j \<Longrightarrow> json_read strtod s = Inr j"
  by (auto simp: json_parse_def json_read_def split: option.splits prod.splits sum.splits token.splits)

text \<open>A file that is missing or empty, and one that holds no object, is refused.\<close>

lemma missing_file: "load_settings strtod None = Inl (ParseErr 101)"
  by (simp add: load_settings_def json_read_def skip_bom_def scan.simps skip_whitespace_def scan_token_def start_value_def)

lemma no_host:
  "json_read strtod s = Inr (JObject ms) \<Longrightarrow> map_of ms ''host'' = None \<Longrightarrow> load_settings strtod (Some s) = Inl (OutOfRange 403)"
  by (simp add: load_settings_def json_member_def)

lemma no_object:
  "json_read strtod s = Inr (JArray vs) \<Longrightarrow> load_settings strtod (Some s) = Inl (TypeError 304)"
  by (simp add: load_settings_def json_member_def)

lemma int32_kept: "- (2 ^ 31) \<le> n \<Longrightarrow> n < 2 ^ 31 \<Longrightarrow> to_int32 n = n"
  unfolding to_int32_def by (rule signed_take_bit_int_eq_self) simp_all

text \<open>The defaults of the members that may be missing.\<close>

lemma settings_defaults:
  assumes "json_read strtod s = Inr (JObject ms)" "map_of ms ''host'' = Some (JString h)" "map_of ms ''port'' = Some (JInt p)"
    and "- (2 ^ 31) \<le> p" "p < 2 ^ 31" "dom (map_of ms) \<inter> {''ws_port'', ''wss_port'', ''ssl_enabled'', ''ssl_cert_file'', ''ssl_key_file''} = {}"
  shows "load_settings strtod (Some s) = Inr \<lparr>host = h, port = p, ws_port = 18081, wss_port = 18082, ssl_enabled = False,
      ssl_cert_file = ''certs/server.crt'', ssl_key_file = ''certs/server.key''\<rparr>"
proof -
  have n: "map_of ms k = None" if "k \<in> {''ws_port'', ''wss_port'', ''ssl_enabled'', ''ssl_cert_file'', ''ssl_key_file''}" for k
    using assms(6) that by (meson disjoint_iff domIff)
  show ?thesis
    by (simp add: load_settings_def assms(1-3) json_member_def json_string_def json_int_def int32_kept [OF assms(4,5)]
        value_int_def value_bool_def value_string_def json_value_def n)
qed

definition settings_json :: "server_settings \<Rightarrow> json" where
  "settings_json s = json_object
     [(''host'', JString (host s)), (''port'', JInt (port s)), (''ws_port'', JInt (ws_port s)), (''wss_port'', JInt (wss_port s)),
      (''ssl_enabled'', JBool (ssl_enabled s)), (''ssl_cert_file'', JString (ssl_cert_file s)), (''ssl_key_file'', JString (ssl_key_file s))]"

definition int32 :: "int \<Rightarrow> bool" where
  "int32 n \<longleftrightarrow> - (2 ^ 31) \<le> n \<and> n < 2 ^ 31"

text \<open>Settings written as JSON, in any layout, are loaded again.\<close>

lemma settings_round_trip:
  assumes "good_layout L" "list_all utf8_text [host s, ssl_cert_file s, ssl_key_file s]" "list_all int32 [port s, ws_port s, wss_port s]"
  shows "\<exists>t. json_dump ftoa L 0 (settings_json s) = Inr t \<and> load_settings strtod (Some t) = Inr s"
proof -
  have "printable (settings_json s)"
    unfolding settings_json_def by (rule printable_object) (use assms(2,3) in \<open>simp add: int32_def\<close>)
  then obtain t where t: "json_dump ftoa L 0 (settings_json s) = Inr t" "json_parse strtod False t = Inr (settings_json s)"
    using json_round [OF assms(1)] by blast
  obtain ms where ms: "settings_json s = JObject ms" "ms = fold (\<lambda>(k, v). put_member k v)
     [(''host'', JString (host s)), (''port'', JInt (port s)), (''ws_port'', JInt (ws_port s)), (''wss_port'', JInt (wss_port s)),
      (''ssl_enabled'', JBool (ssl_enabled s)), (''ssl_cert_file'', JString (ssl_cert_file s)), (''ssl_key_file'', JString (ssl_key_file s))] []"
    by (simp add: settings_json_def json_object_def)
  have m: "map_of ms ''host'' = Some (JString (host s))" "map_of ms ''port'' = Some (JInt (port s))"
    "map_of ms ''ws_port'' = Some (JInt (ws_port s))" "map_of ms ''wss_port'' = Some (JInt (wss_port s))"
    "map_of ms ''ssl_enabled'' = Some (JBool (ssl_enabled s))" "map_of ms ''ssl_cert_file'' = Some (JString (ssl_cert_file s))"
    "map_of ms ''ssl_key_file'' = Some (JString (ssl_key_file s))"
    unfolding ms(2) map_of_json_object by simp_all
  have "load_settings strtod (Some t) = Inr s"
    using assms(3) json_parse_read [OF t(2)]
    by (simp add: load_settings_def ms(1) json_member_def json_string_def json_int_def json_bool_def int32_kept int32_def
        value_int_def value_bool_def value_string_def json_value_def m)
  then show ?thesis using t(1) by blast
qed

end
