(* ===== verification/Spec2Isabelle.thy ===== *)
theory Spec2Isabelle
  imports NetProps SqlCellProps RowSetLib SqlHashRun JsonSteps Config
begin

text \<open>
  A verification development for a networked chess game in C++: a chess engine, a server that pairs
  players and runs their games, a console client, and what they rest on inside the repository, the
  JSON library and the file format of SQLite.

  \<^bold>\<open>The program.\<close> \<^verbatim>\<open>main.cpp\<close> loads the settings, starts \<open>ChessServer\<close> (\<^verbatim>\<open>server.cpp\<close>) on an event loop
  and runs it. A TCP or WebSocket session (\<^verbatim>\<open>tcp_session.cpp\<close>, \<^verbatim>\<open>websocket_session.cpp\<close>) takes a line or a message,
  \<open>ProtocolParser::parse\<close> (\<^verbatim>\<open>command.cpp\<close>, \<^verbatim>\<open>protocol.hpp\<close>) makes a command of it with the JSON parser, and the
  session calls the handler of the server. Handlers change players, queue and rooms (\<^verbatim>\<open>game_room.cpp\<close>), which
  use the engine (\<^verbatim>\<open>chess_engine/\<close>), call the database (\<^verbatim>\<open>database.cpp\<close>) and send JSON messages, which the
  sessions queue and write. \<^verbatim>\<open>client.cpp\<close> reads those lines and draws the board. A handler that throws ends the
  event loop and with it the server; that it does not is part of what is proved.

  \<^bold>\<open>The theories.\<close> Each component has its data and operations first, in the order of the code, and the
  facts about them after that; large sets of lemmas and the properties have theories of their own.

  \<^item> \<^theory_text>\<open>Prelude\<close>, \<^theory_text>\<open>WordBits\<close>: shared collections of facts, lemmas on lists and words, equality of words bit by bit.
  \<^item> \<^theory_text>\<open>Bitboard\<close>, \<^theory_text>\<open>Masks\<close>, \<^theory_text>\<open>Pieces\<close>, \<^theory_text>\<open>Moves\<close>, \<^theory_text>\<open>Zobrist\<close>: the headers of \<^verbatim>\<open>chess_engine/\<close>. A bitboard is
    a word of 64 bits, a square a number below 64, 255 stands for none as in the source; the tables are
    computed by the loops that fill them.
  \<^item> \<^theory_text>\<open>Attacks\<close>, \<^theory_text>\<open>MoveGen\<close>, \<^theory_text>\<open>MoveSound\<close>: \<^verbatim>\<open>move_gen.cpp\<close>, a function for each generator, and what every
    generated move satisfies.
  \<^item> \<^theory_text>\<open>Position\<close>, \<^theory_text>\<open>PositionInv\<close>, \<^theory_text>\<open>BoardSpec\<close>, \<^theory_text>\<open>Play\<close>, \<^theory_text>\<open>Fen\<close>, \<^theory_text>\<open>ChessProps\<close>: \<^verbatim>\<open>position.cpp\<close> and \<^verbatim>\<open>fen.cpp\<close>;
    \<open>apply_move\<close> with its roll back, its invariant, its refinement of a move on an abstract board, the games as
    the positions that accepted moves reach, and FEN text.
  \<^item> \<^theory_text>\<open>Json\<close>, \<^theory_text>\<open>JsonUtf8\<close>, \<^theory_text>\<open>JsonLex\<close>, \<^theory_text>\<open>JsonParse\<close>, \<^theory_text>\<open>JsonDump\<close>, \<^theory_text>\<open>JsonRound\<close>, \<^theory_text>\<open>JsonOk\<close>, \<^theory_text>\<open>JsonLine\<close>,
    \<^theory_text>\<open>JsonSteps\<close>: what the program uses of \<^verbatim>\<open>json.hpp\<close>: values and accessors, lexer, parser, serializer and its
    UTF-8 automaton; the round trip, the values that a parser can give, the line that a message is, and when the parser ends.
  \<^item> \<^theory_text>\<open>Protocol\<close>, \<^theory_text>\<open>ProtocolProps\<close>, \<^theory_text>\<open>Config\<close>: \<^verbatim>\<open>protocol.hpp\<close>, \<^verbatim>\<open>command.cpp\<close> and \<^verbatim>\<open>config.cpp\<close>.
  \<^item> \<^theory_text>\<open>Server\<close>, \<^theory_text>\<open>ServerInv\<close>, \<^theory_text>\<open>ServerJson\<close>, \<^theory_text>\<open>ServerFrame\<close>, \<^theory_text>\<open>ServerProps\<close>: \<^verbatim>\<open>server.cpp\<close> and \<^verbatim>\<open>game_room.cpp\<close>. One
    record \<open>world\<close> holds the players, the queue and the rooms, which are shared objects in the source, with the
    messages and the calls of the database in their order; each handler is a function on it.
  \<^item> \<^theory_text>\<open>Database\<close>, \<^theory_text>\<open>DatabaseInv\<close>: \<^verbatim>\<open>database.cpp\<close> on lists of rows, and the accounts as a map.
  \<^item> \<^theory_text>\<open>Session\<close>, \<^theory_text>\<open>Net\<close>, \<^theory_text>\<open>NetLib\<close>, \<^theory_text>\<open>NetProps\<close>: one connection with its queues, and the whole server: handlers, database and
    connections under the steps of the event loop, its runs, and fair runs.
  \<^item> \<^theory_text>\<open>Client\<close>, \<^theory_text>\<open>ClientBoard\<close>, \<^theory_text>\<open>ClientLib\<close>, \<^theory_text>\<open>ClientProps\<close>: \<^verbatim>\<open>client.cpp\<close>, and what server and client do together.
  \<^item> \<^theory_text>\<open>SqlQuote\<close>, \<^theory_text>\<open>SqlVarint\<close>, \<^theory_text>\<open>SqlRecord\<close>, \<^theory_text>\<open>SqlRecordLib\<close>, \<^theory_text>\<open>SqlCell\<close>, \<^theory_text>\<open>SqlCellLib\<close>, \<^theory_text>\<open>SqlCellProps\<close>: from
    \<^verbatim>\<open>sqlite/sqlite3.c\<close> the quoted texts of a statement, varints, records, and cells of B-tree pages, that is the way of a row
    of the server's tables into a page and back.
  \<^item> \<^theory_text>\<open>RowSet\<close>, \<^theory_text>\<open>RowSetLib\<close>: from the same file the sets of row ids, on which \<open>DELETE\<close> and \<open>UPDATE\<close> rest.
  \<^item> \<^theory_text>\<open>SqlHash\<close>, \<^theory_text>\<open>SqlHashMem\<close>, \<^theory_text>\<open>SqlHashLib\<close>, \<^theory_text>\<open>SqlHashProps\<close>, \<^theory_text>\<open>SqlHashRun\<close>: from the same file the hash
    tables of names. Their elements are shared by a linked list and the buckets, so they live in an explicit memory.

  \<^bold>\<open>The interfaces.\<close> \<open>world_relation\<close> and its extension \<open>world_relation_all\<close> (\<^theory_text>\<open>ServerFrame\<close>) carry a relation from
    the elementary changes of the world to every handler; they are interpreted for the growth of the logs and for the identity of
    sessions. \<open>fifo\<close> and \<open>ready_fifo\<close> (\<^theory_text>\<open>Session\<close>) are the contract of a queue, interpreted for the outgoing queue of a connection
    and for the input queue of the client. \<open>byte_codec\<close> (\<^theory_text>\<open>SqlRecordLib\<close>) is the contract of a writer and a reader of bytes,
    interpreted for the varints, the fields of four bytes, the serial types, and the varints that the cell parser has in line. \<open>string_table\<close>
    (\<^theory_text>\<open>SqlHashRun\<close>) is the contract of a table of named data, interpreted for the hash table.

  \<^bold>\<open>What is shown.\<close> Engine: in every reachable position the boards are disjoint and agree, a generated move is
  sound, is accepted, and does to the abstract board what a move does; also the defects, each as a theorem: sliding
  pieces give no check, no en-passant capture is ever offered, the incremental hash drifts. JSON: the parser reads back what the
  serializer writes and ends in linear time; parsed values can always be written. Server: queue and rooms keep
  their invariant, rooms hold reachable positions, an accepted move command is a generated move of the side to move, no message makes
  a handler throw. Database: the login is an operation on a map of accounts; sessions have accounts. Connections: messages are
  delivered in order, each once, and in a fair run all of them. Client: the board on the screen is that of the server. SQLite: a row
  is read back from its cell, the size functions of cells agree with the parsers, the sets of row ids
  refine sets of numbers, and the hash tables refine maps, without an invalid pointer.

  \<^bold>\<open>Parameters.\<close> What is not in the repository is an argument, and its hypotheses are in \<open>good_setting\<close> or in the statements:
  \<open>strtod\<close> and the shortest text of a double (\<open>ftoa\<close>), \<open>std::hash\<close> (\<open>hasher\<close>), the order in which \<open>std::sort\<close> and
  \<open>ORDER BY\<close> leave equal keys (\<open>srt\<close>, \<open>by_rating\<close>), time stamps, the chunks in which a socket delivers bytes, and what SQLite
  answers to a statement that is not the intended one (\<open>engine\<close>; the SQL compiler is in the repository but not modelled).
  The allocator under the hash tables is a parameter too: fresh addresses, blocks not smaller than asked for, or failure.
  The completions of asynchronous operations are events of \<open>net_step\<close>.

  \<^bold>\<open>Bounds.\<close> There is no fuel: every loop is a structural recursion or a \<open>function\<close> with its measure, mostly
  the text or the bits that are left. Words have the width of the C types; half moves are counted as numbers with the
  rounding of the float at \<open>2 ^ 24\<close> written out; the records of SQLite are bounded by its own limit of a thousand million bytes and its
  pages by 65536 bytes. The identifiers of accounts are bounded by \<open>2 ^ 31\<close>, where the source cuts them to \<open>int\<close>.

  \<^bold>\<open>Not modelled.\<close> Sockets, handshake headers and terminal output; logging; threads of the client; failures of
  allocation and of the storage; in \<^verbatim>\<open>json.hpp\<close> what the program never uses (binary formats, pointers, patches, iterators,
  user callbacks); of SQLite the compiler, the virtual machine but for \<open>OP_MakeRecord\<close>, overflow pages, balancing, pager and
  operating system layer, and the shell; the web client, the TLS proxy and the test scripts, which are not C or C++.
\<close>

end
